(* ===== verification/Prelude.thy ===== *)
theory Prelude
  imports Main "HOL-Library.Multiset" "HOL-Library.AList" "HOL-Library.Sublist"
begin

text \<open>
  What every component of the development shares: the collections that carry the proofs
  (\<open>go_simps\<close>, equations of the modelled parts of Go's standard library;
  \<open>wf_intros\<close>, well-formedness facts of the operations; \<open>state_simps\<close>, how the poller's
  helper operations change its state), the names of the basic types of the model, and
  lemmas on association lists, sorting and indexed lists that no library theory states.
\<close>

named_theorems go_simps "equations of the modelled standard library"
named_theorems wf_intros "well-formedness of the results of the operations"
named_theorems state_simps "effects of the poller's helper operations on its state"

text \<open>A Go string, and a byte slice that is only read: a sequence of bytes.\<close>

type_synonym bytes = string

subsection \<open>Options\<close>

lemma option_bind_Some_iff: "Option.bind x f = Some y \<longleftrightarrow> (\<exists>z. x = Some z \<and> f z = Some y)"
  by (cases x) auto

text \<open>Reading a list element by element, all of it or none of it.\<close>

fun map_all :: "('a \<Rightarrow> 'b option) \<Rightarrow> 'a list \<Rightarrow> 'b list option" where
  "map_all f [] = Some []"
| "map_all f (x # xs) =
     (case f x of None \<Rightarrow> None
      | Some y \<Rightarrow> (case map_all f xs of None \<Rightarrow> None | Some ys \<Rightarrow> Some (y # ys)))"

lemma map_all_Some_iff: "map_all f xs = Some ys \<longleftrightarrow> map f xs = map Some ys"
proof (induction xs arbitrary: ys)
  case (Cons x xs)
  then show ?case by (cases ys; cases "f x"; cases "map_all f xs") auto
qed auto

lemma map_all_None_iff: "map_all f xs = None \<longleftrightarrow> (\<exists>x \<in> set xs. f x = None)"
  by (induction xs) (auto split: option.splits)

lemma map_all_length: "map_all f xs = Some ys \<Longrightarrow> length ys = length xs"
  by (metis length_map map_all_Some_iff)

lemma map_all_nth: "map_all f xs = Some ys \<Longrightarrow> i < length xs \<Longrightarrow> f (xs ! i) = Some (ys ! i)"
  by (metis length_map map_all_Some_iff nth_map)

text \<open>Up to the order of the elements, the result depends on the elements alone.\<close>

lemma map_all_perm:
  assumes "mset (map f xs) = mset (map f' ys)" and "map_all f xs = Some us"
  shows "\<exists>vs. map_all f' ys = Some vs \<and> mset us = mset vs"
proof -
  have us: "map f xs = map Some us" using assms(2) by (simp only: map_all_Some_iff)
  then have "mset (map f' ys) = mset (map Some us)" using assms(1) by simp
  then have "set (map f' ys) = Some ` set us" by (metis list.set_map set_mset_mset)
  then have "\<forall>y \<in> set ys. f' y \<noteq> None" by auto
  then obtain vs where vs: "map_all f' ys = Some vs"
    by (meson map_all_None_iff option.exhaust)
  then have "map f' ys = map Some vs" by (simp only: map_all_Some_iff)
  then have "image_mset Some (mset us) = image_mset Some (mset vs)"
    using assms(1) us by simp
  then have "image_mset the (image_mset Some (mset us)) = image_mset the (image_mset Some (mset vs))" by simp
  with vs show ?thesis by (simp add: image_mset.compositionality o_def)
qed

subsection \<open>Sorting by a key\<close>

text \<open>
  Go's \<open>sort.Slice\<close> promises a sorted permutation and nothing about elements with equal
  keys. Where the keys are distinct there is only one such list, so any sorting function
  models it.
\<close>

lemma sorted_distinct_key_unique:
  assumes "mset xs = mset ys" and "sorted (map f xs)" and "sorted (map f ys)"
    and "distinct (map f xs)"
  shows "xs = ys"
proof -
  have sets: "set xs = set ys" using assms(1) by (metis set_mset_mset)
  have inj: "inj_on f (set xs)" using assms(4) by (simp add: distinct_map)
  have "mset (map f xs) = mset (map f ys)" using assms(1) by simp
  with assms(2,3) have "map f xs = map f ys"
    by (metis mset_map properties_for_sort)
  with inj sets show ?thesis by (metis inj_on_map_eq_map sup.idem)
qed

lemma sort_key_perm:
  assumes "mset xs = mset ys" and "distinct (map f xs)"
  shows "sort_key f xs = sort_key f ys"
proof (rule sorted_distinct_key_unique [where f = f])
  show "distinct (map f (sort_key f xs))"
    using assms(2) by (metis distinct_map distinct_sort set_sort)
qed (use assms in simp_all)

lemma map_sort_key: "map f (sort_key f xs) = sort (map f xs)"
  by (rule properties_for_sort [symmetric]) simp_all

lemma sort_perm: "mset xs = mset ys \<Longrightarrow> sort (map f xs) = sort (map f ys)"
  by (metis mset_map sorted_list_of_multiset_mset)

lemma distinct_of_sorted_run: "map f (sort_key f xs) = map int [0..<n] \<Longrightarrow> distinct (map f xs)"
  unfolding map_sort_key by (metis distinct_map distinct_sort distinct_upt inj_on_of_nat)

lemma strict_sorted_map_sort_key:
  "distinct (map f xs) \<Longrightarrow> sorted_wrt (<) (map f (sort_key f xs))"
  by (metis (no_types, opaque_lifting) distinct_map distinct_sort set_sort sorted_sort_key strict_sorted_iff)

lemma sorted_strict_upt:
  fixes xs :: "nat list"
  assumes "sorted_wrt (<) xs" and "set xs = {..<length xs}"
  shows "xs = [0..<length xs]"
  using assms
  by (metis atLeast_upt sorted_list_of_set_unique finite_lessThan card_lessThan
      sorted_wrt_upt set_upt atLeast0LessThan length_upt minus_nat.diff_0)

subsection \<open>Association lists\<close>

text \<open>
  A Go map that is ranged over is an association list without repeated keys, in the order
  in which the range happens to visit it.
\<close>

definition keys_distinct :: "('k \<times> 'v) list \<Rightarrow> bool" where
  "keys_distinct m \<longleftrightarrow> distinct (map fst m)"

lemma keys_distinct_update: "keys_distinct m \<Longrightarrow> keys_distinct (AList.update k v m)"
  by (simp add: keys_distinct_def AList.distinct_update)

lemma map_of_perm:
  assumes "mset m = mset m'" and "keys_distinct m"
  shows "map_of m = map_of m'"
proof -
  have "mset (map fst m) = mset (map fst m')" using assms(1) by (metis mset_map)
  then have d: "distinct (map fst m')" using assms(2) unfolding keys_distinct_def
    by (metis mset_eq_imp_distinct_iff)
  have "set m = set m'" using assms(1) by (metis set_mset_mset)
  then show ?thesis using assms(2) d unfolding keys_distinct_def
    by (metis map_of_inject_set)
qed

lemma keys_distinct_perm: "mset m = mset m' \<Longrightarrow> keys_distinct m \<longleftrightarrow> keys_distinct m'"
  unfolding keys_distinct_def by (metis mset_eq_imp_distinct_iff mset_map)

end
