(* ===== verification/Go_Strings.thy ===== *)
theory Go_Strings
  imports Prelude
begin

text \<open>
  The functions of Go's \<open>strings\<close> package that the exporter calls, on byte strings:
  \<open>TrimSpace\<close>, \<open>Split\<close> on one byte, \<open>HasPrefix\<close>, \<open>TrimPrefix\<close>, \<open>HasSuffix\<close>,
  \<open>LastIndex\<close>, \<open>EqualFold\<close> and \<open>ToLower\<close>, with the lemmas the components use.
\<close>

subsection \<open>White space\<close>

text \<open>
  \<open>unicode.IsSpace\<close> on the UTF-8 encoding of a rune: the six ASCII spaces, U+0085, U+00A0,
  U+1680, U+2000 to U+200A, U+2028, U+2029, U+202F, U+205F and U+3000. No encoding is a
  proper prefix or suffix of another, so a space at either end of a string is recognised
  from its bytes alone.
\<close>

definition ascii_space :: "char \<Rightarrow> bool" where
  "ascii_space c \<longleftrightarrow> c \<in> {CHR '' '', CHR 0x09, CHR 0x0A, CHR 0x0B, CHR 0x0C, CHR 0x0D}"

fun space_enc :: "bytes \<Rightarrow> bool" where
  "space_enc [a] = ascii_space a"
| "space_enc [a, b] = (a = CHR 0xC2 \<and> (b = CHR 0x85 \<or> b = CHR 0xA0))"
| "space_enc [a, b, c] =
     (a = CHR 0xE1 \<and> b = CHR 0x9A \<and> c = CHR 0x80 \<or>
      a = CHR 0xE2 \<and> b = CHR 0x80 \<and>
        (c \<in> {CHR 0x80, CHR 0x81, CHR 0x82, CHR 0x83, CHR 0x84, CHR 0x85, CHR 0x86,
              CHR 0x87, CHR 0x88, CHR 0x89, CHR 0x8A, CHR 0xA8, CHR 0xA9, CHR 0xAF}) \<or>
      a = CHR 0xE2 \<and> b = CHR 0x81 \<and> c = CHR 0x9F \<or>
      a = CHR 0xE3 \<and> b = CHR 0x80 \<and> c = CHR 0x80)"
| "space_enc _ = False"

text \<open>The width in bytes of the white space rune at the start of a string, or 0.\<close>

fun lead_space :: "bytes \<Rightarrow> nat" where
  "lead_space s =
     (if space_enc (take 1 s) then 1
      else if space_enc (take 2 s) then 2
      else if space_enc (take 3 s) then 3 else 0)"

text \<open>The same at the end, on the reversed string.\<close>

fun trail_space :: "bytes \<Rightarrow> nat" where
  "trail_space r =
     (if space_enc (rev (take 1 r)) then 1
      else if space_enc (rev (take 2 r)) then 2
      else if space_enc (rev (take 3 r)) then 3 else 0)"

declare lead_space.simps [simp del] trail_space.simps [simp del]

lemma lead_space_Nil [simp]: "lead_space [] = 0"
  by (simp add: lead_space.simps)

lemma trail_space_Nil [simp]: "trail_space [] = 0"
  by (simp add: trail_space.simps)

function trim_left :: "bytes \<Rightarrow> bytes" where
  "trim_left s = (if lead_space s = 0 then s else trim_left (drop (lead_space s) s))"
  by pat_completeness auto
termination
proof (relation "measure length")
  fix s :: bytes
  assume "lead_space s \<noteq> 0"
  moreover from this have "s \<noteq> []" by auto
  ultimately show "(drop (lead_space s) s, s) \<in> measure length" by simp
qed simp

function trim_right_rev :: "bytes \<Rightarrow> bytes" where
  "trim_right_rev r = (if trail_space r = 0 then r else trim_right_rev (drop (trail_space r) r))"
  by pat_completeness auto
termination
proof (relation "measure length")
  fix s :: bytes
  assume "trail_space s \<noteq> 0"
  moreover from this have "s \<noteq> []" by auto
  ultimately show "(drop (trail_space s) s, s) \<in> measure length" by simp
qed simp

declare trim_left.simps [simp del] trim_right_rev.simps [simp del]

definition trim_right :: "bytes \<Rightarrow> bytes" where
  "trim_right s = rev (trim_right_rev (rev s))"

definition trim_space :: "bytes \<Rightarrow> bytes" where
  "trim_space s = trim_right (trim_left s)"

text \<open>A string of white space runes only.\<close>

inductive all_space :: "bytes \<Rightarrow> bool" where
  all_space_Nil: "all_space []"
| all_space_step: "space_enc w \<Longrightarrow> all_space s \<Longrightarrow> all_space (w @ s)"

lemma all_space_append: "all_space a \<Longrightarrow> all_space b \<Longrightarrow> all_space (a @ b)"
  by (induction rule: all_space.induct) (auto intro: all_space.intros simp: append_assoc)

lemma space_enc_length: "space_enc w \<Longrightarrow> length w \<in> {1, 2, 3}"
  by (induction w rule: space_enc.induct) auto

lemma space_enc_Nil [simp]: "\<not> space_enc []"
  by simp

lemma lead_space_enc: "lead_space s \<noteq> 0 \<Longrightarrow> space_enc (take (lead_space s) s)"
  by (auto simp: lead_space.simps split: if_splits)

lemma trail_space_enc: "trail_space r \<noteq> 0 \<Longrightarrow> space_enc (rev (take (trail_space r) r))"
  by (auto simp: trail_space.simps split: if_splits)

text \<open>What trimming removes is white space, and what it leaves has none at its ends.\<close>

lemma trim_left_decomp: "\<exists>p. s = p @ trim_left s \<and> all_space p"
proof (induction s rule: trim_left.induct)
  case (1 s)
  show ?case
  proof (cases "lead_space s = 0")
    case True
    then show ?thesis by (subst trim_left.simps) (simp add: all_space_Nil)
  next
    case False
    with "1.IH" obtain p where p: "drop (lead_space s) s = p @ trim_left (drop (lead_space s) s)"
      "all_space p" by blast
    have "all_space (take (lead_space s) s @ p)"
      using False p(2) by (intro all_space_step lead_space_enc)
    moreover have "trim_left s = trim_left (drop (lead_space s) s)"
      using False by (subst trim_left.simps) simp
    then have "s = (take (lead_space s) s @ p) @ trim_left s"
      using p(1) append_take_drop_id [of "lead_space s" s] by simp
    ultimately show ?thesis by blast
  qed
qed

lemma trim_right_rev_decomp: "\<exists>p. r = rev p @ trim_right_rev r \<and> all_space p"
proof (induction r rule: trim_right_rev.induct)
  case (1 r)
  show ?case
  proof (cases "trail_space r = 0")
    case True
    then show ?thesis by (subst trim_right_rev.simps) (auto intro: all_space_Nil)
  next
    case False
    with "1.IH" obtain p where
      p: "drop (trail_space r) r = rev p @ trim_right_rev (drop (trail_space r) r)"
      "all_space p" by blast
    have "all_space (rev (take (trail_space r) r) @ [])"
      using False by (intro all_space_step trail_space_enc all_space_Nil)
    then have "all_space (p @ rev (take (trail_space r) r))"
      using p(2) all_space_append by simp
    moreover have "trim_right_rev r = trim_right_rev (drop (trail_space r) r)"
      using False by (subst trim_right_rev.simps) simp
    then have "r = rev (p @ rev (take (trail_space r) r)) @ trim_right_rev r"
      using p(1) append_take_drop_id [of "trail_space r" r] by simp
    ultimately show ?thesis by blast
  qed
qed

lemma trim_right_decomp: "\<exists>q. s = trim_right s @ q \<and> all_space q"
  using trim_right_rev_decomp [of "rev s"]
  by (metis rev_append rev_rev_ident trim_right_def)

lemma trim_space_decomp: "\<exists>p q. s = p @ trim_space s @ q \<and> all_space p \<and> all_space q"
  unfolding trim_space_def by (metis trim_left_decomp trim_right_decomp)

lemma lead_space_trim_left [simp]: "lead_space (trim_left s) = 0"
proof (induction s rule: trim_left.induct)
  case (1 s)
  then show ?case by (cases "lead_space s = 0") (simp_all add: trim_left.simps [of s])
qed

lemma trail_space_trim_right_rev [simp]: "trail_space (trim_right_rev r) = 0"
proof (induction r rule: trim_right_rev.induct)
  case (1 r)
  then show ?case by (cases "trail_space r = 0") (simp_all add: trim_right_rev.simps [of r])
qed

lemma trail_space_trim_space: "trail_space (rev (trim_space s)) = 0"
  by (simp add: trim_space_def trim_right_def)

lemma lead_space_append_0: "lead_space (a @ b) = 0 \<Longrightarrow> lead_space a = 0"
proof (rule ccontr)
  assume h: "lead_space (a @ b) = 0" "lead_space a \<noteq> 0"
  have *: "\<not> space_enc (take n (a @ b))" if "n \<in> {1, 2, 3}" for n
    using h(1) that by (auto simp: lead_space.simps split: if_splits)
  obtain n where n: "n \<in> {1, 2, 3}" "space_enc (take n a)"
    using h(2) by (auto simp: lead_space.simps split: if_splits)
  let ?m = "length (take n a)"
  have "?m \<in> {1, 2, 3}" using space_enc_length [OF n(2)] .
  moreover have "take ?m (a @ b) = take n a" by (simp add: min_def)
  ultimately show False using * n(2) by metis
qed

lemma lead_space_trim_space: "lead_space (trim_space s) = 0"
proof -
  obtain q where "trim_left s = trim_right (trim_left s) @ q"
    using trim_right_decomp by blast
  then show ?thesis unfolding trim_space_def
    by (metis lead_space_append_0 lead_space_trim_left)
qed

lemma trim_left_id: "lead_space s = 0 \<Longrightarrow> trim_left s = s"
  by (simp add: trim_left.simps)

lemma trim_right_id: "trail_space (rev s) = 0 \<Longrightarrow> trim_right s = s"
  by (simp add: trim_right_def trim_right_rev.simps)

lemma trim_space_id: "lead_space s = 0 \<Longrightarrow> trail_space (rev s) = 0 \<Longrightarrow> trim_space s = s"
  by (simp add: trim_space_def trim_left_id trim_right_id)

lemma trim_space_idem [simp]: "trim_space (trim_space s) = trim_space s"
  by (rule trim_space_id [OF lead_space_trim_space trail_space_trim_space])

lemma trim_space_Nil [simp]: "trim_space [] = []"
  by (rule trim_space_id) simp_all

text \<open>A string of graphic ASCII characters is not touched.\<close>

definition graphic :: "char \<Rightarrow> bool" where
  "graphic c \<longleftrightarrow> (let n = of_char c :: nat in 33 \<le> n \<and> n \<le> 126)"

lemma space_enc_hd_last:
  assumes "space_enc w"
  shows "\<not> graphic (hd w) \<and> \<not> graphic (last w)"
  using assms by (induction w rule: space_enc.induct) (auto simp: graphic_def ascii_space_def)

lemma lead_space_graphic: "graphic c \<Longrightarrow> lead_space (c # s) = 0"
  using lead_space_enc [of "c # s"] space_enc_hd_last [of "take (lead_space (c # s)) (c # s)"]
  by (metis hd_take hd_append list.sel(1) neq0_conv)

lemma trail_space_graphic: "graphic c \<Longrightarrow> trail_space (c # r) = 0"
proof (rule ccontr)
  assume "graphic c" and nz: "trail_space (c # r) \<noteq> 0"
  then have "space_enc (rev (take (trail_space (c # r)) (c # r)))" by (simp add: trail_space_enc)
  moreover have "last (rev (take (trail_space (c # r)) (c # r))) = c"
    using nz by (simp add: last_rev hd_take)
  ultimately show False using \<open>graphic c\<close> space_enc_hd_last by metis
qed

lemma trim_space_graphic:
  assumes "s = [] \<or> graphic (hd s) \<and> graphic (last s)"
  shows "trim_space s = s"
proof (cases s)
  case Nil
  then show ?thesis by simp
next
  case (Cons c r)
  have "lead_space s = 0" using assms Cons by (simp add: lead_space_graphic)
  moreover have "rev s = last s # tl (rev s)" using Cons
    by (metis hd_Cons_tl hd_rev list.distinct(1) rev_is_Nil_conv)
  then have "trail_space (rev s) = 0" using assms Cons
    by (metis list.distinct(1) trail_space_graphic)
  ultimately show ?thesis by (rule trim_space_id)
qed

text \<open>White space around a string that neither starts nor ends with any is all removed.\<close>

lemma lead_space_enc_append:
  assumes "space_enc w" shows "lead_space (w @ s) = length w"
proof -
  consider a where "w = [a]" | a b where "w = [a, b]" | a b c where "w = [a, b, c]"
    using space_enc_length [OF assms] by (auto simp: length_Suc_conv numeral_eq_Suc)
  then show ?thesis
    using assms by cases (auto simp: lead_space.simps ascii_space_def numeral_eq_Suc)
qed

lemma trail_space_enc_append:
  assumes "space_enc w" shows "trail_space (rev w @ s) = length w"
proof -
  consider a where "w = [a]" | a b where "w = [a, b]" | a b c where "w = [a, b, c]"
    using space_enc_length [OF assms] by (auto simp: length_Suc_conv numeral_eq_Suc)
  then show ?thesis
    using assms by cases (auto simp: trail_space.simps ascii_space_def numeral_eq_Suc)
qed

lemma trim_left_space: "all_space p \<Longrightarrow> trim_left (p @ s) = trim_left s"
proof (induction rule: all_space.induct)
  case (all_space_step w p)
  then show ?case using space_enc_length [of w]
    by (subst trim_left.simps) (auto simp: lead_space_enc_append)
qed simp

lemma trim_right_snoc_enc:
  assumes "space_enc w" shows "trim_right (s @ w) = trim_right s"
  unfolding trim_right_def using assms space_enc_length [OF assms]
  by (subst trim_right_rev.simps) (auto simp: trail_space_enc_append)

lemma trim_right_space: "all_space q \<Longrightarrow> trim_right (s @ q) = trim_right s"
proof (induction arbitrary: s rule: all_space.induct)
  case (all_space_step w q)
  then show ?case by (metis append_assoc trim_right_snoc_enc)
qed simp

lemma trim_space_surround:
  assumes "all_space p" and "all_space q" and "s \<noteq> []" and "graphic (hd s)" and "graphic (last s)"
  shows "trim_space (p @ s @ q) = s"
proof -
  have "lead_space (s @ q) = 0" using assms(3,4) by (cases s) (simp_all add: lead_space_graphic)
  then have "trim_left (p @ s @ q) = s @ q" using assms(1)
    by (simp add: trim_left_space trim_left_id)
  moreover have "trim_right s = s" using assms(3-5)
    by (metis trim_space_graphic trim_space_def lead_space_graphic list.exhaust_sel trim_left_id)
  ultimately show ?thesis using assms(2) by (simp add: trim_space_def trim_right_space)
qed

subsection \<open>Prefixes, suffixes, the last occurrence of a byte\<close>

definition has_prefix :: "bytes \<Rightarrow> bytes \<Rightarrow> bool" where
  "has_prefix s p \<longleftrightarrow> take (length p) s = p"

definition trim_prefix :: "bytes \<Rightarrow> bytes \<Rightarrow> bytes" where
  "trim_prefix s p = (if has_prefix s p then drop (length p) s else s)"

definition has_suffix :: "bytes \<Rightarrow> bytes \<Rightarrow> bool" where
  "has_suffix s p \<longleftrightarrow> length p \<le> length s \<and> drop (length s - length p) s = p"

text \<open>\<open>strings.LastIndex\<close> of a one byte string: an index, or -1.\<close>

fun last_index_from :: "char \<Rightarrow> int \<Rightarrow> int \<Rightarrow> bytes \<Rightarrow> int" where
  "last_index_from c found i [] = found"
| "last_index_from c found i (x # xs) =
     last_index_from c (if x = c then i else found) (i + 1) xs"

definition last_index :: "bytes \<Rightarrow> char \<Rightarrow> int" where
  "last_index s c = last_index_from c (-1) 0 s"

lemma has_prefix_append [simp]: "has_prefix (p @ s) p"
  by (simp add: has_prefix_def)

lemma trim_prefix_append [simp]: "trim_prefix (p @ s) p = s"
  by (simp add: trim_prefix_def)

lemma has_prefix_iff: "has_prefix s p \<longleftrightarrow> (\<exists>r. s = p @ r)"
  unfolding has_prefix_def by (metis append_eq_conv_conj append_take_drop_id)

lemma has_prefix_trim: "has_prefix s p \<Longrightarrow> s = p @ trim_prefix s p"
  by (auto simp: has_prefix_iff)

lemma has_suffix_iff: "has_suffix s p \<longleftrightarrow> (\<exists>r. s = r @ p)"
proof
  assume "has_suffix s p"
  then have "s = take (length s - length p) s @ p"
    unfolding has_suffix_def by (metis append_take_drop_id)
  then show "\<exists>r. s = r @ p" ..
qed (auto simp: has_suffix_def)

lemma last_index_from_none: "c \<notin> set s \<Longrightarrow> last_index_from c found i s = found"
  by (induction s arbitrary: found i) auto

lemma last_index_from_append:
  "last_index_from c found i (a @ b) =
     last_index_from c (last_index_from c found i a) (i + int (length a)) b"
  by (induction a arbitrary: found i) (auto simp: algebra_simps)

lemma last_index_none: "c \<notin> set s \<Longrightarrow> last_index s c = -1"
  by (simp add: last_index_def last_index_from_none)

lemma last_index_last: "c \<notin> set b \<Longrightarrow> last_index (a @ c # b) c = int (length a)"
  by (simp add: last_index_def last_index_from_append last_index_from_none)

lemma last_index_cases:
  "last_index s c = -1 \<and> c \<notin> set s \<or>
   (\<exists>a b. s = a @ c # b \<and> c \<notin> set b \<and> last_index s c = int (length a))"
  by (metis last_index_last last_index_none split_list_last)

subsection \<open>Splitting on one byte\<close>

fun split_on :: "char \<Rightarrow> bytes \<Rightarrow> bytes list" where
  "split_on c [] = [[]]"
| "split_on c (x # xs) =
     (if x = c then [] # split_on c xs
      else (case split_on c xs of [] \<Rightarrow> [[x]] | p # ps \<Rightarrow> (x # p) # ps))"

fun join_with :: "char \<Rightarrow> bytes list \<Rightarrow> bytes" where
  "join_with c [] = []"
| "join_with c [p] = p"
| "join_with c (p # ps) = p @ c # join_with c ps"

lemma split_on_nonempty [simp]: "split_on c s \<noteq> []"
  by (cases s) (auto split: list.splits)

lemma join_with_Cons_char: "join_with c ((x # p) # ps) = x # join_with c (p # ps)"
  by (cases ps) simp_all

lemma join_split: "join_with c (split_on c s) = s"
proof (induction s)
  case (Cons x s)
  then show ?case by (cases "split_on c s"; cases "tl (split_on c s)") (auto simp: join_with_Cons_char)
qed simp

lemma split_on_none: "c \<notin> set s \<Longrightarrow> split_on c s = [s]"
  by (induction s) auto

lemma split_on_append: "c \<notin> set p \<Longrightarrow> split_on c (p @ c # s) = p # split_on c s"
  by (induction p) auto

lemma split_join:
  "ps \<noteq> [] \<Longrightarrow> (\<And>p. p \<in> set ps \<Longrightarrow> c \<notin> set p) \<Longrightarrow> split_on c (join_with c ps) = ps"
  by (induction ps rule: join_with.induct) (auto simp: split_on_none split_on_append)

lemma split_on_set: "p \<in> set (split_on c s) \<Longrightarrow> c \<notin> set p"
  by (induction s arbitrary: p) (auto split: list.splits if_splits)

subsection \<open>Case\<close>

text \<open>
  \<open>strings.EqualFold\<close> against an ASCII text without the letters k and s: no other letter
  has a case variant outside ASCII, so folding ASCII case alone is exact there.
\<close>

definition ascii_lower :: "char \<Rightarrow> char" where
  "ascii_lower c =
     (let n = of_char c :: nat in if 65 \<le> n \<and> n \<le> 90 then char_of (n + 32) else c)"

definition equal_fold :: "bytes \<Rightarrow> bytes \<Rightarrow> bool" where
  "equal_fold s t \<longleftrightarrow> map ascii_lower s = map ascii_lower t"

text \<open>
  \<open>strings.ToLower\<close>, exact where the result is compared with an ASCII text: besides the
  ASCII letters, U+0130 (a dotted capital I) and U+212A (the Kelvin sign) are the only
  runes whose lower case is an ASCII letter.
\<close>

fun to_lower :: "bytes \<Rightarrow> bytes" where
  "to_lower (a # b # c # s) =
     (if a = CHR 0xE2 \<and> b = CHR 0x84 \<and> c = CHR 0xAA then CHR ''k'' # to_lower s
      else if a = CHR 0xC4 \<and> b = CHR 0xB0 then CHR ''i'' # to_lower (c # s)
      else ascii_lower a # to_lower (b # c # s))"
| "to_lower [a, b] =
     (if a = CHR 0xC4 \<and> b = CHR 0xB0 then [CHR ''i''] else [ascii_lower a, ascii_lower b])"
| "to_lower [a] = [ascii_lower a]"
| "to_lower [] = []"

lemma to_lower_examples:
  "to_lower ''Warning'' = ''warning''" "equal_fold ''N/A'' ''n/a''" "\<not> equal_fold ''na'' ''n/a''"
  by code_simp+

lemma trim_space_examples:
  "trim_space '' a b  '' = ''a b''"
  "trim_space [CHR 0xC2, CHR 0xA0, CHR ''x'', CHR 0xE3, CHR 0x80, CHR 0x80] = ''x''"
  by code_simp+

end
