(* ===== verification/Go_Utf8.thy ===== *)
theory Go_Utf8
  imports Go_Strings
begin

text \<open>
  UTF-8 as Go's \<open>unicode/utf8\<close> reads and writes it: the width of the rune at the start of
  a string, \<open>ValidString\<close>, the encoding of a code point, and the replacement of invalid
  bytes by U+FFFD that decoding JSON strings performs. The last section shows that
  trimming white space keeps a string valid.
\<close>

subsection \<open>One rune\<close>

definition byte_in :: "nat \<Rightarrow> nat \<Rightarrow> char \<Rightarrow> bool" where
  "byte_in lo hi c \<longleftrightarrow> (let n = of_char c :: nat in lo \<le> n \<and> n \<le> hi)"

definition cont_byte :: "char \<Rightarrow> bool" where
  "cont_byte c \<longleftrightarrow> byte_in 0x80 0xBF c"

text \<open>The bytes a well-formed second byte may have after a given first byte.\<close>

definition second_ok :: "char \<Rightarrow> char \<Rightarrow> bool" where
  "second_ok a b =
     (let n = of_char a :: nat in
      byte_in (if n = 0xE0 then 0xA0 else if n = 0xF0 then 0x90 else 0x80)
              (if n = 0xED then 0x9F else if n = 0xF4 then 0x8F else 0xBF) b)"

text \<open>
  The width of the rune a string starts with, 0 where it starts with none: \<open>DecodeRune\<close>
  returns U+FFFD with width 1 in that case.
\<close>

fun rune_width :: "bytes \<Rightarrow> nat" where
  "rune_width [] = 0"
| "rune_width (a # s) =
     (if byte_in 0 0x7F a then 1
      else if byte_in 0xC2 0xDF a then
        (case s of b # _ \<Rightarrow> if second_ok a b then 2 else 0 | _ \<Rightarrow> 0)
      else if byte_in 0xE0 0xEF a then
        (case s of b # c # _ \<Rightarrow> if second_ok a b \<and> cont_byte c then 3 else 0 | _ \<Rightarrow> 0)
      else if byte_in 0xF0 0xF4 a then
        (case s of b # c # d # _ \<Rightarrow>
            if second_ok a b \<and> cont_byte c \<and> cont_byte d then 4 else 0 | _ \<Rightarrow> 0)
      else 0)"

declare rune_width.simps(2) [simp del]

definition is_rune :: "bytes \<Rightarrow> bool" where
  "is_rune w \<longleftrightarrow> w \<noteq> [] \<and> rune_width w = length w"

lemma rune_width_le: "rune_width s \<le> length s"
  by (cases s) (auto simp: rune_width.simps split: list.splits)

lemma rune_width_append: "rune_width s \<noteq> 0 \<Longrightarrow> rune_width (s @ t) = rune_width s"
  by (cases s) (auto simp: rune_width.simps split: list.splits if_splits)

lemma rune_width_take: "rune_width s \<noteq> 0 \<Longrightarrow> rune_width (take (rune_width s) s) = rune_width s"
  by (cases s) (auto simp: rune_width.simps split: list.splits if_splits)

lemma is_rune_take: "rune_width s \<noteq> 0 \<Longrightarrow> is_rune (take (rune_width s) s)"
  using rune_width_le [of s] by (auto simp: is_rune_def rune_width_take)

lemma is_rune_append: "is_rune w \<Longrightarrow> rune_width (w @ s) = length w"
  by (metis is_rune_def length_0_conv rune_width_append)

lemma second_ok_cont: "second_ok a b \<Longrightarrow> cont_byte b"
  by (auto simp: second_ok_def cont_byte_def byte_in_def Let_def split: if_splits)

lemma rune_cont_bytes:
  "i < rune_width s \<Longrightarrow> 0 < i \<Longrightarrow> cont_byte (s ! i)"
proof (cases s)
  case (Cons a r)
  assume i: "i < rune_width s" "0 < i"
  then have "i \<in> {1, 2, 3}"
    using Cons by (auto simp: rune_width.simps split: list.splits if_splits)
  with i Cons show ?thesis
    by (auto simp: rune_width.simps dest: second_ok_cont split: list.splits if_splits)
qed simp

lemma rune_first_not_cont: "rune_width (a # s) \<noteq> 0 \<Longrightarrow> \<not> cont_byte a"
  by (auto simp: rune_width.simps cont_byte_def byte_in_def Let_def split: if_splits)

lemma ascii_rune: "byte_in 0 0x7F a \<Longrightarrow> is_rune [a]"
  by (simp add: is_rune_def rune_width.simps)

subsection \<open>Valid strings\<close>

function valid_utf8 :: "bytes \<Rightarrow> bool" where
  "valid_utf8 s =
     (if s = [] then True
      else if rune_width s = 0 then False else valid_utf8 (drop (rune_width s) s))"
  by pat_completeness auto
termination
  by (relation "measure length") (auto simp: neq_Nil_conv)

declare valid_utf8.simps [simp del]

lemma valid_utf8_Nil [simp]: "valid_utf8 []"
  by (simp add: valid_utf8.simps)

lemma valid_utf8_rune: "is_rune w \<Longrightarrow> valid_utf8 (w @ s) \<longleftrightarrow> valid_utf8 s"
  using is_rune_append [of w s] by (subst valid_utf8.simps) (auto simp: is_rune_def)

lemma valid_utf8_single: "is_rune w \<Longrightarrow> valid_utf8 w"
  using valid_utf8_rune [of w "[]"] by simp

lemma valid_utf8_ascii: "byte_in 0 0x7F a \<Longrightarrow> valid_utf8 (a # s) \<longleftrightarrow> valid_utf8 s"
  using valid_utf8_rune [OF ascii_rune, of a s] by simp

lemma valid_utf8_induct [consumes 1, case_names Nil rune]:
  assumes "valid_utf8 s" and "P []"
    and "\<And>w s. is_rune w \<Longrightarrow> valid_utf8 s \<Longrightarrow> P s \<Longrightarrow> P (w @ s)"
  shows "P s"
  using assms(1)
proof (induction s rule: valid_utf8.induct)
  case (1 s)
  show ?case
  proof (cases "s = []")
    case False
    with "1.prems" have nz: "rune_width s \<noteq> 0" and v: "valid_utf8 (drop (rune_width s) s)"
      by (simp_all add: valid_utf8.simps [of s] split: if_splits)
    have "P (take (rune_width s) s @ drop (rune_width s) s)"
      using False nz v by (intro assms(3) is_rune_take "1.IH") simp_all
    then show ?thesis by simp
  qed (simp add: assms(2))
qed

lemma valid_utf8_append: "valid_utf8 a \<Longrightarrow> valid_utf8 b \<Longrightarrow> valid_utf8 (a @ b)"
  by (induction a rule: valid_utf8_induct) (simp_all add: valid_utf8_rune)

lemma valid_utf8_drop_prefix: "valid_utf8 p \<Longrightarrow> valid_utf8 (p @ s) \<Longrightarrow> valid_utf8 s"
  by (induction p rule: valid_utf8_induct) (simp_all add: valid_utf8_rune)

lemma valid_utf8_first: "valid_utf8 (a # s) \<Longrightarrow> \<not> cont_byte a"
  by (rule rune_first_not_cont [of a s]) (simp add: valid_utf8.simps [of "a # s"] split: if_splits)

text \<open>Cutting a valid string before a byte that starts a rune leaves a valid string.\<close>

lemma valid_utf8_take_prefix:
  assumes "valid_utf8 (s @ q)" and "q \<noteq> [] \<Longrightarrow> \<not> cont_byte (hd q)"
  shows "valid_utf8 s"
  using assms(1)
proof (induction s rule: valid_utf8.induct)
  case (1 s)
  show ?case
  proof (cases "s = []")
    case False
    let ?w = "rune_width (s @ q)"
    from False "1.prems" have w: "?w \<noteq> 0" and v: "valid_utf8 (drop ?w (s @ q))"
      by (simp_all add: valid_utf8.simps [of "s @ q"] split: if_splits)
    have le: "?w \<le> length s"
    proof (rule ccontr)
      assume "\<not> ?w \<le> length s"
      then have "length s < ?w" by simp
      then have "cont_byte ((s @ q) ! length s)" using False by (intro rune_cont_bytes) auto
      moreover have "q \<noteq> []" using \<open>length s < ?w\<close> rune_width_le [of "s @ q"] by auto
      ultimately show False using assms(2) by (simp add: hd_conv_nth nth_append)
    qed
    have "rune_width (take ?w (s @ q)) = ?w" by (rule rune_width_take [OF w])
    then have "rune_width s = ?w"
      using le w rune_width_append [of "take ?w s" "drop ?w s"] by simp
    with False w v le "1.IH" show ?thesis by (simp add: valid_utf8.simps [of s])
  qed simp
qed

subsection \<open>Encoding a code point\<close>

text \<open>\<open>utf8.AppendRune\<close>: surrogates and values past U+10FFFF become U+FFFD.\<close>

definition replacement :: bytes where
  "replacement = [CHR 0xEF, CHR 0xBF, CHR 0xBD]"

definition encode_rune :: "nat \<Rightarrow> bytes" where
  "encode_rune r =
     (if r < 0x80 then [char_of r]
      else if r < 0x800 then [char_of (0xC0 + r div 64), char_of (0x80 + r mod 64)]
      else if 0xD800 \<le> r \<and> r \<le> 0xDFFF \<or> 0x10FFFF < r then replacement
      else if r < 0x10000 then
        [char_of (0xE0 + r div 4096), char_of (0x80 + r div 64 mod 64), char_of (0x80 + r mod 64)]
      else [char_of (0xF0 + r div 262144), char_of (0x80 + r div 4096 mod 64),
            char_of (0x80 + r div 64 mod 64), char_of (0x80 + r mod 64)])"

lemma byte_in_char_of: "n < 256 \<Longrightarrow> byte_in lo hi (char_of n) \<longleftrightarrow> lo \<le> n \<and> n \<le> hi"
  by (simp add: byte_in_def Let_def)

lemma is_rune_replacement: "is_rune replacement"
  by (simp add: is_rune_def replacement_def rune_width.simps second_ok_def cont_byte_def byte_in_def)

lemma split_two_digits: "r = b * c * (r div (b * c)) + b * (r div b mod c) + r mod b" for r b c :: nat
  by (metis add.assoc mod_mult2_eq mult_div_mod_eq)

lemma is_rune_encode: "is_rune (encode_rune r)"
proof -
  consider "r < 0x80" | "0x80 \<le> r" "r < 0x800"
    | "0x800 \<le> r" "0xD800 \<le> r \<and> r \<le> 0xDFFF \<or> 0x10FFFF < r"
    | "0x800 \<le> r" "r < 0x10000" "\<not> (0xD800 \<le> r \<and> r \<le> 0xDFFF)"
    | "0x10000 \<le> r" "r \<le> 0x10FFFF"
    by linarith
  then show ?thesis
  proof cases
    case 1
    then show ?thesis by (simp add: encode_rune_def ascii_rune byte_in_char_of)
  next
    case 2
    then have "2 \<le> r div 64" "r div 64 < 32" by (simp_all add: div_less_iff_less_mult)
    then show ?thesis using 2
      by (simp add: encode_rune_def is_rune_def rune_width.simps byte_in_char_of second_ok_def cont_byte_def)
  next
    case 3
    then show ?thesis using is_rune_replacement by (auto simp: encode_rune_def)
  next
    case 4
    then have d: "r div 4096 < 16" by simp
    have e: "r = 4096 * (r div 4096) + 64 * (r div 64 mod 64) + r mod 64"
      by (rule split_two_digits [of r 64 64, simplified])
    have "r div 64 mod 64 \<ge> 32" if "r div 4096 = 0" using 4 that e mod_less_divisor [of 64 r] by linarith
    moreover have "r div 64 mod 64 < 32" if "r div 4096 = 13" using 4 that e by linarith
    ultimately show ?thesis using 4 d
      by (auto simp: encode_rune_def is_rune_def rune_width.simps byte_in_char_of second_ok_def cont_byte_def)
  next
    case 5
    then have d: "r div 262144 \<le> 4" by simp
    have e: "r = 262144 * (r div 262144) + 4096 * (r div 4096 mod 64) + r mod 4096"
      by (rule split_two_digits [of r 4096 64, simplified])
    have "r div 4096 mod 64 \<ge> 16" if "r div 262144 = 0" using 5 that e mod_less_divisor [of 4096 r] by linarith
    moreover have "r div 4096 mod 64 < 16" if "r div 262144 = 4" using 5 that e by linarith
    ultimately show ?thesis using 5 d
      by (auto simp: encode_rune_def is_rune_def rune_width.simps byte_in_char_of second_ok_def cont_byte_def)
  qed
qed

subsection \<open>Replacing invalid bytes\<close>

function sanitize :: "bytes \<Rightarrow> bytes" where
  "sanitize s =
     (if s = [] then []
      else if rune_width s = 0 then replacement @ sanitize (tl s)
      else take (rune_width s) s @ sanitize (drop (rune_width s) s))"
  by pat_completeness auto
termination
  by (relation "measure length") (auto simp: neq_Nil_conv)

declare sanitize.simps [simp del]

lemma sanitize_Nil [simp]: "sanitize [] = []"
  by (simp add: sanitize.simps)

lemma valid_sanitize: "valid_utf8 (sanitize s)"
proof (induction s rule: sanitize.induct)
  case (1 s)
  then show ?case
    by (cases "s = []"; cases "rune_width s = 0")
      (simp_all add: sanitize.simps [of s] valid_utf8_rune is_rune_replacement is_rune_take)
qed

lemma sanitize_valid: "valid_utf8 s \<Longrightarrow> sanitize s = s"
proof (induction s rule: sanitize.induct)
  case (1 s)
  then show ?case
    by (cases "s = []") (simp_all add: sanitize.simps [of s] valid_utf8.simps [of s] split: if_splits)
qed

subsection \<open>Trimming keeps a string valid\<close>

lemma space_enc_rune: "space_enc w \<Longrightarrow> is_rune w"
  by (induction w rule: space_enc.induct)
    (auto simp: is_rune_def ascii_space_def rune_width.simps byte_in_def second_ok_def cont_byte_def)

lemma all_space_valid: "all_space p \<Longrightarrow> valid_utf8 p"
  by (induction rule: all_space.induct) (simp_all add: space_enc_rune valid_utf8_rune)

lemma valid_trim_space: "valid_utf8 s \<Longrightarrow> valid_utf8 (trim_space s)"
proof -
  assume v: "valid_utf8 s"
  obtain p q where s: "s = p @ trim_space s @ q" and pq: "all_space p" "all_space q"
    using trim_space_decomp by blast
  have "valid_utf8 (trim_space s @ q)"
    using v s pq(1) all_space_valid valid_utf8_drop_prefix by metis
  moreover have "q \<noteq> [] \<Longrightarrow> \<not> cont_byte (hd q)"
    using all_space_valid [OF pq(2)] valid_utf8_first by (cases q) auto
  ultimately show ?thesis by (rule valid_utf8_take_prefix)
qed

end
