(* ===== verification/Go_Float64.thy ===== *)
theory Go_Float64
  imports Prelude Complex_Main
begin

text \<open>
  Go's \<open>float64\<close>, an IEEE 754 double: NaN, the two infinities, and the finite numbers
  \<open>(-1)^s * m * 2^e\<close> with \<open>m < 2^53\<close>, in the form in which the significand is normalised
  unless the exponent is the least one. Every operation is the exact rational result
  rounded once, to nearest with ties to even. The lemmas say that rounding gives a nearest
  representable number, is exact on representable ones, and when it stays finite.
\<close>

datatype float64 = FNaN | FInf bool | FFin bool nat int

fun f_wf :: "float64 \<Rightarrow> bool" where
  "f_wf (FFin s m e) \<longleftrightarrow> m < 2 ^ 53 \<and> -1074 \<le> e \<and> e \<le> 971 \<and> (2 ^ 52 \<le> m \<or> e = -1074)"
| "f_wf _ \<longleftrightarrow> True"

text \<open>\<open>math.IsNaN\<close> and \<open>math.IsInf(f, 0)\<close>.\<close>

definition is_nan :: "float64 \<Rightarrow> bool" where
  "is_nan x \<longleftrightarrow> x = FNaN"

definition is_inf :: "float64 \<Rightarrow> bool" where
  "is_inf x \<longleftrightarrow> (case x of FInf _ \<Rightarrow> True | _ \<Rightarrow> False)"

definition f_finite :: "float64 \<Rightarrow> bool" where
  "f_finite x \<longleftrightarrow> (case x of FFin _ _ _ \<Rightarrow> True | _ \<Rightarrow> False)"

fun f_real :: "float64 \<Rightarrow> real" where
  "f_real (FFin s m e) = (if s then -1 else 1) * (real m * 2 powi e)"
| "f_real _ = 0"

lemma f_finite_iff: "f_finite x \<longleftrightarrow> \<not> is_inf x \<and> \<not> is_nan x"
  by (cases x) (simp_all add: f_finite_def is_inf_def is_nan_def)

lemma f_finite_FFin [simp]: "f_finite (FFin s m e)"
  by (simp add: f_finite_def)

subsection \<open>Rounding a ratio\<close>

text \<open>The number of binary digits.\<close>

fun bits :: "nat \<Rightarrow> nat" where
  "bits n = (if n = 0 then 0 else Suc (bits (n div 2)))"

declare bits.simps [simp del]

lemma bits_bounds: "0 < n \<Longrightarrow> 2 ^ (bits n - 1) \<le> n \<and> n < 2 ^ bits n \<and> 0 < bits n"
proof (induction n rule: bits.induct)
  case (1 n)
  show ?case
  proof (cases "n div 2 = 0")
    case True
    with "1.prems" have "n = 1" by arith
    then show ?thesis by (simp add: bits.simps)
  next
    case False
    with 1 have "2 ^ (bits (n div 2) - 1) \<le> n div 2 \<and> n div 2 < 2 ^ bits (n div 2) \<and> 0 < bits (n div 2)"
      by simp
    then have "2 * 2 ^ (bits (n div 2) - 1) \<le> n" "n < 2 * 2 ^ bits (n div 2)" "0 < bits (n div 2)"
      by linarith+
    then show ?thesis using "1.prems"
      by (subst (1 2 3) bits.simps) (auto simp: power_eq_if [of 2 "bits (n div 2)"] split: if_splits)
  qed
qed

definition half_even :: "nat \<Rightarrow> nat \<Rightarrow> nat" where
  "half_even a b =
     (let q = a div b; r = a mod b in if 2 * r < b \<or> 2 * r = b \<and> even q then q else q + 1)"

text \<open>The ratio \<open>n / d\<close> in units of \<open>2 ^ e\<close>, as a numerator and a denominator.\<close>

definition up :: "nat \<Rightarrow> int \<Rightarrow> nat" where
  "up n e = n * 2 ^ nat (- e)"

definition down :: "nat \<Rightarrow> int \<Rightarrow> nat" where
  "down d e = d * 2 ^ nat e"

text \<open>The exponent at which \<open>n / d\<close> has 53 binary digits, or the least exponent.\<close>

definition exp_for :: "nat \<Rightarrow> nat \<Rightarrow> int" where
  "exp_for n d =
     (let e = int (bits n) - int (bits d) - 53
      in max (-1074) (if down d (e + 53) \<le> up n (e + 53) then e + 1 else e))"

definition f_pack :: "bool \<Rightarrow> nat \<Rightarrow> int \<Rightarrow> float64" where
  "f_pack s m e =
     (if m = 2 ^ 53 then (if e < 971 then FFin s (2 ^ 52) (e + 1) else FInf s)
      else if e \<le> 971 then FFin s m e else FInf s)"

definition f_of_ratio :: "bool \<Rightarrow> nat \<Rightarrow> nat \<Rightarrow> float64" where
  "f_of_ratio s n d =
     (if n = 0 then FFin s 0 (-1074)
      else (let e = exp_for n d in f_pack s (half_even (up n e) (down d e)) e))"

lemma half_even_error:
  assumes "0 < b" shows "\<bar>real (half_even a b) - real a / real b\<bar> \<le> 1 / 2"
proof -
  let ?q = "a div b" and ?r = "a mod b"
  have "real a = real ?q * real b + real ?r"
    by (metis div_mult_mod_eq of_nat_add of_nat_mult)
  then have x: "real a / real b = real ?q + real ?r / real b"
    using assms by (simp add: field_simps)
  have "?r < b" using assms by simp
  then have r: "0 \<le> real ?r / real b" "real ?r / real b < 1" by (simp_all add: assms)
  show ?thesis
  proof (cases "2 * ?r < b \<or> 2 * ?r = b \<and> even ?q")
    case True
    then have "2 * ?r \<le> b" by auto
    then have "real ?r / real b \<le> 1 / 2" using assms by (simp add: field_simps)
    with True x r show ?thesis by (simp add: half_even_def)
  next
    case False
    then have "b \<le> 2 * ?r" by auto
    then have "1 / 2 \<le> real ?r / real b" using assms by (simp add: field_simps)
    with False x r show ?thesis by (auto simp: half_even_def Let_def)
  qed
qed

lemma half_even_exact: "0 < b \<Longrightarrow> half_even (m * b) b = m"
  by (simp add: half_even_def)

text \<open>A rounded number of units is no farther from the ratio than any other number of units.\<close>

lemma half_even_nearest:
  assumes "0 < b" shows "\<bar>real (half_even a b) - real a / real b\<bar> \<le> \<bar>of_int k - real a / real b\<bar>"
proof (cases "k = int (half_even a b)")
  case False
  then have "1 \<le> \<bar>of_int k - real (half_even a b)\<bar>"
    by (smt (verit) of_int_1 of_int_diff of_int_le_iff of_int_of_nat_eq)
  then show ?thesis using half_even_error [OF assms, of a] by linarith
qed simp

lemma up_down_ratio:
  assumes "0 < d" shows "real (up n e) / real (down d e) = real n / real d * 2 powi (- e)"
proof (cases "0 \<le> e")
  case True
  then have "(2::real) powi e = 2 ^ nat e" by (metis power_int_def)
  with True show ?thesis by (simp add: up_def down_def power_int_minus field_simps)
next
  case False
  then have "(2::real) powi (- e) = 2 ^ nat (- e)" by (metis power_int_def linear neg_0_le_iff_le)
  with False show ?thesis by (simp add: up_def down_def)
qed

lemma down_pos: "0 < d \<Longrightarrow> 0 < down d e"
  by (simp add: down_def)

lemma down_le_up_iff:
  assumes "0 < d" shows "down d e \<le> up n e \<longleftrightarrow> 2 powi e \<le> real n / real d"
proof -
  have "down d e \<le> up n e \<longleftrightarrow> 1 \<le> real (up n e) / real (down d e)"
    using down_pos [OF assms] by (simp add: field_simps)
  also have "\<dots> \<longleftrightarrow> 2 powi e \<le> real n / real d"
    unfolding up_down_ratio [OF assms] using assms by (simp add: power_int_minus field_simps)
  finally show ?thesis .
qed

lemma bits_real:
  assumes "0 < n" shows "2 powi (int (bits n) - 1) \<le> real n \<and> real n < 2 powi int (bits n)"
proof -
  note b = bits_bounds [OF assms]
  then have "int (bits n) - 1 = int (bits n - 1)" by linarith
  then have "(2::real) powi (int (bits n) - 1) = 2 ^ (bits n - 1)" by (metis power_int_of_nat)
  moreover have "real (2 ^ (bits n - 1)) \<le> real n" "real n < real (2 ^ bits n)"
    using b by (simp_all only: of_nat_le_iff of_nat_less_iff)
  ultimately show ?thesis by simp
qed

text \<open>At the chosen exponent the ratio has at most 53 digits, and 53 unless it is subnormal.\<close>

lemma exp_for_bounds:
  assumes "0 < n" and "0 < d"
  shows "-1074 \<le> exp_for n d"
    and "real n / real d < 2 powi (exp_for n d + 53)"
    and "exp_for n d = -1074 \<or> 2 powi (exp_for n d + 52) \<le> real n / real d"
proof -
  let ?x = "real n / real d" and ?e = "int (bits n) - int (bits d) - 53"
  show "-1074 \<le> exp_for n d" by (simp add: exp_for_def Let_def)
  have x1: "?x < 2 powi (?e + 54)"
  proof -
    have "?x < 2 powi int (bits n) / 2 powi (int (bits d) - 1)"
      using bits_real [OF assms(1)] bits_real [OF assms(2)] assms
      by (intro frac_less) auto
    also have "\<dots> = 2 powi (?e + 54)"
      by (subst power_int_diff [symmetric]) (simp_all add: algebra_simps)
    finally show ?thesis .
  qed
  have x2: "2 powi (?e + 52) \<le> ?x"
  proof -
    have "2 powi (?e + 52) = 2 powi (int (bits n) - 1) / (2::real) powi int (bits d)"
      by (subst power_int_diff [symmetric]) (simp_all add: algebra_simps)
    also have "\<dots> \<le> ?x"
      using bits_real [OF assms(1)] bits_real [OF assms(2)] assms by (intro frac_le) auto
    finally show ?thesis .
  qed
  define f where "f = (if 2 powi (?e + 53) \<le> ?x then ?e + 1 else ?e)"
  have f: "?x < 2 powi (f + 53)" "2 powi (f + 52) \<le> ?x"
    using x1 x2 by (auto simp: f_def algebra_simps)
  have e: "exp_for n d = max (-1074) f"
    by (simp only: exp_for_def Let_def f_def down_le_up_iff [OF assms(2)])
  have "(2::real) powi (f + 53) \<le> 2 powi (exp_for n d + 53)"
    unfolding e by (intro power_int_increasing) auto
  with f(1) show "?x < 2 powi (exp_for n d + 53)" by linarith
  show "exp_for n d = -1074 \<or> 2 powi (exp_for n d + 52) \<le> ?x"
    using f(2) unfolding e by (cases "f \<le> -1074") auto
qed

text \<open>The rounded significand fits.\<close>

lemma half_even_le:
  assumes "0 < b" and "real a / real b < real k" shows "half_even a b \<le> k"
proof -
  have "real (half_even a b) \<le> real a / real b + 1 / 2"
    using half_even_error [OF assms(1), of a] by linarith
  with assms(2) have "real (half_even a b) < real k + 1" by linarith
  then show ?thesis by linarith
qed

lemma half_even_ge:
  assumes "0 < b" and "real k \<le> real a / real b" shows "k \<le> half_even a b"
proof -
  have "real a / real b - 1 / 2 \<le> real (half_even a b)"
    using half_even_error [OF assms(1), of a] by linarith
  with assms(2) have "real k - 1 < real (half_even a b)" by linarith
  then show ?thesis by linarith
qed

lemma ratio_significand:
  assumes "0 < n" and "0 < d"
  defines "e \<equiv> exp_for n d"
  shows "half_even (up n e) (down d e) \<le> 2 ^ 53"
    and "e = -1074 \<or> 2 ^ 52 \<le> half_even (up n e) (down d e)"
proof -
  let ?x = "real n / real d" and ?y = "real (up n e) / real (down d e)"
  have pos: "0 < down d e" by (rule down_pos [OF assms(2)])
  have y: "?y = ?x * 2 powi (- e)" by (rule up_down_ratio [OF assms(2)])
  have "?x * 2 powi (- e) < 2 powi (e + 53) * 2 powi (- e)"
    using exp_for_bounds(2) [OF assms(1,2)] by (intro mult_strict_right_mono) (simp_all add: e_def)
  then have "?y < 2 powi (e + 53) * 2 powi (- e)" by (simp only: y)
  also have "\<dots> = 2 powi 53" by (subst power_int_add [symmetric]) simp_all
  finally show "half_even (up n e) (down d e) \<le> 2 ^ 53"
    by (intro half_even_le [OF pos]) simp
  show "e = -1074 \<or> 2 ^ 52 \<le> half_even (up n e) (down d e)"
  proof (cases "e = -1074")
    case False
    then have "2 powi (e + 52) * 2 powi (- e) \<le> ?x * 2 powi (- e)"
      using exp_for_bounds(3) [OF assms(1,2)] by (intro mult_right_mono) (simp_all add: e_def)
    then have "2 powi (e + 52) * 2 powi (- e) \<le> ?y" by (simp only: y)
    moreover have "2 powi (e + 52) * 2 powi (- e) = (2::real) powi 52"
      by (subst power_int_add [symmetric]) simp_all
    ultimately show ?thesis by (intro disjI2 half_even_ge [OF pos]) simp
  qed simp
qed

lemma f_pack_wf:
  "m \<le> 2 ^ 53 \<Longrightarrow> -1074 \<le> e \<Longrightarrow> e = -1074 \<or> 2 ^ 52 \<le> m \<Longrightarrow> f_wf (f_pack s m e)"
  by (auto simp: f_pack_def)

lemma f_pack_real: "f_finite (f_pack s m e) \<Longrightarrow> f_real (f_pack s m e) = (if s then -1 else 1) * (real m * 2 powi e)"
  by (auto simp: f_pack_def f_finite_def power_int_add)

lemma f_of_ratio_wf [wf_intros]:
  assumes "0 < d" shows "f_wf (f_of_ratio s n d)"
proof (cases "n = 0")
  case False
  with assms have "f_wf (f_pack s (half_even (up n (exp_for n d)) (down d (exp_for n d))) (exp_for n d))"
    by (intro f_pack_wf ratio_significand exp_for_bounds) simp_all
  with False show ?thesis by (simp only: f_of_ratio_def Let_def if_False)
qed (simp add: f_of_ratio_def)

text \<open>
  Rounding to nearest: no representable number is closer to the ratio than the result,
  where the result is finite.
\<close>

lemma f_of_ratio_nearest:
  assumes "0 < d" and "f_finite (f_of_ratio s n d)" and "f_wf (FFin t m' e')"
  shows "\<bar>f_real (f_of_ratio s n d) - (if s then -1 else 1) * (real n / real d)\<bar>
           \<le> \<bar>f_real (FFin t m' e') - (if s then -1 else 1) * (real n / real d)\<bar>"
proof (cases "n = 0")
  case True
  then show ?thesis by (simp add: f_of_ratio_def)
next
  case False
  then have n: "0 < n" by simp
  define e where "e = exp_for n d"
  define m where "m = half_even (up n e) (down d e)"
  define x y where "x = real n / real d" and "y = real (up n e) / real (down d e)"
  define sg :: real where "sg = (if s then -1 else 1)"
  define v where "v = sg * f_real (FFin t m' e')"
  have sg: "sg * sg = 1" "\<bar>sg\<bar> = 1" by (simp_all add: sg_def)
  have p: "0 < (2::real) powi e" by simp
  have xy: "x = y * 2 powi e"
    unfolding x_def y_def up_down_ratio [OF assms(1)] by (simp add: power_int_minus field_simps)
  have r: "f_real (f_of_ratio s n d) = sg * (real m * 2 powi e)"
    using assms(2) False f_pack_real unfolding f_of_ratio_def m_def e_def sg_def by (simp add: Let_def)
  have pos: "0 < down d e" by (rule down_pos [OF assms(1)])
  have "\<bar>real m - y\<bar> * 2 powi e \<le> \<bar>v - x\<bar>"
  proof (cases "e \<le> e'")
    case True
    define k where "k = (if t then -1 else 1) * (if s then -1 else 1) * int m' * 2 ^ nat (e' - e)"
    have "(2::real) powi e' = 2 powi int (nat (e' - e)) * 2 powi e"
      by (subst power_int_add [symmetric]) (use True in simp_all)
    then have "(2::real) powi e' = 2 ^ nat (e' - e) * 2 powi e" by (simp only: power_int_of_nat)
    then have "v = of_int k * 2 powi e"
      by (simp add: v_def sg_def k_def)
    then have "v - x = (of_int k - y) * 2 powi e" unfolding xy by (simp only: left_diff_distrib)
    then have "\<bar>v - x\<bar> = \<bar>of_int k - y\<bar> * 2 powi e" using p by (simp add: abs_mult)
    then show ?thesis
      using half_even_nearest [OF pos, of "up n e" k] p by (simp add: m_def y_def)
  next
    case False
    then have e': "e' \<le> e - 1" and ne: "e \<noteq> -1074" using assms(3) by auto
    have big: "2 powi 52 * 2 powi e \<le> x"
      using exp_for_bounds(3) [OF n assms(1)] ne unfolding e_def x_def
      by (simp add: power_int_add mult.commute)
    have "\<bar>v\<bar> = real m' * 2 powi e'" by (simp add: v_def sg(2) abs_mult)
    also have "\<dots> \<le> real (2 ^ 53) * 2 powi (e - 1)"
    proof (rule mult_mono)
      have "m' \<le> 2 ^ 53" using assms(3) by simp
      then show "real m' \<le> real (2 ^ 53)" by (rule of_nat_mono)
      show "(2::real) powi e' \<le> 2 powi (e - 1)" using e' by (intro power_int_increasing) simp_all
    qed simp_all
    also have "\<dots> = 2 powi 52 * 2 powi e" by (simp add: power_int_diff)
    finally have v: "v \<le> 2 powi 52 * 2 powi e" by linarith
    have "\<bar>real m - y\<bar> \<le> \<bar>of_int (2 ^ 52) - y\<bar>"
      unfolding m_def y_def by (rule half_even_nearest [OF pos])
    then have "\<bar>real m - y\<bar> * 2 powi e \<le> \<bar>of_int (2 ^ 52) - y\<bar> * 2 powi e"
      using p by (simp add: mult_right_mono)
    also have "\<dots> = \<bar>2 powi 52 * 2 powi e - x\<bar>"
      using p unfolding xy left_diff_distrib [symmetric] by (simp add: abs_mult)
    also have "\<dots> \<le> \<bar>v - x\<bar>" using v big by linarith
    finally show ?thesis .
  qed
  moreover have "\<bar>sg * (real m * 2 powi e) - sg * x\<bar> = \<bar>real m - y\<bar> * 2 powi e"
    using p sg(2) unfolding xy right_diff_distrib [symmetric] left_diff_distrib [symmetric]
    by (simp only: abs_mult)
  moreover have "\<bar>f_real (FFin t m' e') - sg * x\<bar> = \<bar>v - x\<bar>"
  proof -
    have "v - x = sg * (f_real (FFin t m' e') - sg * x)"
      by (simp add: v_def right_diff_distrib sg(1) flip: mult.assoc)
    then show ?thesis using sg(2) by (simp add: abs_mult)
  qed
  ultimately show ?thesis unfolding r x_def [symmetric] sg_def [symmetric] by simp
qed

subsection \<open>Exactness and range\<close>

text \<open>A representable ratio is returned as it is.\<close>

lemma f_of_ratio_exact:
  assumes "f_wf (FFin s m e)" and "0 < d" and "real n / real d = real m * 2 powi e"
  shows "f_of_ratio s n d = FFin s m e"
proof (cases "m = 0")
  case True
  then have "n = 0" using assms(2,3) by simp
  with True assms(1) show ?thesis by (simp add: f_of_ratio_def)
next
  case False
  with assms(2,3) have n: "0 < n" by (cases "n = 0") simp_all
  have p: "0 < (2::real) powi k" for k :: int by simp
  have "m < 2 ^ 53" using assms(1) by simp
  then have "real m < real (2 ^ 53)" by (rule of_nat_less_iff [THEN iffD2])
  then have m53: "real m < 2 powi 53" by simp
  have lt: "real m * 2 powi e < 2 powi (e + 53)"
    using m53 mult_strict_right_mono [OF m53 p [of e]] by (simp add: power_int_add mult.commute)
  have e: "exp_for n d = e"
  proof (cases "exp_for n d < e")
    case True
    then have ne: "e \<noteq> -1074" using exp_for_bounds(1) [OF n assms(2)] by linarith
    then have "2 ^ 52 \<le> m" using assms(1) by simp
    then have "real (2 ^ 52) \<le> real m" by (rule of_nat_mono)
    then have "(2::real) powi 52 \<le> real m" by simp
    then have "2 powi 52 * 2 powi e \<le> real m * 2 powi e" using p by (intro mult_right_mono) simp_all
    then have "2 powi (52 + e) \<le> real m * 2 powi e" by (subst power_int_add) simp_all
    moreover have "real m * 2 powi e < 2 powi (exp_for n d + 53)"
      using exp_for_bounds(2) [OF n assms(2)] assms(3) by simp
    moreover have "(2::real) powi (exp_for n d + 53) \<le> 2 powi (52 + e)"
      using True by (intro power_int_increasing) simp_all
    ultimately show ?thesis by linarith
  next
    case False
    show ?thesis
    proof (rule ccontr)
      assume "exp_for n d \<noteq> e"
      with False have g: "e < exp_for n d" by simp
      then have "exp_for n d \<noteq> -1074" using assms(1) by auto
      then have "2 powi (exp_for n d + 52) \<le> real m * 2 powi e"
        using exp_for_bounds(3) [OF n assms(2)] assms(3) by simp
      moreover have "(2::real) powi (e + 53) \<le> 2 powi (exp_for n d + 52)"
        using g by (intro power_int_increasing) simp_all
      ultimately show False using lt by linarith
    qed
  qed
  have "real (up n e) / real (down d e) = real m"
    unfolding up_down_ratio [OF assms(2)] assms(3) by (simp add: power_int_minus)
  then have "real (up n e) = real (m * down d e)"
    using down_pos [OF assms(2), of e] by (simp add: field_simps)
  then have "up n e = m * down d e" by (simp only: of_nat_eq_iff)
  then have "half_even (up n e) (down d e) = m"
    using half_even_exact [OF down_pos [OF assms(2)]] by simp
  with n assms(1) e show ?thesis by (auto simp: f_of_ratio_def Let_def f_pack_def)
qed

text \<open>A ratio up to the largest finite number stays finite.\<close>

lemma f_of_ratio_finite:
  assumes "0 < d" and "real n / real d \<le> real (2 ^ 53 - 1) * 2 powi 971"
  shows "f_finite (f_of_ratio s n d)"
proof (cases "n = 0")
  case False
  then have n: "0 < n" by simp
  define e where "e = exp_for n d"
  have big: "real (2 ^ 53 - 1) * 2 powi 971 < (2::real) powi 1024"
    by (simp add: of_nat_diff)
  have "e \<le> 971"
  proof (rule ccontr)
    assume "\<not> e \<le> 971"
    then have "2 powi (e + 52) \<le> real n / real d"
      using exp_for_bounds(3) [OF n assms(1)] by (auto simp: e_def)
    moreover have "(2::real) powi 1024 \<le> 2 powi (e + 52)"
      using \<open>\<not> e \<le> 971\<close> by (intro power_int_increasing) simp_all
    ultimately show False using assms(2) big by linarith
  qed
  moreover have "half_even (up n e) (down d e) \<noteq> 2 ^ 53" if "e = 971"
  proof -
    have "real (up n e) / real (down d e) \<le> real (2 ^ 53 - 1) * 2 powi 971 * 2 powi (- e)"
      unfolding up_down_ratio [OF assms(1)] using assms(2) by (intro mult_right_mono) simp_all
    also have "\<dots> = real (2 ^ 53 - 1)" using that by (simp add: power_int_minus)
    finally have y: "real (up n e) / real (down d e) \<le> real (2 ^ 53 - 1)" .
    have "real (half_even (up n e) (down d e)) \<le> real (2 ^ 53 - 1) + 1 / 2"
      using half_even_error [OF down_pos [OF assms(1)], of "up n e" e] y by linarith
    then show ?thesis by (auto simp: of_nat_diff)
  qed
  ultimately show ?thesis using False
    by (auto simp: f_of_ratio_def f_pack_def e_def [symmetric])
qed (simp add: f_of_ratio_def)

subsection \<open>Arithmetic\<close>

text \<open>Conversion of a non-negative and of a signed integer.\<close>

definition f_of_nat :: "nat \<Rightarrow> float64" where
  "f_of_nat n = f_of_ratio False n 1"

definition f_of_int :: "int \<Rightarrow> float64" where
  "f_of_int i = f_of_ratio (i < 0) (nat \<bar>i\<bar>) 1"

fun f_div :: "float64 \<Rightarrow> float64 \<Rightarrow> float64" where
  "f_div (FFin s m e) (FFin t m' e') =
     (if m' = 0 then (if m = 0 then FNaN else FInf (s \<noteq> t))
      else f_of_ratio (s \<noteq> t) (down m e * 2 ^ nat (- e')) (down m' e' * 2 ^ nat (- e)))"
| "f_div (FInf s) (FFin t _ _) = FInf (s \<noteq> t)"
| "f_div (FFin s _ _) (FInf t) = FFin (s \<noteq> t) 0 (-1074)"
| "f_div _ _ = FNaN"

text \<open>A finite number as an integer number of units of \<open>2 ^ k\<close>, for \<open>k\<close> at most its exponent.\<close>

definition f_units :: "bool \<Rightarrow> nat \<Rightarrow> int \<Rightarrow> int \<Rightarrow> int" where
  "f_units s m e k = (if s then -1 else 1) * int (m * 2 ^ nat (e - k))"

fun f_add :: "float64 \<Rightarrow> float64 \<Rightarrow> float64" where
  "f_add (FFin s m e) (FFin t m' e') =
     (let k = min e e'; a = f_units s m e k + f_units t m' e' k
      in if a = 0 then FFin (s \<and> t) 0 (-1074)
         else f_of_ratio (a < 0) (down (nat \<bar>a\<bar>) k) (2 ^ nat (- k)))"
| "f_add (FInf s) (FInf t) = (if s = t then FInf s else FNaN)"
| "f_add (FInf s) (FFin _ _ _) = FInf s"
| "f_add (FFin _ _ _) (FInf t) = FInf t"
| "f_add _ _ = FNaN"

lemma f_of_nat_wf [wf_intros]: "f_wf (f_of_nat n)"
  by (simp add: f_of_nat_def f_of_ratio_wf)

lemma f_of_int_wf [wf_intros]: "f_wf (f_of_int i)"
  by (simp add: f_of_int_def f_of_ratio_wf)

lemma f_div_wf [wf_intros]: "f_wf x \<Longrightarrow> f_wf y \<Longrightarrow> f_wf (f_div x y)"
  by (cases "(x, y)" rule: f_div.cases) (auto intro!: f_of_ratio_wf simp: down_def)

lemma f_add_wf [wf_intros]: "f_wf x \<Longrightarrow> f_wf y \<Longrightarrow> f_wf (f_add x y)"
  by (cases "(x, y)" rule: f_add.cases) (auto intro!: f_of_ratio_wf simp: Let_def)

lemma f_of_nat_finite: "n < 2 ^ 64 \<Longrightarrow> f_finite (f_of_nat n)"
proof -
  assume "n < 2 ^ 64"
  then have "real n < real (2 ^ 64)" by (rule of_nat_less_iff [THEN iffD2])
  moreover have "real (2 ^ 64) \<le> real (2 ^ 53 - 1) * 2 powi 971"
    by (simp add: of_nat_diff)
  ultimately show ?thesis by (simp add: f_of_nat_def f_of_ratio_finite)
qed

lemma down_ratio: "0 < m' \<Longrightarrow>
  real (down m e * 2 ^ nat (- e')) / real (down m' e' * 2 ^ nat (- e)) = (real m * 2 powi e) / (real m' * 2 powi e')"
  by (cases "0 \<le> e"; cases "0 \<le> e'")
    (simp_all add: down_def power_int_def field_simps)

lemma f_of_nat_1: "f_of_nat 1 = FFin False (2 ^ 52) (-52)"
  unfolding f_of_nat_def by (rule f_of_ratio_exact) simp_all

text \<open>Dividing by one changes nothing.\<close>

lemma f_div_one [simp]: "f_wf x \<Longrightarrow> f_div x (f_of_nat 1) = x"
proof (cases x)
  case (FFin s m e)
  assume "f_wf x"
  then have wf: "f_wf (FFin s m e)" by (simp only: FFin)
  have "f_of_ratio s (down m e * 2 ^ nat (- (-52))) (down (2 ^ 52) (-52) * 2 ^ nat (- e)) = FFin s m e"
  proof (rule f_of_ratio_exact [OF wf])
    show "0 < down (2 ^ 52) (-52) * 2 ^ nat (- e)" by (simp add: down_def)
    show "real (down m e * 2 ^ nat (- (-52))) / real (down (2 ^ 52) (-52) * 2 ^ nat (- e)) = real m * 2 powi e"
      by (subst down_ratio) (simp_all add: power_int_minus)
  qed
  then show ?thesis unfolding f_of_nat_1 FFin by (simp only: f_div.simps) simp
qed (simp_all add: f_of_nat_1 [simplified])

lemma f_div_Suc_0 [simp]: "f_wf x \<Longrightarrow> f_div x (f_of_nat (Suc 0)) = x"
  using f_div_one by simp

text \<open>Dividing a finite number by one that is at least 1 stays finite.\<close>

lemma f_div_finite:
  assumes "f_wf x" and "f_finite x" and "f_finite y" and "1 \<le> \<bar>f_real y\<bar>"
  shows "f_finite (f_div x y)"
proof -
  obtain s m e where x: "x = FFin s m e" using assms(2) by (cases x) (auto simp: f_finite_def)
  obtain t m' e' where y: "y = FFin t m' e'" using assms(3) by (cases y) (auto simp: f_finite_def)
  have one: "1 \<le> real m' * 2 powi e'" using assms(4) y by (auto simp: abs_mult split: if_splits)
  then have m': "0 < m'" by (cases "m' = 0") simp_all
  have "m \<le> 2 ^ 53 - 1" "e \<le> 971" using assms(1) x by simp_all
  then have "real m * 2 powi e \<le> real (2 ^ 53 - 1) * 2 powi 971"
    by (intro mult_mono power_int_increasing of_nat_mono) simp_all
  moreover have "(real m * 2 powi e) / (real m' * 2 powi e') \<le> (real m * 2 powi e) / 1"
    using one by (intro divide_left_mono) simp_all
  ultimately have "real (down m e * 2 ^ nat (- e')) / real (down m' e' * 2 ^ nat (- e))
      \<le> real (2 ^ 53 - 1) * 2 powi 971"
    unfolding down_ratio [OF m'] by linarith
  moreover have "0 < down m' e' * 2 ^ nat (- e)" using m' by (simp add: down_def)
  ultimately show ?thesis using m' unfolding x y by (simp only: f_div.simps if_False) (simp add: f_of_ratio_finite)
qed

lemma f_of_nat_1000: "f_of_nat 1000 = FFin False (1000 * 2 ^ 43) (-43)"
  unfolding f_of_nat_def by (rule f_of_ratio_exact) (simp_all add: power_int_minus)

lemma f_div_1000_finite [wf_intros]: "f_wf x \<Longrightarrow> f_finite x \<Longrightarrow> f_finite (f_div x (f_of_nat 1000))"
  by (rule f_div_finite) (simp_all add: f_of_nat_1000 power_int_minus)

subsection \<open>Sizes\<close>

lemma f_wf_zero: "f_wf (FFin False 0 (-1074))"
  by simp

lemma f_of_ratio_bound:
  assumes "0 < d" and "f_finite (f_of_ratio s n d)"
  shows "\<bar>f_real (f_of_ratio s n d)\<bar> \<le> 2 * (real n / real d)"
proof -
  have "0 \<le> real n / real d" by simp
  then show ?thesis using f_of_ratio_nearest [OF assms f_wf_zero] by (cases s) auto
qed

lemma f_of_int_finite: "\<bar>i\<bar> < 2 ^ 64 \<Longrightarrow> f_finite (f_of_int i)"
proof -
  assume "\<bar>i\<bar> < 2 ^ 64"
  then have "nat \<bar>i\<bar> < 2 ^ 64" by (simp add: nat_less_iff)
  from f_of_nat_finite [OF this] have "f_finite (f_of_ratio False (nat \<bar>i\<bar>) 1)" by (simp add: f_of_nat_def)
  then show ?thesis
    by (auto simp: f_of_int_def f_of_ratio_def f_pack_def Let_def f_finite_def split: if_splits)
qed

lemma f_of_int_bound: "\<bar>i\<bar> < 2 ^ 64 \<Longrightarrow> \<bar>f_real (f_of_int i)\<bar> \<le> 2 * real_of_int \<bar>i\<bar>"
  using f_of_ratio_bound [of 1 "i < 0" "nat \<bar>i\<bar>"] f_of_int_finite [of i]
  by (simp add: f_of_int_def)

text \<open>The sum of two finite numbers is finite when the exact sum is not beyond the largest one.\<close>

lemma f_units_real:
  "k \<le> e \<Longrightarrow> real_of_int (f_units s m e k) * 2 powi k = f_real (FFin s m e)"
  by (simp add: f_units_def power_int_def field_simps flip: power_int_add_numeral)
     (auto simp: power_int_def power_add [symmetric] nat_diff_distrib field_simps)

lemma f_add_finite:
  assumes "f_finite x" and "f_finite y" and "\<bar>f_real x + f_real y\<bar> \<le> 2 ^ 1000"
  shows "f_finite (f_add x y)"
proof -
  obtain s m e where x: "x = FFin s m e" using assms(1) by (cases x) (auto simp: f_finite_def)
  obtain t m' e' where y: "y = FFin t m' e'" using assms(2) by (cases y) (auto simp: f_finite_def)
  define k where "k = min e e'"
  define a where "a = f_units s m e k + f_units t m' e' k"
  have "real_of_int a * 2 powi k = f_real x + f_real y"
    unfolding a_def x y by (simp add: distrib_right f_units_real k_def del: f_real.simps)
  moreover have "real (down (nat \<bar>a\<bar>) k) / real (2 ^ nat (- k)) = real_of_int \<bar>a\<bar> * 2 powi k"
    by (cases "0 \<le> k") (simp_all add: down_def power_int_def field_simps)
  ultimately have "real (down (nat \<bar>a\<bar>) k) / real (2 ^ nat (- k)) \<le> 2 ^ 1000"
    using assms(3) by (metis abs_mult abs_of_pos of_int_abs zero_less_power_int zero_less_numeral)
  also have "(2 :: real) ^ 1000 \<le> real (2 ^ 53 - 1) * 2 powi 971" by (simp add: of_nat_diff)
  finally have "f_finite (f_of_ratio (a < 0) (down (nat \<bar>a\<bar>) k) (2 ^ nat (- k)))"
    by (intro f_of_ratio_finite) simp_all
  then show ?thesis unfolding x y by (simp add: Let_def a_def [unfolded k_def] k_def)
qed

definition f_giga :: float64 where
  "f_giga = f_of_nat 1000000000"

lemma f_giga_eq: "f_giga = FFin False (1000000000 * 2 ^ 23) (-23)"
  unfolding f_giga_def f_of_nat_def by (rule f_of_ratio_exact) (simp_all add: power_int_minus)

lemma f_giga_ok: "f_wf f_giga" "f_finite f_giga" "f_real f_giga = 1000000000"
  by (simp_all add: f_giga_def f_of_nat_wf, simp_all add: f_giga_def [symmetric] f_giga_eq power_int_minus)

lemma f_div_bound:
  assumes "f_wf x" and "f_finite x" and "f_wf y" and "f_finite y" and "1 \<le> \<bar>f_real y\<bar>"
  shows "\<bar>f_real (f_div x y)\<bar> \<le> 2 * \<bar>f_real x\<bar>"
proof -
  obtain s m e where x: "x = FFin s m e" using assms(2) by (cases x) (auto simp: f_finite_def)
  obtain t m' e' where y: "y = FFin t m' e'" using assms(4) by (cases y) (auto simp: f_finite_def)
  have one: "1 \<le> real m' * 2 powi e'" using assms(5) y by (auto simp: abs_mult split: if_splits)
  then have m': "0 < m'" by (cases "m' = 0") simp_all
  let ?n = "down m e * 2 ^ nat (- e')" and ?d = "down m' e' * 2 ^ nat (- e)"
  have div: "f_div x y = f_of_ratio (s \<noteq> t) ?n ?d" unfolding x y using m' by simp
  have "f_finite (f_div x y)" by (rule f_div_finite) (use assms in simp_all)
  then have "\<bar>f_real (f_div x y)\<bar> \<le> 2 * (real ?n / real ?d)"
    unfolding div using m' by (intro f_of_ratio_bound) (simp_all add: down_def)
  also have "real ?n / real ?d \<le> (real m * 2 powi e) / 1"
    unfolding down_ratio [OF m'] using one by (intro divide_left_mono) simp_all
  finally have "\<bar>f_real (f_div x y)\<bar> \<le> 2 * (real m * 2 powi e)" by simp
  moreover have "\<bar>f_real x\<bar> = real m * 2 powi e" by (simp add: x abs_mult)
  ultimately show ?thesis by simp
qed

end
