(* ===== verification/Go_Strconv.thy ===== *)
theory Go_Strconv
  imports Go_Utf8 Go_Float64
begin

text \<open>
  The functions of Go's \<open>strconv\<close> package that the exporter calls: \<open>ParseUint\<close> in base 10,
  \<open>Atoi\<close>, \<open>Itoa\<close> and \<open>FormatUint\<close>, \<open>ParseBool\<close>, and \<open>ParseFloat\<close> with the whole syntax it
  accepts (decimal and hexadecimal, underscores, infinities and NaN).
\<close>

datatype num_error = ErrSyntax | ErrRange

subsection \<open>Decimal digits\<close>

definition digit_val :: "char \<Rightarrow> nat option" where
  "digit_val c = (let n = of_char c :: nat in if 48 \<le> n \<and> n \<le> 57 then Some (n - 48) else None)"

definition digit_char :: "nat \<Rightarrow> char" where
  "digit_char d = char_of (48 + d)"

fun dec :: "nat \<Rightarrow> bytes" where
  "dec n = (if n < 10 then [digit_char n] else dec (n div 10) @ [digit_char (n mod 10)])"

declare dec.simps [simp del]

text \<open>\<open>strconv.Itoa\<close> and \<open>strconv.FormatUint\<close>.\<close>

definition itoa :: "int \<Rightarrow> bytes" where
  "itoa i = (if i < 0 then CHR ''-'' # dec (nat (- i)) else dec (nat i))"

lemma digit_val_char [simp]: "d < 10 \<Longrightarrow> digit_val (digit_char d) = Some d"
  by (simp add: digit_val_def digit_char_def Let_def)

lemma digit_val_less: "digit_val c = Some d \<Longrightarrow> d < 10"
  by (auto simp: digit_val_def Let_def split: if_splits)

lemma digit_val_graphic: "digit_val c = Some d \<Longrightarrow> graphic c"
  by (auto simp: digit_val_def graphic_def Let_def split: if_splits)

lemma digit_val_ascii: "digit_val c = Some d \<Longrightarrow> byte_in 0 0x7F c"
  by (auto simp: digit_val_def byte_in_def Let_def split: if_splits)

definition all_digits :: "bytes \<Rightarrow> bool" where
  "all_digits s \<longleftrightarrow> (\<forall>c \<in> set s. digit_val c \<noteq> None)"

fun dec_value :: "nat \<Rightarrow> bytes \<Rightarrow> nat" where
  "dec_value n [] = n"
| "dec_value n (c # s) = dec_value (n * 10 + the (digit_val c)) s"

lemma dec_value_append: "dec_value n (a @ b) = dec_value (dec_value n a) b"
  by (induction a arbitrary: n) auto

lemma dec_value_mono: "n \<le> dec_value n s"
proof (induction s arbitrary: n)
  case (Cons c s)
  have "n \<le> n * 10 + the (digit_val c)" by simp
  also have "\<dots> \<le> dec_value (n * 10 + the (digit_val c)) s" by (rule Cons.IH)
  finally show ?case by simp
qed simp

lemma dec_nonempty [simp]: "dec n \<noteq> []"
  by (subst dec.simps) simp

lemma all_digits_dec [simp]: "all_digits (dec n)"
proof (induction n rule: dec.induct)
  case (1 n)
  then show ?case by (subst dec.simps) (auto simp: all_digits_def)
qed

lemma dec_value_dec [simp]: "dec_value 0 (dec n) = n"
proof (induction n rule: dec.induct)
  case (1 n)
  show ?case
  proof (cases "n < 10")
    case True
    then show ?thesis by (subst dec.simps) simp
  next
    case False
    then have "dec_value 0 (dec n) = n div 10 * 10 + n mod 10"
      using 1 by (subst dec.simps) (simp add: dec_value_append)
    then show ?thesis by simp
  qed
qed

lemma dec_inject: "dec m = dec n \<longleftrightarrow> m = n"
  by (metis dec_value_dec)

lemma all_digits_valid: "all_digits s \<Longrightarrow> valid_utf8 s"
  by (induction s) (auto simp: all_digits_def valid_utf8_ascii digit_val_ascii)

lemma all_digits_trim [simp]: "all_digits s \<Longrightarrow> trim_space s = s"
  by (rule trim_space_graphic) (cases s, auto simp: all_digits_def dest: digit_val_graphic)

lemma minus_not_digit [simp]: "digit_val (CHR ''-'') = None"
  by (simp add: digit_val_def)

lemma hd_dec_digit: "digit_val (hd (dec n)) \<noteq> None"
  using all_digits_dec [of n] unfolding all_digits_def by (metis dec_nonempty hd_in_set)

lemma itoa_inject [simp]: "itoa i = itoa j \<longleftrightarrow> i = j"
proof -
  have "CHR ''-'' # dec m \<noteq> dec n" for m n
    using hd_dec_digit [of n] by (metis list.sel(1) minus_not_digit)
  then show ?thesis
    by (smt (verit) dec_inject itoa_def list.inject nat_eq_iff2)
qed

lemma itoa_valid [simp]: "valid_utf8 (itoa i)"
  by (simp add: itoa_def all_digits_valid valid_utf8_ascii byte_in_def)

subsection \<open>Unsigned and signed integers\<close>

fun uint_loop :: "nat \<Rightarrow> nat \<Rightarrow> bytes \<Rightarrow> num_error + nat" where
  "uint_loop mx n [] = Inr n"
| "uint_loop mx n (c # s) =
     (case digit_val c of
        None \<Rightarrow> Inl ErrSyntax
      | Some d \<Rightarrow> if mx < n * 10 + d then Inl ErrRange else uint_loop mx (n * 10 + d) s)"

text \<open>\<open>strconv.ParseUint(s, 10, b)\<close>: no sign, no underscore, at least one digit.\<close>

definition parse_uint :: "nat \<Rightarrow> bytes \<Rightarrow> num_error + nat" where
  "parse_uint b s = (if s = [] then Inl ErrSyntax else uint_loop (2 ^ b - 1) 0 s)"

text \<open>\<open>strconv.Atoi\<close> on a 64-bit platform.\<close>

definition atoi :: "bytes \<Rightarrow> num_error + int" where
  "atoi s =
     (let neg = has_prefix s ''-''; body = (if neg \<or> has_prefix s ''+'' then tl s else s) in
      case parse_uint 64 body of
        Inl e \<Rightarrow> Inl e
      | Inr u \<Rightarrow>
          if neg then (if 2 ^ 63 < u then Inl ErrRange else Inr (- int u))
          else (if 2 ^ 63 \<le> u then Inl ErrRange else Inr (int u)))"

lemma uint_loop_Inr:
  "uint_loop mx n s = Inr v \<longleftrightarrow> all_digits s \<and> v = dec_value n s \<and> (s = [] \<or> dec_value n s \<le> mx)"
proof (induction s arbitrary: n)
  case (Cons c s)
  show ?case
  proof (cases "digit_val c")
    case (Some d)
    then show ?thesis using Cons.IH [of "n * 10 + d"] dec_value_mono [of "n * 10 + d" s]
      by (auto simp: all_digits_def)
  qed (auto simp: all_digits_def)
qed (auto simp: all_digits_def)

lemma parse_uint_Inr:
  "parse_uint b s = Inr v \<longleftrightarrow> s \<noteq> [] \<and> all_digits s \<and> v = dec_value 0 s \<and> v < 2 ^ b"
proof -
  have "0 < k \<Longrightarrow> v \<le> k - 1 \<longleftrightarrow> v < k" for k :: nat by arith
  from this [of "2 ^ b"] show ?thesis by (auto simp: parse_uint_def uint_loop_Inr)
qed

lemma parse_uint_bound: "parse_uint b s = Inr v \<Longrightarrow> v < 2 ^ b"
  by (simp add: parse_uint_Inr)

lemma parse_uint_dec [simp]: "n < 2 ^ b \<Longrightarrow> parse_uint b (dec n) = Inr n"
  by (simp add: parse_uint_Inr)

lemma parse_uint_Nil [simp]: "parse_uint b [] = Inl ErrSyntax"
  by (simp add: parse_uint_def)

lemma atoi_itoa: "- (2 ^ 63) \<le> i \<Longrightarrow> i < 2 ^ 63 \<Longrightarrow> atoi (itoa i) = Inr i"
proof -
  assume i: "- (2 ^ 63) \<le> i" "i < 2 ^ 63"
  show ?thesis
  proof (cases "i < 0")
    case True
    then have "nat (- i) \<le> 2 ^ 63" using i(1) by (simp add: nat_le_iff)
    then show ?thesis using True by (simp add: atoi_def itoa_def has_prefix_def Let_def)
  next
    case False
    then have n: "nat i < 2 ^ 63" using i(2) by (simp add: nat_less_iff)
    obtain c t where ct: "dec (nat i) = c # t" "digit_val c \<noteq> None"
      using hd_dec_digit [of "nat i"] by (cases "dec (nat i)") auto
    then have "c \<noteq> CHR ''-''" "c \<noteq> CHR ''+''" by (auto simp: digit_val_def)
    then have "\<not> has_prefix (dec (nat i)) ''-''" "\<not> has_prefix (dec (nat i)) ''+''"
      using ct(1) by (simp_all add: has_prefix_def)
    then show ?thesis using False n by (simp add: atoi_def itoa_def Let_def)
  qed
qed

text \<open>\<open>strconv.ParseBool\<close>.\<close>

definition parse_bool :: "bytes \<Rightarrow> num_error + bool" where
  "parse_bool s =
     (if s \<in> {''1'', ''t'', ''T'', ''true'', ''TRUE'', ''True''} then Inr True
      else if s \<in> {''0'', ''f'', ''F'', ''false'', ''FALSE'', ''False''} then Inr False
      else Inl ErrSyntax)"

subsection \<open>Floating point numbers\<close>

text \<open>
  The infinities and NaN, in any case: \<open>special\<close> of \<open>atof.go\<close>, where the whole string has
  to be consumed.
\<close>

definition float_special :: "bytes \<Rightarrow> float64 option" where
  "float_special s =
     (let signed = has_prefix s ''-'' \<or> has_prefix s ''+'';
          body = map ascii_lower (if signed then tl s else s) in
      if body = ''inf'' \<or> body = ''infinity'' then Some (FInf (has_prefix s ''-''))
      else if body = ''nan'' \<and> \<not> signed then Some FNaN
      else None)"

text \<open>The digits of the mantissa, read byte by byte as \<open>readFloat\<close> does.\<close>

record mantissa =
  saw_dot :: bool
  saw_digits :: bool
  mant :: nat
  frac_digits :: nat

definition hex_val :: "char \<Rightarrow> nat option" where
  "hex_val c =
     (case digit_val c of
        Some d \<Rightarrow> Some d
      | None \<Rightarrow> (let n = of_char (ascii_lower c) :: nat in
                 if 97 \<le> n \<and> n \<le> 102 then Some (n - 87) else None))"

definition add_digit :: "nat \<Rightarrow> nat \<Rightarrow> mantissa \<Rightarrow> mantissa" where
  "add_digit base d m =
     m\<lparr>saw_digits := True, mant := mant m * base + d,
       frac_digits := frac_digits m + (if saw_dot m then 1 else 0)\<rparr>"

fun scan_mantissa :: "bool \<Rightarrow> mantissa \<Rightarrow> bytes \<Rightarrow> mantissa \<times> bytes" where
  "scan_mantissa hex m [] = (m, [])"
| "scan_mantissa hex m (c # s) =
     (if c = CHR ''_'' then scan_mantissa hex m s
      else if c = CHR ''.'' then
        (if saw_dot m then (m, c # s) else scan_mantissa hex (m\<lparr>saw_dot := True\<rparr>) s)
      else (case (if hex then hex_val c else digit_val c) of
              None \<Rightarrow> (m, c # s)
            | Some d \<Rightarrow> scan_mantissa hex (add_digit (if hex then 16 else 10) d m) s))"

text \<open>The digits of the exponent; its value stops growing past 10000.\<close>

fun scan_exponent :: "nat \<Rightarrow> bytes \<Rightarrow> nat \<times> bytes" where
  "scan_exponent e [] = (e, [])"
| "scan_exponent e (c # s) =
     (if c = CHR ''_'' then scan_exponent e s
      else (case digit_val c of
              None \<Rightarrow> (e, c # s)
            | Some d \<Rightarrow> scan_exponent (if e < 10000 then e * 10 + d else e) s))"

text \<open>\<open>underscoreOK\<close>: an underscore stands between digits, or after a base prefix.\<close>

datatype saw = SawStart | SawDigit | SawUnderscore | SawOther

fun underscores_ok :: "bool \<Rightarrow> saw \<Rightarrow> bytes \<Rightarrow> bool" where
  "underscores_ok hex w [] = (w \<noteq> SawUnderscore)"
| "underscores_ok hex w (c # s) =
     (if (if hex then hex_val c else digit_val c) \<noteq> None then underscores_ok hex SawDigit s
      else if c = CHR ''_'' then w = SawDigit \<and> underscores_ok hex SawUnderscore s
      else w \<noteq> SawUnderscore \<and> underscores_ok hex SawOther s)"

definition base_prefix :: "bytes \<Rightarrow> char \<Rightarrow> bool" where
  "base_prefix s x \<longleftrightarrow> (case s of a # b # _ \<Rightarrow> a = CHR ''0'' \<and> ascii_lower b = x | _ \<Rightarrow> False)"

definition underscore_ok :: "bytes \<Rightarrow> bool" where
  "underscore_ok s =
     (let t = (if has_prefix s ''-'' \<or> has_prefix s ''+'' then tl s else s) in
      if base_prefix t CHR ''x'' then underscores_ok True SawDigit (drop 2 t)
      else if base_prefix t CHR ''b'' \<or> base_prefix t CHR ''o'' then
        underscores_ok False SawDigit (drop 2 t)
      else underscores_ok False SawStart t)"

text \<open>The optional exponent: its value, or None where a hexadecimal number lacks it or it has no digit.\<close>

definition read_exponent :: "bool \<Rightarrow> bytes \<Rightarrow> (int \<times> bytes) option" where
  "read_exponent hex s =
     (case s of
        c # r \<Rightarrow>
          if ascii_lower c = (if hex then CHR ''p'' else CHR ''e'') then
            (let neg = has_prefix r ''-''; ds = (if neg \<or> has_prefix r ''+'' then tl r else r) in
             case ds of
               d # _ \<Rightarrow> if digit_val d = None then None
                       else (let (e, rest) = scan_exponent 0 ds
                             in Some (if neg then - int e else int e, rest))
             | [] \<Rightarrow> None)
          else if hex then None else Some (0, s)
      | [] \<Rightarrow> if hex then None else Some (0, s))"

definition f_of_scaled :: "bool \<Rightarrow> nat \<Rightarrow> nat \<Rightarrow> int \<Rightarrow> float64" where
  "f_of_scaled neg base m k =
     (if 0 \<le> k then f_of_ratio neg (m * base ^ nat k) 1
      else f_of_ratio neg m (base ^ nat (- k)))"

text \<open>
  \<open>strconv.ParseFloat(s, 64)\<close>: the number nearest to the value of the text, an error where
  the text is not a number as a whole or its value is out of range.
\<close>

definition read_float :: "bytes \<Rightarrow> float64 option" where
  "read_float s =
     (let neg = has_prefix s ''-''; body = (if neg \<or> has_prefix s ''+'' then tl s else s);
          hex = base_prefix body CHR ''x'' \<and> 2 < length body;
          (m, rest) = scan_mantissa hex
             \<lparr>saw_dot = False, saw_digits = False, mant = 0, frac_digits = 0\<rparr>
             (if hex then drop 2 body else body) in
      if \<not> saw_digits m then None
      else (case read_exponent hex rest of
              None \<Rightarrow> None
            | Some (e, rest') \<Rightarrow>
                if rest' \<noteq> [] then None
                else if CHR ''_'' \<in> set s \<and> \<not> underscore_ok s then None
                else Some (if hex then f_of_scaled neg 2 (mant m) (e - 4 * int (frac_digits m))
                           else f_of_scaled neg 10 (mant m) (e - int (frac_digits m)))))"

definition parse_float :: "bytes \<Rightarrow> num_error + float64" where
  "parse_float s =
     (case float_special s of
        Some f \<Rightarrow> Inr f
      | None \<Rightarrow> (case read_float s of
                   None \<Rightarrow> Inl ErrSyntax
                 | Some f \<Rightarrow> if is_inf f then Inl ErrRange else Inr f))"

lemma f_of_scaled_wf [wf_intros]: "0 < base \<Longrightarrow> f_wf (f_of_scaled neg base m k)"
  by (simp add: f_of_scaled_def f_of_ratio_wf)

lemma read_float_wf: "read_float s = Some f \<Longrightarrow> f_wf f"
  by (auto simp: read_float_def Let_def f_of_scaled_wf split: prod.splits option.splits if_splits)

lemma parse_float_wf: "parse_float s = Inr f \<Longrightarrow> f_wf f"
  by (auto simp: parse_float_def float_special_def Let_def dest: read_float_wf split: option.splits if_splits)

text \<open>Every unsigned decimal text reads as the number nearest to its value.\<close>

lemma scan_mantissa_digits:
  "all_digits s \<Longrightarrow> s \<noteq> [] \<or> saw_digits m \<Longrightarrow> \<not> saw_dot m \<Longrightarrow>
   scan_mantissa False m s = (m\<lparr>saw_digits := True, mant := dec_value (mant m) s\<rparr>, [])"
proof (induction s arbitrary: m)
  case (Cons c s)
  then obtain d where d: "digit_val c = Some d" by (auto simp: all_digits_def)
  then have "c \<noteq> CHR ''_''" "c \<noteq> CHR ''.''" by (auto simp: digit_val_def)
  then show ?case using Cons.prems d Cons.IH [of "add_digit 10 d m"]
    by (simp add: all_digits_def add_digit_def)
qed simp

lemma digits_no_underscore: "all_digits s \<Longrightarrow> CHR ''_'' \<notin> set s"
  by (auto simp: all_digits_def digit_val_def Let_def)

lemma digits_first:
  assumes "all_digits s"
  shows "\<not> has_prefix s ''-''" and "\<not> has_prefix s ''+''" and "\<not> base_prefix s CHR ''x''"
    and "float_special s = None \<or> s = []"
proof -
  have d: "digit_val c \<noteq> None" if "c \<in> set s" for c
    using assms that by (simp add: all_digits_def)
  have minus: "CHR ''-'' \<notin> set s" "CHR ''+'' \<notin> set s"
    using d [of "CHR ''-''"] d [of "CHR ''+''"] by (auto simp: digit_val_def)
  then show "\<not> has_prefix s ''-''" "\<not> has_prefix s ''+''" by (auto simp: has_prefix_iff)
  have low: "ascii_lower c = c" if "c \<in> set s" for c
    using d [OF that] by (auto simp: digit_val_def ascii_lower_def Let_def split: if_splits)
  have "map ascii_lower s = s" by (simp add: low map_idI)
  moreover have "CHR ''x'' \<notin> set s" "CHR ''i'' \<notin> set s" "CHR ''n'' \<notin> set s"
    using d [of "CHR ''x''"] d [of "CHR ''i''"] d [of "CHR ''n''"] by (auto simp: digit_val_def)
  ultimately show "\<not> base_prefix s CHR ''x''" "float_special s = None \<or> s = []"
    using minus low by (auto simp: base_prefix_def float_special_def Let_def has_prefix_iff split: list.splits)
qed

lemma read_float_digits:
  assumes "all_digits s" and "s \<noteq> []"
  shows "read_float s = Some (f_of_nat (dec_value 0 s))"
proof -
  have "scan_mantissa False \<lparr>saw_dot = False, saw_digits = False, mant = 0, frac_digits = 0\<rparr> s =
     (\<lparr>saw_dot = False, saw_digits = True, mant = dec_value 0 s, frac_digits = 0\<rparr>, [])"
    using assms by (subst scan_mantissa_digits) simp_all
  then show ?thesis using assms digits_first [OF assms(1)] digits_no_underscore [OF assms(1)]
    by (simp add: read_float_def read_exponent_def f_of_scaled_def f_of_nat_def)
qed

lemma parse_float_digits:
  "all_digits s \<Longrightarrow> s \<noteq> [] \<Longrightarrow> f_finite (f_of_nat (dec_value 0 s)) \<Longrightarrow>
   parse_float s = Inr (f_of_nat (dec_value 0 s))"
  using digits_first(4) [of s] by (simp add: parse_float_def read_float_digits f_finite_iff)

lemma parse_float_dec: "n < 2 ^ 64 \<Longrightarrow> parse_float (dec n) = Inr (f_of_nat n)"
  by (simp add: parse_float_digits f_of_nat_finite)

text \<open>The equations by which the simplifier evaluates a closed call of \<open>parse_float\<close>.\<close>

lemmas parse_float_eval =
  parse_float_def read_float_def float_special_def read_exponent_def f_of_scaled_def
  f_of_ratio_def exp_for_def f_pack_def half_even_def up_def down_def bits.simps
  underscore_ok_def base_prefix_def has_prefix_def hex_val_def digit_val_def
  ascii_lower_def add_digit_def is_inf_def Let_def

lemma parse_float_examples:
  "parse_float ''1.5'' = Inr (FFin False (3 * 2 ^ 51) (-52))"
  "parse_float ''-0.25e1'' = Inr (FFin True (5 * 2 ^ 50) (-51))"
  "parse_float ''0x1p-2'' = Inr (FFin False (2 ^ 52) (-54))"
  "parse_float ''inf'' = Inr (FInf False)"
  "parse_float ''1_0'' = Inr (FFin False (5 * 2 ^ 50) (-49))"
  "parse_float ''1__0'' = Inl ErrSyntax"
  "parse_float ''12 mV'' = Inl ErrSyntax"
  by (simp_all add: parse_float_eval)

end
