(* ===== verification/Go_Json.thy ===== *)
theory Go_Json
  imports Go_Strconv
begin

text \<open>
  JSON as Go's \<open>encoding/json\<close> reads it: the grammar its scanner accepts, with its limit on
  nesting, and \<open>Unmarshal\<close> into the Go types the decoder uses. A \<open>json.RawMessage\<close> is the
  value it holds. A value of the wrong JSON type is an error of the whole \<open>Unmarshal\<close>, as
  it is in Go, where the first \<open>UnmarshalTypeError\<close> is returned in the end.
\<close>

datatype json =
  JNull
| JBool bool
| JNum bytes
| JStr bytes
| JArr "json list"
| JObj "(bytes \<times> json) list"

subsection \<open>The grammar\<close>

definition json_space :: "char \<Rightarrow> bool" where
  "json_space c \<longleftrightarrow> c = CHR '' '' \<or> c = CHR 0x09 \<or> c = CHR 0x0A \<or> c = CHR 0x0D"

definition skip_ws :: "bytes \<Rightarrow> bytes" where
  "skip_ws s = dropWhile json_space s"

text \<open>Four hexadecimal digits.\<close>

fun hex4 :: "bytes \<Rightarrow> (nat \<times> bytes) option" where
  "hex4 (a # b # c # d # r) =
     (case (hex_val a, hex_val b, hex_val c, hex_val d) of
        (Some i, Some j, Some k, Some l) \<Rightarrow> Some (((i * 16 + j) * 16 + k) * 16 + l, r)
      | _ \<Rightarrow> None)"
| "hex4 _ = None"

text \<open>A \<open>\u\<close> escape: a code unit, or two that form a surrogate pair; an unpaired surrogate is replaced.\<close>

definition u_escape :: "bytes \<Rightarrow> (bytes \<times> bytes) option" where
  "u_escape s =
     (case hex4 s of
        None \<Rightarrow> None
      | Some (u, r) \<Rightarrow>
          if 0xD800 \<le> u \<and> u < 0xE000 then
            (case (if take 2 r = [CHR 0x5C, CHR ''u''] then hex4 (drop 2 r) else None) of
               Some (v, r') \<Rightarrow>
                 if u < 0xDC00 \<and> 0xDC00 \<le> v \<and> v < 0xE000
                 then Some (encode_rune ((u - 0xD800) * 1024 + (v - 0xDC00) + 0x10000), r')
                 else Some (replacement, r)
             | None \<Rightarrow> Some (replacement, r))
          else Some (encode_rune u, r))"

definition simple_escape :: "char \<Rightarrow> char option" where
  "simple_escape c =
     (if c = CHR 0x22 \<or> c = CHR 0x5C \<or> c = CHR ''/'' then Some c
      else if c = CHR ''b'' then Some (CHR 0x08)
      else if c = CHR ''f'' then Some (CHR 0x0C)
      else if c = CHR ''n'' then Some (CHR 0x0A)
      else if c = CHR ''r'' then Some (CHR 0x0D)
      else if c = CHR ''t'' then Some (CHR 0x09)
      else None)"

lemma hex4_length: "hex4 s = Some (u, r) \<Longrightarrow> length r < length s"
  by (induction s rule: hex4.induct) (auto split: option.splits)

lemma u_escape_length: "u_escape s = Some (w, r) \<Longrightarrow> length r < length s"
  unfolding u_escape_def
  by (auto split: option.splits prod.splits if_splits dest!: hex4_length)

text \<open>The rest of a string after its opening quote: its value, and what follows the closing quote.\<close>

function parse_string :: "bytes \<Rightarrow> (bytes \<times> bytes) option" where
  "parse_string [] = None"
| "parse_string (c # s) =
     (if c = CHR 0x22 then Some ([], s)
      else if c = CHR 0x5C then
        (case s of
           [] \<Rightarrow> None
         | e # t \<Rightarrow>
             (case (if e = CHR ''u'' then u_escape t
                    else map_option (\<lambda>x. ([x], t)) (simple_escape e)) of
                None \<Rightarrow> None
              | Some (w, t') \<Rightarrow> map_option (\<lambda>(v, r). (w @ v, r)) (parse_string t')))
      else if byte_in 0 0x1F c then None
      else if rune_width (c # s) = 0
        then map_option (\<lambda>(v, r). (replacement @ v, r)) (parse_string s)
      else map_option (\<lambda>(v, r). (take (rune_width (c # s)) (c # s) @ v, r))
             (parse_string (drop (rune_width (c # s)) (c # s))))"
  by pat_completeness auto
termination
  by (relation "measure length")
    (auto simp: less_Suc_eq_le split: if_splits dest!: u_escape_length)

declare parse_string.simps(2) [simp del]

definition digits_of :: "bytes \<Rightarrow> bytes \<times> bytes" where
  "digits_of s = (takeWhile (\<lambda>c. digit_val c \<noteq> None) s, dropWhile (\<lambda>c. digit_val c \<noteq> None) s)"

text \<open>The parts of a number literal: what each consumes, or None where it is malformed.\<close>

definition num_int :: "bytes \<Rightarrow> (bytes \<times> bytes) option" where
  "num_int s =
     (case s of
        c # r \<Rightarrow> if c = CHR ''0'' then Some ([c], r)
                 else if digit_val c \<noteq> None then Some (digits_of s) else None
      | [] \<Rightarrow> None)"

definition num_frac :: "bytes \<Rightarrow> (bytes \<times> bytes) option" where
  "num_frac s =
     (case s of
        c # r \<Rightarrow> if c \<noteq> CHR ''.'' then Some ([], s)
                 else (case digits_of r of (ds, r') \<Rightarrow> if ds = [] then None else Some (c # ds, r'))
      | [] \<Rightarrow> Some ([], s))"

definition num_exp :: "bytes \<Rightarrow> (bytes \<times> bytes) option" where
  "num_exp s =
     (case s of
        c # r \<Rightarrow>
          if c \<noteq> CHR ''e'' \<and> c \<noteq> CHR ''E'' then Some ([], s)
          else (let sign = (if has_prefix r ''+'' \<or> has_prefix r ''-'' then take 1 r else []) in
                case digits_of (drop (length sign) r) of
                  (ds, r') \<Rightarrow> if ds = [] then None else Some (c # sign @ ds, r'))
      | [] \<Rightarrow> Some ([], s))"

definition parse_number :: "bytes \<Rightarrow> (bytes \<times> bytes) option" where
  "parse_number s =
     (let sign = (if has_prefix s ''-'' then ''-'' else []) in
      case num_int (drop (length sign) s) of
        None \<Rightarrow> None
      | Some (i, r) \<Rightarrow>
          (case num_frac r of
             None \<Rightarrow> None
           | Some (f, r') \<Rightarrow>
               (case num_exp r' of
                  None \<Rightarrow> None
                | Some (e, r'') \<Rightarrow> Some (sign @ i @ f @ e, r''))))"

text \<open>
  A value, the elements of an array after its bracket, and the members of an object after
  its brace. The first argument is fuel, one unit per call; the second how many levels of
  nesting are left of the 10000 that the scanner allows.
\<close>

fun parse_value :: "nat \<Rightarrow> nat \<Rightarrow> bytes \<Rightarrow> (json \<times> bytes) option"
  and parse_elems :: "nat \<Rightarrow> nat \<Rightarrow> bytes \<Rightarrow> (json list \<times> bytes) option"
  and parse_members :: "nat \<Rightarrow> nat \<Rightarrow> bytes \<Rightarrow> ((bytes \<times> json) list \<times> bytes) option" where
  "parse_value 0 depth s = None"
| "parse_value (Suc n) depth s =
     (case skip_ws s of
        [] \<Rightarrow> None
      | c # r \<Rightarrow>
          if c = CHR ''{'' then
            (if depth = 0 then None
             else if has_prefix (skip_ws r) ''}'' then Some (JObj [], tl (skip_ws r))
             else map_option (\<lambda>(ms, t). (JObj ms, t)) (parse_members n (depth - 1) r))
          else if c = CHR ''['' then
            (if depth = 0 then None
             else if has_prefix (skip_ws r) '']'' then Some (JArr [], tl (skip_ws r))
             else map_option (\<lambda>(vs, t). (JArr vs, t)) (parse_elems n (depth - 1) r))
          else if c = CHR 0x22 then map_option (\<lambda>(v, t). (JStr v, t)) (parse_string r)
          else if has_prefix (c # r) ''true'' then Some (JBool True, drop 4 (c # r))
          else if has_prefix (c # r) ''false'' then Some (JBool False, drop 5 (c # r))
          else if has_prefix (c # r) ''null'' then Some (JNull, drop 4 (c # r))
          else map_option (\<lambda>(v, t). (JNum v, t)) (parse_number (c # r)))"
| "parse_elems 0 depth s = None"
| "parse_elems (Suc n) depth s =
     (case parse_value n depth s of
        None \<Rightarrow> None
      | Some (v, r) \<Rightarrow>
          (case skip_ws r of
             [] \<Rightarrow> None
           | c # t \<Rightarrow>
               if c = CHR '']'' then Some ([v], t)
               else if c = CHR '','' then
                 map_option (\<lambda>(vs, u). (v # vs, u)) (parse_elems n depth t)
               else None))"
| "parse_members 0 depth s = None"
| "parse_members (Suc n) depth s =
     (case skip_ws s of
        [] \<Rightarrow> None
      | q # s' \<Rightarrow>
          if q \<noteq> CHR 0x22 then None
          else (case parse_string s' of
             None \<Rightarrow> None
           | Some (k, r) \<Rightarrow>
               if \<not> has_prefix (skip_ws r) '':'' then None
               else (case parse_value n depth (tl (skip_ws r)) of
                  None \<Rightarrow> None
                | Some (v, u) \<Rightarrow>
                    (case skip_ws u of
                       [] \<Rightarrow> None
                     | c # t \<Rightarrow>
                         if c = CHR ''}'' then Some ([(k, v)], t)
                         else if c = CHR '','' then
                           map_option (\<lambda>(ms, w). ((k, v) # ms, w)) (parse_members n depth t)
                         else None))))"

text \<open>A whole document: one value, and nothing but white space after it.\<close>

definition json_parse :: "bytes \<Rightarrow> json option" where
  "json_parse s =
     (case parse_value (2 * length s + 2) 10000 s of
        Some (v, r) \<Rightarrow> if skip_ws r = [] then Some v else None
      | None \<Rightarrow> None)"

subsection \<open>Consumption and fuel\<close>

lemma skip_ws_length: "length (skip_ws s) \<le> length s"
  by (simp add: skip_ws_def length_dropWhile_le)

lemma skip_ws_Cons_length: "skip_ws s = c # t \<Longrightarrow> length t < length s"
  using skip_ws_length [of s] by simp

lemma parse_string_length: "parse_string s = Some (v, r) \<Longrightarrow> length r < length s"
proof (induction s arbitrary: v r rule: parse_string.induct)
  case (2 c s)
  let ?w = "rune_width (c # s)"
  show ?case
  proof (cases "c = CHR 0x22 \<or> c = CHR 0x5C")
    case True
    with "2.prems" "2.IH"(1) show ?thesis
      by (fastforce simp: parse_string.simps(2) dest: u_escape_length split: list.splits option.splits if_splits)
  next
    case False
    with "2.prems" have nz: "\<not> byte_in 0 0x1F c" by (auto simp: parse_string.simps(2) split: if_splits)
    show ?thesis
    proof (cases "?w = 0")
      case True
      with False nz "2.prems" obtain v' where "parse_string s = Some (v', r)"
        by (auto simp: parse_string.simps(2))
      then have "length r < length s" using "2.IH"(2) False nz True by blast
      then show ?thesis by simp
    next
      case False2: False
      with False nz "2.prems" obtain v' where "parse_string (drop ?w (c # s)) = Some (v', r)"
        by (auto simp: parse_string.simps(2))
      then have "length r < length (drop ?w (c # s))" using "2.IH"(3) False nz False2 by blast
      then show ?thesis by simp
    qed
  qed
qed simp

lemma digits_of_length: "digits_of s = (ds, r) \<Longrightarrow> length s = length ds + length r"
  by (auto simp: digits_of_def simp flip: length_append)

lemma num_int_length: "num_int s = Some (i, r) \<Longrightarrow> length r < length s"
  by (auto simp: num_int_def digits_of_def split: list.splits if_splits)
    (metis length_dropWhile_le less_Suc_eq_le)

lemma num_frac_length: "num_frac s = Some (i, r) \<Longrightarrow> length r \<le> length s"
  by (auto simp: num_frac_def digits_of_def intro: le_SucI length_dropWhile_le split: list.splits if_splits prod.splits)

lemma num_exp_length: "num_exp s = Some (i, r) \<Longrightarrow> length r \<le> length s"
  by (cases s) (auto simp: num_exp_def Let_def split: if_splits prod.splits dest!: digits_of_length)

lemma parse_number_length: "parse_number s = Some (v, r) \<Longrightarrow> length r < length s"
  unfolding parse_number_def Let_def
  by (auto split: option.splits prod.splits if_splits
      dest!: num_int_length num_frac_length num_exp_length)

text \<open>What a parser returns starts after what it was given, and each call shortens the text.\<close>

lemma parse_value_length:
  "parse_value n d s = Some (v, r) \<Longrightarrow> length r < length s"
  "parse_elems n d s = Some (vs, r) \<Longrightarrow> length r < length s"
  "parse_members n d s = Some (ms, r) \<Longrightarrow> length r < length s"
proof (induction n d s and n d s and n d s arbitrary: v r and vs r and ms r
    rule: parse_value_parse_elems_parse_members.induct)
  case (2 n d s)
  then obtain c t where ct: "skip_ws s = c # t" by (cases "skip_ws s") auto
  have t: "length t < length s" using ct by (rule skip_ws_Cons_length)
  have t1: "length (tl (skip_ws t)) < length s" using t skip_ws_length [of t] by simp
  consider (obj) "c = CHR ''{''" | (arr) "c = CHR ''[''" | (str) "c = CHR 0x22"
    | (other) "c \<noteq> CHR ''{''" "c \<noteq> CHR ''[''" "c \<noteq> CHR 0x22" by blast
  then show ?case
  proof cases
    case obj
    with "2.prems" ct t t1 "2.IH"(1) show ?thesis
      by (auto split: if_splits) (meson less_trans)
  next
    case arr
    with "2.prems" ct t t1 "2.IH"(2) show ?thesis
      by (auto split: if_splits) (meson less_trans)
  next
    case str
    with "2.prems" ct t show ?thesis by (auto dest!: parse_string_length)
  next
    case other
    then have "r = drop 4 (c # t) \<or> r = drop 5 (c # t) \<or> (\<exists>x. parse_number (c # t) = Some (x, r))"
      using "2.prems" ct by (auto split: if_splits)
    then have "length r < length (c # t)" by (auto dest: parse_number_length)
    then show ?thesis using t by simp
  qed
next
  case (4 n d s)
  then obtain v r' c t where v: "parse_value n d s = Some (v, r')" and ct: "skip_ws r' = c # t"
    by (auto simp: parse_elems.simps(2) split: option.splits list.splits)
  have "length t < length s" using "4.IH"(1) [OF v] skip_ws_Cons_length [OF ct] by linarith
  moreover have "t = r \<or> length r < length t"
    using "4.prems" v ct "4.IH"(2) by (auto split: if_splits)
  ultimately show ?case by auto
next
  case (6 n d s)
  then obtain q s' k r1 v u c t where q: "skip_ws s = q # s'" and k: "parse_string s' = Some (k, r1)"
    and co: "has_prefix (skip_ws r1) '':''" and v: "parse_value n d (tl (skip_ws r1)) = Some (v, u)"
    and ct: "skip_ws u = c # t"
    by (auto split: option.splits list.splits if_splits)
  have "length u < length (tl (skip_ws r1))"
    using "6.prems" q k co v "6.IH"(1) by (auto split: if_splits)
  then have "length t < length s"
    using skip_ws_Cons_length [OF q] skip_ws_Cons_length [OF ct] parse_string_length [OF k]
      skip_ws_length [of r1] by simp
  moreover have "t = r \<or> length r < length t"
    using "6.prems" q k co v ct "6.IH"(2) by (auto split: if_splits)
  ultimately show ?case by auto
qed auto

declare parse_value.simps(2) [simp del] parse_elems.simps(2) [simp del] parse_members.simps(2) [simp del]

text \<open>More fuel changes nothing once a value was found.\<close>

lemma parse_value_more_fuel:
  "parse_value n d s = Some x \<Longrightarrow> parse_value (Suc n) d s = Some x"
  "parse_elems n d s = Some xs \<Longrightarrow> parse_elems (Suc n) d s = Some xs"
  "parse_members n d s = Some ms \<Longrightarrow> parse_members (Suc n) d s = Some ms"
proof (induction n d s and n d s and n d s arbitrary: x and xs and ms
    rule: parse_value_parse_elems_parse_members.induct)
  case (2 n d s)
  then obtain c t where ct: "skip_ws s = c # t" by (cases "skip_ws s") (auto simp: parse_value.simps(2))
  consider (obj) "c = CHR ''{''" | (arr) "c = CHR ''[''"
    | (other) "c \<noteq> CHR ''{''" "c \<noteq> CHR ''[''" by blast
  then show ?case
  proof cases
    case obj
    with "2.prems" ct "2.IH"(1) [OF ct] show ?thesis
      by (auto simp: parse_value.simps(2) split: if_splits)
  next
    case arr
    with "2.prems" ct "2.IH"(2) [OF ct] show ?thesis
      by (auto simp: parse_value.simps(2) split: if_splits)
  next
    case other
    with "2.prems" ct show ?thesis by (simp add: parse_value.simps(2))
  qed
next
  case (4 n d s)
  then obtain v r c t where v: "parse_value n d s = Some (v, r)" and ct: "skip_ws r = c # t"
    by (auto simp: parse_elems.simps(2) split: option.splits list.splits)
  from "4.IH"(1) [OF v] have v': "parse_value (Suc n) d s = Some (v, r)" .
  show ?case
  proof (cases "c = CHR '','' \<and> c \<noteq> CHR '']''")
    case True
    with "4.prems" v ct obtain us u where us: "parse_elems n d t = Some (us, u)" "xs = (v # us, u)"
      by (auto simp: parse_elems.simps(2))
    have "parse_elems (Suc n) d t = Some (us, u)"
      using "4.IH"(2) [OF v _ ct] True us(1) by simp
    then show ?thesis using True v' ct us(2) by (simp add: parse_elems.simps(2) [of "Suc n"])
  next
    case False
    with "4.prems" v v' ct show ?thesis
      by (auto simp: parse_elems.simps(2) [of n] parse_elems.simps(2) [of "Suc n"] split: if_splits)
  qed
next
  case (6 n d s)
  then obtain q s' k r1 v u c t where q: "skip_ws s = q # s'" "q = CHR 0x22"
    and k: "parse_string s' = Some (k, r1)"
    and co: "has_prefix (skip_ws r1) '':''" and v: "parse_value n d (tl (skip_ws r1)) = Some (v, u)"
    and ct: "skip_ws u = c # t"
    by (auto simp: parse_members.simps(2) split: option.splits list.splits if_splits)
  have v': "parse_value (Suc n) d (tl (skip_ws r1)) = Some (v, u)"
    using "6.IH"(1) q k co v by auto
  show ?case
  proof (cases "c = CHR '','' \<and> c \<noteq> CHR ''}''")
    case True
    with "6.prems" q k co v ct obtain us w where us: "parse_members n d t = Some (us, w)" "ms = ((k, v) # us, w)"
      by (auto simp: parse_members.simps(2))
    have "parse_members (Suc n) d t = Some (us, w)"
      using "6.IH"(2) q k co v ct True us(1) by simp
    then show ?thesis using True q k co v' ct us(2) by (simp add: parse_members.simps(2) [of "Suc n"])
  next
    case False
    with "6.prems" q k co v v' ct show ?thesis
      by (auto simp: parse_members.simps(2) [of n] parse_members.simps(2) [of "Suc n"] split: if_splits)
  qed
qed auto

lemma parse_value_mono:
  assumes "n \<le> m"
  shows "parse_value n d s = Some x \<Longrightarrow> parse_value m d s = Some x"
    and "parse_elems n d s = Some xs \<Longrightarrow> parse_elems m d s = Some xs"
    and "parse_members n d s = Some ms \<Longrightarrow> parse_members m d s = Some ms"
  using assms by (induction m rule: dec_induct) (auto intro: parse_value_more_fuel)

text \<open>
  The fuel of \<open>json_parse\<close> is enough: two calls per byte at most, so whatever some amount of
  fuel finds is found.
\<close>

lemma parse_value_enough:
  "parse_value n d s = Some x \<Longrightarrow> 2 * length s \<le> m \<Longrightarrow> parse_value (Suc m) d s = Some x"
  "parse_elems n d s = Some xs \<Longrightarrow> 2 * length s < m \<Longrightarrow> parse_elems (Suc m) d s = Some xs"
  "parse_members n d s = Some ms \<Longrightarrow> 2 * length s < m \<Longrightarrow> parse_members (Suc m) d s = Some ms"
proof (induction n d s and n d s and n d s arbitrary: m x and m xs and m ms
    rule: parse_value_parse_elems_parse_members.induct)
  case (2 n d s)
  then obtain c t where ct: "skip_ws s = c # t" by (cases "skip_ws s") (auto simp: parse_value.simps(2))
  then have t: "length t < length s" by (rule skip_ws_Cons_length)
  then obtain m' where m: "m = Suc m'" "2 * length t < m'"
    using "2.prems"(2) by (cases m) auto
  consider (obj) "c = CHR ''{''" | (arr) "c = CHR ''[''"
    | (other) "c \<noteq> CHR ''{''" "c \<noteq> CHR ''[''" by blast
  then show ?case
  proof cases
    case obj
    with "2.prems"(1) ct "2.IH"(1) [OF ct, of _ m'] m show ?thesis
      by (auto simp: parse_value.simps(2) split: if_splits)
  next
    case arr
    with "2.prems"(1) ct "2.IH"(2) [OF ct, of _ m'] m show ?thesis
      by (auto simp: parse_value.simps(2) split: if_splits)
  next
    case other
    with "2.prems"(1) ct show ?thesis by (simp add: parse_value.simps(2))
  qed
next
  case (4 n d s)
  then obtain v r c t where v: "parse_value n d s = Some (v, r)" and ct: "skip_ws r = c # t"
    by (auto simp: parse_elems.simps(2) split: option.splits list.splits)
  have "length t < length s"
    using skip_ws_Cons_length [OF ct] parse_value_length(1) [OF v] by simp
  then obtain m' where m: "m = Suc m'" "2 * length s \<le> m'" "2 * length t < m'"
    using "4.prems"(2) by (cases m) auto
  from "4.IH"(1) [OF v m(2)] have v': "parse_value m d s = Some (v, r)" by (simp only: m(1))
  show ?case
  proof (cases "c = CHR '','' \<and> c \<noteq> CHR '']''")
    case True
    with "4.prems"(1) v ct obtain us u where us: "parse_elems n d t = Some (us, u)" "xs = (v # us, u)"
      by (auto simp: parse_elems.simps(2))
    have "parse_elems m d t = Some (us, u)"
      using "4.IH"(2) [OF v _ ct] True us(1) m by simp
    then show ?thesis using True v' ct us(2) by (simp add: parse_elems.simps(2))
  next
    case False
    with "4.prems"(1) v v' ct show ?thesis
      by (auto simp: parse_elems.simps(2) split: if_splits)
  qed
next
  case (6 n d s)
  then obtain q s' k r1 v u c t where q: "skip_ws s = q # s'" "q = CHR 0x22"
    and k: "parse_string s' = Some (k, r1)"
    and co: "has_prefix (skip_ws r1) '':''" and v: "parse_value n d (tl (skip_ws r1)) = Some (v, u)"
    and ct: "skip_ws u = c # t"
    by (auto simp: parse_members.simps(2) split: option.splits list.splits if_splits)
  have "length (tl (skip_ws r1)) < length s"
    using skip_ws_Cons_length [OF q(1)] parse_string_length [OF k] skip_ws_length [of r1] by simp
  moreover have "length t < length (tl (skip_ws r1))"
    using skip_ws_Cons_length [OF ct] parse_value_length(1) [OF v] by simp
  ultimately obtain m' where m: "m = Suc m'" "2 * length (tl (skip_ws r1)) \<le> m'" "2 * length t < m'"
    using "6.prems"(2) by (cases m) auto
  have v': "parse_value m d (tl (skip_ws r1)) = Some (v, u)"
    using "6.IH"(1) q k co v m by auto
  show ?case
  proof (cases "c = CHR '','' \<and> c \<noteq> CHR ''}''")
    case True
    with "6.prems"(1) q k co v ct obtain us w where
      us: "parse_members n d t = Some (us, w)" "ms = ((k, v) # us, w)"
      by (auto simp: parse_members.simps(2))
    have "parse_members m d t = Some (us, w)"
      using "6.IH"(2) q k co v ct True us(1) m by simp
    then show ?thesis using True q k co v' ct us(2) by (simp add: parse_members.simps(2))
  next
    case False
    with "6.prems"(1) q k co v v' ct show ?thesis
      by (auto simp: parse_members.simps(2) split: if_splits)
  qed
qed auto

lemma json_parse_complete:
  "parse_value n 10000 s = Some (v, r) \<Longrightarrow> skip_ws r = [] \<Longrightarrow> json_parse s = Some v"
  using parse_value_enough(1) [of n 10000 s "(v, r)" "2 * length s + 1"]
  by (simp add: json_parse_def)

subsection \<open>Printing\<close>

definition hex_digit :: "nat \<Rightarrow> char" where
  "hex_digit n = (if n < 10 then digit_char n else char_of (87 + n))"

definition quote_char :: "char \<Rightarrow> bytes" where
  "quote_char c =
     (if c = CHR 0x22 then [CHR 0x5C, CHR 0x22]
      else if c = CHR 0x5C then [CHR 0x5C, CHR 0x5C]
      else if byte_in 0 0x1F c then
        [CHR 0x5C, CHR ''u'', CHR ''0'', CHR ''0'', hex_digit (of_char c div 16), hex_digit (of_char c mod 16)]
      else [c])"

definition quote :: "bytes \<Rightarrow> bytes" where
  "quote s = CHR 0x22 # concat (map quote_char s) @ [CHR 0x22]"

fun print_json :: "json \<Rightarrow> bytes" where
  "print_json JNull = ''null''"
| "print_json (JBool b) = (if b then ''true'' else ''false'')"
| "print_json (JNum l) = l"
| "print_json (JStr s) = quote s"
| "print_json (JArr vs) = CHR ''['' # join_with CHR '','' (map print_json vs) @ '']''"
| "print_json (JObj ms) =
     CHR ''{'' # join_with CHR '','' (map (\<lambda>(k, v). quote k @ CHR '':'' # print_json v) ms) @ ''}''"

text \<open>
  The values that are printed here: their strings are valid UTF-8, their numbers integers,
  and they fit in a given depth of nesting.
\<close>

fun json_ok :: "nat \<Rightarrow> json \<Rightarrow> bool" where
  "json_ok d (JNum l) \<longleftrightarrow> (\<exists>i. l = itoa i)"
| "json_ok d (JStr s) \<longleftrightarrow> valid_utf8 s"
| "json_ok d (JArr vs) \<longleftrightarrow> 0 < d \<and> (\<forall>v \<in> set vs. json_ok (d - 1) v)"
| "json_ok d (JObj ms) \<longleftrightarrow> 0 < d \<and> (\<forall>(k, v) \<in> set ms. valid_utf8 k \<and> json_ok (d - 1) v)"
| "json_ok d _ \<longleftrightarrow> True"

text \<open>Reading back a quoted string.\<close>

lemma hex_val_digit: "n < 16 \<Longrightarrow> hex_val (hex_digit n) = Some n"
  by (auto simp: hex_val_def hex_digit_def digit_char_def digit_val_def ascii_lower_def Let_def)

lemma of_char_bound: "(of_char c :: nat) \<le> 255"
  using nat_of_char_less_256 [of c] by linarith

lemma is_rune_cases:
  assumes "is_rune w"
  obtains (ascii) a where "w = [a]" "byte_in 0 0x7F a"
  | (multi) a r where "w = a # r" "\<forall>c \<in> set w. byte_in 0x80 0xFF c"
proof (cases w)
  case Nil
  with assms show ?thesis by (simp add: is_rune_def)
next
  case (Cons a r)
  show ?thesis
  proof (cases "byte_in 0 0x7F a")
    case True
    with assms Cons have "r = []" by (simp add: is_rune_def rune_width.simps)
    with True Cons ascii show ?thesis by blast
  next
    case False
    have c: "cont_byte c" if "c \<in> set r" for c
    proof -
      obtain i where "i < length r" "c = r ! i" using \<open>c \<in> set r\<close> by (metis in_set_conv_nth)
      then show ?thesis using rune_cont_bytes [of "Suc i" w] assms Cons by (simp add: is_rune_def)
    qed
    have "byte_in 0x80 0xFF a" using False of_char_bound [of a] by (simp add: byte_in_def Let_def)
    moreover have "byte_in 0x80 0xFF x" if "cont_byte x" for x
      using that by (simp add: cont_byte_def byte_in_def Let_def)
    ultimately show ?thesis using c Cons multi by auto
  qed
qed

lemma quote_char_high: "byte_in 0x80 0xFF c \<Longrightarrow> quote_char c = [c]"
  by (auto simp: quote_char_def byte_in_def)

lemma concat_quote_high: "\<forall>c \<in> set w. byte_in 0x80 0xFF c \<Longrightarrow> concat (map quote_char w) = w"
  by (induction w) (simp_all add: quote_char_high)

lemma u_escape_control:
  assumes "byte_in 0 0x1F c"
  shows "u_escape (CHR ''0'' # CHR ''0'' # hex_digit (of_char c div 16) # hex_digit (of_char c mod 16) # r)
    = Some ([c], r)"
proof -
  define n where "n = (of_char c :: nat)"
  have n: "n < 32" using assms by (simp add: byte_in_def n_def)
  have "c = char_of n" by (simp add: n_def)
  moreover have "hex_val (CHR ''0'') = Some 0" by (simp add: hex_val_def digit_val_def)
  moreover have "hex_val (hex_digit (n div 16)) = Some (n div 16)" "hex_val (hex_digit (n mod 16)) = Some (n mod 16)"
    using n by (simp_all add: hex_val_digit)
  moreover have "n div 16 * 16 + n mod 16 = n" by simp
  ultimately show ?thesis using n unfolding n_def [symmetric]
    by (simp add: u_escape_def encode_rune_def)
qed

lemma parse_string_quote_ascii:
  assumes "byte_in 0 0x7F a" and "parse_string rest = Some (v, r)"
  shows "parse_string (quote_char a @ rest) = Some (a # v, r)"
proof -
  have "rune_width (a # rest) = 1" using assms(1) by (simp add: rune_width.simps)
  then show ?thesis using assms u_escape_control [of a rest]
    by (auto simp: quote_char_def parse_string.simps(2) simple_escape_def)
qed

lemma parse_string_quote:
  "valid_utf8 s \<Longrightarrow> parse_string (concat (map quote_char s) @ CHR 0x22 # r) = Some (s, r)"
proof (induction s rule: valid_utf8_induct)
  case Nil
  show ?case by (simp add: parse_string.simps(2))
next
  case (rune w s)
  let ?rest = "concat (map quote_char s) @ CHR 0x22 # r"
  from \<open>is_rune w\<close> show ?case
  proof (cases w rule: is_rune_cases)
    case (ascii a)
    then show ?thesis using parse_string_quote_ascii [OF ascii(2) rune.IH] by simp
  next
    case (multi a t)
    then have a: "a \<noteq> CHR 0x22" "a \<noteq> CHR 0x5C" "\<not> byte_in 0 0x1F a"
      by (auto simp: byte_in_def)
    have "rune_width (w @ ?rest) = length w" using \<open>is_rune w\<close> by (rule is_rune_append)
    then have "parse_string (w @ ?rest) = Some (w @ s, r)" using rune.IH a multi(1)
      by (simp add: parse_string.simps(2))
    then show ?thesis by (simp add: concat_quote_high [OF multi(2)])
  qed
qed

text \<open>Reading back an integer.\<close>

definition delimited :: "bytes \<Rightarrow> bool" where
  "delimited r \<longleftrightarrow> r = [] \<or> hd r \<in> {CHR '','', CHR '']'', CHR ''}''}"

lemma dec_hd_nonzero: "0 < n \<Longrightarrow> hd (dec n) \<noteq> CHR ''0''"
proof (induction n rule: dec.induct)
  case (1 n)
  have "digit_char n \<noteq> CHR ''0''" if "n < 10"
    using that "1.prems" digit_val_char [of n] by (auto simp: digit_val_def)
  then show ?case using 1 by (subst dec.simps) (auto simp: hd_append)
qed

lemma dec_zero: "dec 0 = [CHR ''0'']"
  by code_simp

lemma delimited_not_digit: "delimited r \<Longrightarrow> r \<noteq> [] \<Longrightarrow> digit_val (hd r) = None"
  by (auto simp: delimited_def digit_val_def)

lemma digits_of_dec: "delimited r \<Longrightarrow> digits_of (dec n @ r) = (dec n, r)"
  using all_digits_dec [of n] delimited_not_digit [of r] unfolding all_digits_def digits_of_def
  by (cases r) (auto simp: takeWhile_append2 dropWhile_append2)

lemma num_int_dec: "delimited r \<Longrightarrow> num_int (dec n @ r) = Some (dec n, r)"
proof (cases "n = 0")
  case False
  assume "delimited r"
  obtain c t where "dec n = c # t" by (cases "dec n") simp_all
  then show ?thesis using False digits_of_dec [OF \<open>delimited r\<close>, of n] dec_hd_nonzero [of n]
      hd_dec_digit [of n] by (simp add: num_int_def)
qed (simp add: dec_zero num_int_def)

lemma num_tail_delimited: "delimited r \<Longrightarrow> num_frac r = Some ([], r) \<and> num_exp r = Some ([], r)"
  by (cases r) (auto simp: num_frac_def num_exp_def delimited_def)

lemma parse_number_itoa: "delimited r \<Longrightarrow> parse_number (itoa i @ r) = Some (itoa i, r)"
proof -
  assume d: "delimited r"
  have "\<not> has_prefix (dec n @ r) ''-''" for n
    using hd_dec_digit [of n] by (cases "dec n") (auto simp: has_prefix_def)
  then show ?thesis using d num_tail_delimited [OF d]
    by (simp add: parse_number_def itoa_def num_int_dec has_prefix_def)
qed

lemma itoa_first: "\<exists>c t. itoa i = c # t \<and> (c = CHR ''-'' \<or> digit_val c \<noteq> None)"
  using hd_dec_digit by (cases "dec (nat i)") (auto simp: itoa_def, metis dec_nonempty hd_dec_digit list.sel(1))

text \<open>Reading back a printed value.\<close>

lemma print_first:
  assumes "json_ok d j"
  obtains c t where "print_json j = c # t" "\<not> json_space c" "c \<noteq> CHR '']''" "c \<noteq> CHR ''}''"
proof (cases j)
  case (JNum l)
  then obtain i where "l = itoa i" using assms by auto
  then obtain c t where ct: "l = c # t" "c = CHR ''-'' \<or> digit_val c \<noteq> None"
    using itoa_first [of i] by blast
  then have "\<not> json_space c" "c \<noteq> CHR '']''" "c \<noteq> CHR ''}''"
    by (auto simp: json_space_def digit_val_def)
  with JNum ct(1) that show ?thesis by simp
next
  case (JBool b)
  with that show ?thesis by (cases b) (simp_all add: json_space_def)
qed (use that in \<open>simp_all add: json_space_def quote_def\<close>)

lemma skip_ws_first: "\<not> json_space c \<Longrightarrow> skip_ws (c # t) = c # t"
  by (simp add: skip_ws_def)

lemma parse_elems_print:
  assumes "vs \<noteq> []"
    and "\<And>v r. v \<in> set vs \<Longrightarrow> delimited r \<Longrightarrow> \<exists>n. parse_value n d (print_json v @ r) = Some (v, r)"
  shows "\<exists>n. parse_elems n d (join_with CHR '','' (map print_json vs) @ CHR '']'' # r) = Some (vs, r)"
  using assms
proof (induction vs rule: list_nonempty_induct)
  case (single v)
  obtain n where "parse_value n d (print_json v @ CHR '']'' # r) = Some (v, CHR '']'' # r)"
    using single(1) [of v "CHR '']'' # r"] by (auto simp: delimited_def)
  then have "parse_elems (Suc n) d (print_json v @ CHR '']'' # r) = Some ([v], r)"
    by (simp add: parse_elems.simps(2) skip_ws_first json_space_def)
  then show ?case by (auto intro!: exI [of _ "Suc n"])
next
  case (cons v vs)
  let ?rest = "join_with CHR '','' (map print_json vs) @ CHR '']'' # r"
  obtain n where n: "parse_value n d (print_json v @ CHR '','' # ?rest) = Some (v, CHR '','' # ?rest)"
    using cons.prems [of v "CHR '','' # ?rest"] by (auto simp: delimited_def)
  obtain m where m: "parse_elems m d ?rest = Some (vs, r)"
    using cons.IH cons.prems by (meson list.set_intros(2))
  let ?k = "max n m"
  have "parse_value ?k d (print_json v @ CHR '','' # ?rest) = Some (v, CHR '','' # ?rest)"
    using n by (rule parse_value_mono(1) [rotated]) simp
  moreover have "parse_elems ?k d ?rest = Some (vs, r)"
    using m by (rule parse_value_mono(2) [rotated]) simp
  ultimately have "parse_elems (Suc ?k) d (print_json v @ CHR '','' # ?rest) = Some (v # vs, r)"
    by (simp add: parse_elems.simps(2) skip_ws_first json_space_def)
  moreover have "join_with CHR '','' (map print_json (v # vs)) @ CHR '']'' # r
      = print_json v @ CHR '','' # ?rest"
    using cons.hyps by (cases vs) simp_all
  ultimately show ?case by metis
qed

definition print_member :: "bytes \<times> json \<Rightarrow> bytes" where
  "print_member = (\<lambda>(k, v). quote k @ CHR '':'' # print_json v)"

lemma parse_member_step:
  assumes "valid_utf8 k" and "parse_value n d (print_json v @ c # t) = Some (v, c # t)"
    and "\<not> json_space c"
  shows "parse_members (Suc n) d (print_member (k, v) @ c # t) =
    (if c = CHR ''}'' then Some ([(k, v)], t)
     else if c = CHR '','' then map_option (\<lambda>(ms, w). ((k, v) # ms, w)) (parse_members n d t)
     else None)"
proof -
  let ?val = "print_json v @ c # t"
  have "parse_string (concat (map quote_char k) @ CHR 0x22 # CHR '':'' # ?val) = Some (k, CHR '':'' # ?val)"
    using assms(1) by (rule parse_string_quote)
  then show ?thesis using assms(2,3)
    by (simp add: print_member_def quote_def parse_members.simps(2) skip_ws_first json_space_def has_prefix_def)
qed

lemma parse_members_print:
  assumes "ms \<noteq> []" and "\<forall>(k, v) \<in> set ms. valid_utf8 k"
    and "\<And>k v r. (k, v) \<in> set ms \<Longrightarrow> delimited r \<Longrightarrow> \<exists>n. parse_value n d (print_json v @ r) = Some (v, r)"
  shows "\<exists>n. parse_members n d (join_with CHR '','' (map print_member ms) @ CHR ''}'' # r) = Some (ms, r)"
  using assms
proof (induction ms rule: list_nonempty_induct)
  case (single kv)
  obtain k v where kv: "kv = (k, v)" by (cases kv)
  obtain n where "parse_value n d (print_json v @ CHR ''}'' # r) = Some (v, CHR ''}'' # r)"
    using single(2) [of k v "CHR ''}'' # r"] kv by (auto simp: delimited_def)
  then have "parse_members (Suc n) d (print_member kv @ CHR ''}'' # r) = Some ([kv], r)"
    using single(1) kv by (simp add: parse_member_step json_space_def)
  then show ?case by (auto intro!: exI [of _ "Suc n"])
next
  case (cons kv ms)
  obtain k v where kv: "kv = (k, v)" by (cases kv)
  let ?rest = "join_with CHR '','' (map print_member ms) @ CHR ''}'' # r"
  obtain n where n: "parse_value n d (print_json v @ CHR '','' # ?rest) = Some (v, CHR '','' # ?rest)"
    using cons.prems(2) [of k v "CHR '','' # ?rest"] kv by (auto simp: delimited_def)
  have "\<forall>(k, v) \<in> set ms. valid_utf8 k" using cons.prems(1) by simp
  then obtain m where m: "parse_members m d ?rest = Some (ms, r)"
    using cons.IH cons.prems(2) by (meson list.set_intros(2))
  let ?k = "max n m"
  have "parse_value ?k d (print_json v @ CHR '','' # ?rest) = Some (v, CHR '','' # ?rest)"
    using n by (rule parse_value_mono(1) [rotated]) simp
  moreover have "parse_members ?k d ?rest = Some (ms, r)"
    using m by (rule parse_value_mono(3) [rotated]) simp
  ultimately have "parse_members (Suc ?k) d (print_member kv @ CHR '','' # ?rest) = Some (kv # ms, r)"
    using cons.prems(1) kv by (simp add: parse_member_step json_space_def)
  moreover have "join_with CHR '','' (map print_member (kv # ms)) @ CHR ''}'' # r
      = print_member kv @ CHR '','' # ?rest"
    using cons.hyps by (cases ms) simp_all
  ultimately show ?case by metis
qed

lemma parse_value_number:
  assumes "delimited r" shows "parse_value (Suc n) d (itoa i @ r) = Some (JNum (itoa i), r)"
proof -
  obtain c t where ct: "itoa i = c # t" "c = CHR ''-'' \<or> digit_val c \<noteq> None"
    using itoa_first by blast
  then have c: "\<not> json_space c" "c \<noteq> CHR ''{''" "c \<noteq> CHR ''[''" "c \<noteq> CHR 0x22"
    "c \<noteq> CHR ''t''" "c \<noteq> CHR ''f''" "c \<noteq> CHR ''n''"
    by (auto simp: json_space_def digit_val_def)
  have "parse_number (c # t @ r) = Some (c # t, r)" using parse_number_itoa [OF assms, of i] ct(1) by simp
  with c ct(1) show ?thesis by (simp add: parse_value.simps(2) skip_ws_first has_prefix_def)
qed

lemma parse_value_print:
  "json_ok d j \<Longrightarrow> delimited r \<Longrightarrow> \<exists>n. parse_value n d (print_json j @ r) = Some (j, r)"
proof (induction j arbitrary: d r)
  case JNull
  have "parse_value (Suc 0) d (print_json JNull @ r) = Some (JNull, r)"
    by (simp add: parse_value.simps(2) skip_ws_first json_space_def has_prefix_def)
  then show ?case ..
next
  case (JBool b)
  have "parse_value (Suc 0) d (print_json (JBool b) @ r) = Some (JBool b, r)"
    by (simp add: parse_value.simps(2) skip_ws_first json_space_def has_prefix_def)
  then show ?case ..
next
  case (JNum l)
  then show ?case using parse_value_number [OF JNum.prems(2)] by auto
next
  case (JStr s)
  then have "parse_value (Suc 0) d (print_json (JStr s) @ r) = Some (JStr s, r)"
    by (simp add: parse_value.simps(2) quote_def skip_ws_first json_space_def parse_string_quote)
  then show ?case ..
next
  case (JArr vs)
  show ?case
  proof (cases "vs = []")
    case True
    then have "parse_value (Suc 0) d (print_json (JArr vs) @ r) = Some (JArr vs, r)"
      using JArr.prems(1) by (simp add: parse_value.simps(2) skip_ws_first json_space_def has_prefix_def)
    then show ?thesis ..
  next
    case False
    then obtain v ws where vs: "vs = v # ws" by (cases vs) simp_all
    have "json_ok (d - 1) v" using JArr.prems(1) vs by simp
    then obtain c t where ct: "print_json v = c # t" "\<not> json_space c" "c \<noteq> CHR '']''"
      by (rule print_first)
    have "\<exists>n. parse_elems n (d - 1) (join_with CHR '','' (map print_json vs) @ CHR '']'' # r) = Some (vs, r)"
      using JArr by (intro parse_elems_print False) auto
    then obtain n where
      n: "parse_elems n (d - 1) (join_with CHR '','' (map print_json vs) @ CHR '']'' # r) = Some (vs, r)" ..
    obtain u where u: "join_with CHR '','' (map print_json vs) = c # u"
      using vs ct(1) by (cases ws) simp_all
    have "parse_value (Suc n) d (print_json (JArr vs) @ r) = Some (JArr vs, r)"
      using n u ct(2,3) JArr.prems(1)
      by (simp add: parse_value.simps(2) skip_ws_first json_space_def has_prefix_def)
    then show ?thesis ..
  qed
next
  case (JObj ms)
  show ?case
  proof (cases "ms = []")
    case True
    then have "parse_value (Suc 0) d (print_json (JObj ms) @ r) = Some (JObj ms, r)"
      using JObj.prems(1) by (simp add: parse_value.simps(2) skip_ws_first json_space_def has_prefix_def)
    then show ?thesis ..
  next
    case False
    have "\<exists>n. parse_members n (d - 1) (join_with CHR '','' (map print_member ms) @ CHR ''}'' # r) = Some (ms, r)"
    proof (rule parse_members_print [OF False])
      show "\<forall>(k, v) \<in> set ms. valid_utf8 k" using JObj.prems(1) by auto
      fix k v and r' :: bytes
      assume kv: "(k, v) \<in> set ms" and "delimited r'"
      moreover have "json_ok (d - 1) v" using JObj.prems(1) kv by auto
      moreover have "v \<in> Basic_BNFs.snds (k, v)" by (simp add: snds.simps)
      ultimately show "\<exists>n. parse_value n (d - 1) (print_json v @ r') = Some (v, r')"
        using JObj.IH [OF kv] by blast
    qed
    then obtain n where
      n: "parse_members n (d - 1) (join_with CHR '','' (map print_member ms) @ CHR ''}'' # r) = Some (ms, r)" ..
    obtain u where u: "join_with CHR '','' (map print_member ms) = CHR 0x22 # u"
      using False by (cases ms; cases "tl ms") (auto simp: print_member_def quote_def)
    have "parse_value (Suc n) d (print_json (JObj ms) @ r) = Some (JObj ms, r)"
      using n u JObj.prems(1)
      by (simp add: parse_value.simps(2) skip_ws_first json_space_def has_prefix_def flip: print_member_def)
    then show ?thesis ..
  qed
qed

lemma json_parse_print: "json_ok 10000 j \<Longrightarrow> json_parse (print_json j) = Some j"
  using parse_value_print [of 10000 j "[]"] json_parse_complete [of _ "print_json j" j "[]"]
  by (auto simp: delimited_def skip_ws_def)

subsection \<open>Every string of a parsed document is valid UTF-8\<close>

fun json_valid :: "json \<Rightarrow> bool" where
  "json_valid (JStr s) \<longleftrightarrow> valid_utf8 s"
| "json_valid (JArr vs) \<longleftrightarrow> (\<forall>v \<in> set vs. json_valid v)"
| "json_valid (JObj ms) \<longleftrightarrow> (\<forall>(k, v) \<in> set ms. valid_utf8 k \<and> json_valid v)"
| "json_valid _ \<longleftrightarrow> True"

lemma u_escape_valid: "u_escape s = Some (w, r) \<Longrightarrow> valid_utf8 w"
  by (auto simp: u_escape_def valid_utf8_single is_rune_encode is_rune_replacement
      split: option.splits prod.splits if_splits)

lemma simple_escape_valid: "simple_escape c = Some x \<Longrightarrow> valid_utf8 [x]"
  by (auto simp: simple_escape_def valid_utf8_ascii byte_in_def split: if_splits)

lemma parse_string_valid: "parse_string s = Some (v, r) \<Longrightarrow> valid_utf8 v"
proof (induction s arbitrary: v r rule: parse_string.induct)
  case (2 c s)
  let ?w = "rune_width (c # s)"
  consider (stop) "c = CHR 0x22" | (esc) "c = CHR 0x5C"
    | (bad) "c \<noteq> CHR 0x22" "c \<noteq> CHR 0x5C" "?w = 0" | (raw) "c \<noteq> CHR 0x22" "c \<noteq> CHR 0x5C" "?w \<noteq> 0"
    by blast
  then show ?case
  proof cases
    case stop
    with "2.prems" show ?thesis by (simp add: parse_string.simps(2))
  next
    case esc
    with "2.prems" obtain e t w t' v' where s: "s = e # t"
      and w: "(if e = CHR ''u'' then u_escape t else map_option (\<lambda>x. ([x], t)) (simple_escape e)) = Some (w, t')"
      and v': "parse_string t' = Some (v', r)" "v = w @ v'"
      by (auto simp: parse_string.simps(2) split: list.splits option.splits)
    have "valid_utf8 v'" using "2.IH"(1) esc s w v'(1) by auto
    moreover have "valid_utf8 w" using w u_escape_valid simple_escape_valid by (auto split: if_splits)
    ultimately show ?thesis using v'(2) valid_utf8_append by simp
  next
    case bad
    with "2.prems" "2.IH"(2) show ?thesis
      by (auto simp: parse_string.simps(2) valid_utf8_rune is_rune_replacement split: if_splits)
  next
    case raw
    with "2.prems" obtain v' where n: "\<not> byte_in 0 0x1F c" and
      v': "parse_string (drop ?w (c # s)) = Some (v', r)" "v = take ?w (c # s) @ v'"
      by (auto simp: parse_string.simps(2) split: if_splits)
    have "valid_utf8 v'" using "2.IH"(3) raw n v'(1) by blast
    then show ?thesis using raw(3) v'(2) valid_utf8_rune [OF is_rune_take [OF raw(3)]] by simp
  qed
qed simp

lemma parse_value_valid:
  "parse_value n d s = Some (v, r) \<Longrightarrow> json_valid v"
  "parse_elems n d s = Some (vs, r) \<Longrightarrow> \<forall>v \<in> set vs. json_valid v"
  "parse_members n d s = Some (ms, r) \<Longrightarrow> \<forall>(k, v) \<in> set ms. valid_utf8 k \<and> json_valid v"
proof (induction n d s and n d s and n d s arbitrary: v r and vs r and ms r
    rule: parse_value_parse_elems_parse_members.induct)
  case (2 n d s)
  then obtain c t where ct: "skip_ws s = c # t" by (cases "skip_ws s") (auto simp: parse_value.simps(2))
  consider (obj) "c = CHR ''{''" | (arr) "c = CHR ''[''"
    | (other) "c \<noteq> CHR ''{''" "c \<noteq> CHR ''[''" by blast
  then show ?case
  proof cases
    case obj
    with "2.prems" ct "2.IH"(1) [OF ct] show ?thesis
      by (auto simp: parse_value.simps(2) split: if_splits)
  next
    case arr
    with "2.prems" ct "2.IH"(2) [OF ct] show ?thesis
      by (auto simp: parse_value.simps(2) split: if_splits)
  next
    case other
    with "2.prems" ct show ?thesis
      by (auto simp: parse_value.simps(2) dest: parse_string_valid split: if_splits)
  qed
next
  case (4 n d s)
  then obtain v r' c t where v: "parse_value n d s = Some (v, r')" and ct: "skip_ws r' = c # t"
    by (auto simp: parse_elems.simps(2) split: option.splits list.splits)
  with "4.prems" "4.IH"(1) [OF v] "4.IH"(2) [OF v _ ct] show ?case
    by (auto simp: parse_elems.simps(2) split: if_splits)
next
  case (6 n d s)
  then obtain q s' k r1 v u c t where q: "skip_ws s = q # s'" "q = CHR 0x22"
    and k: "parse_string s' = Some (k, r1)"
    and co: "has_prefix (skip_ws r1) '':''" and v: "parse_value n d (tl (skip_ws r1)) = Some (v, u)"
    and ct: "skip_ws u = c # t"
    by (auto simp: parse_members.simps(2) split: option.splits list.splits if_splits)
  have "json_valid v" using "6.IH"(1) q k co v by auto
  moreover have "valid_utf8 k" by (rule parse_string_valid [OF k])
  moreover have "\<forall>(k, v) \<in> set ms'. valid_utf8 k \<and> json_valid v"
    if "parse_members n d t = Some (ms', r)" "c = CHR '',''" for ms'
    using "6.IH"(2) q k co v ct that by simp
  ultimately show ?case using "6.prems" q k co v ct
    by (auto simp: parse_members.simps(2) split: if_splits)
qed auto

lemma json_parse_valid: "json_parse s = Some v \<Longrightarrow> json_valid v"
  by (auto simp: json_parse_def split: option.splits prod.splits if_splits dest: parse_value_valid(1))

subsection \<open>Unmarshalling\<close>

text \<open>
  The keys of an object select a struct field with case folded: of the runes outside ASCII
  only U+017F and U+212A fold to an ASCII letter, s and k. Field names are in lower case.
\<close>

fun fold_key :: "bytes \<Rightarrow> bytes" where
  "fold_key (a # b # c # s) =
     (if a = CHR 0xE2 \<and> b = CHR 0x84 \<and> c = CHR 0xAA then CHR ''k'' # fold_key s
      else if a = CHR 0xC5 \<and> b = CHR 0xBF then CHR ''s'' # fold_key (c # s)
      else ascii_lower a # fold_key (b # c # s))"
| "fold_key [a, b] =
     (if a = CHR 0xC5 \<and> b = CHR 0xBF then [CHR ''s''] else [ascii_lower a, ascii_lower b])"
| "fold_key [a] = [ascii_lower a]"
| "fold_key [] = []"

text \<open>Into a string variable that holds the empty string. None is an error.\<close>

definition unmarshal_string :: "json \<Rightarrow> bytes option" where
  "unmarshal_string j = (case j of JStr s \<Rightarrow> Some s | JNull \<Rightarrow> Some [] | _ \<Rightarrow> None)"

text \<open>Storing the members of an object into a Go map: a later member replaces an earlier one.\<close>

definition store_members :: "('k \<times> 'v) list \<Rightarrow> ('k \<times> 'v) list \<Rightarrow> ('k \<times> 'v) list" where
  "store_members ms m = fold (\<lambda>(k, v). AList.update k v) ms m"

text \<open>
  Into a map of raw messages, nil or not: an object is added to the map there is. The outer
  option is the error, the inner one nil.
\<close>

type_synonym raw_map = "(bytes \<times> json) list option"

definition unmarshal_map :: "raw_map \<Rightarrow> json \<Rightarrow> raw_map option" where
  "unmarshal_map m j =
     (case j of
        JObj ms \<Rightarrow> Some (Some (store_members ms (case m of None \<Rightarrow> [] | Some es \<Rightarrow> es)))
      | JNull \<Rightarrow> Some None
      | _ \<Rightarrow> None)"

text \<open>
  Into a struct: the members are stored in their order, each into the field its folded key
  names (a member that names none is skipped), and null changes nothing.
\<close>

fun store_fields :: "(bytes \<Rightarrow> json \<Rightarrow> 's \<Rightarrow> 's option) \<Rightarrow> (bytes \<times> json) list \<Rightarrow> 's \<Rightarrow> 's option" where
  "store_fields f [] s = Some s"
| "store_fields f ((k, v) # ms) s =
     (case f (fold_key k) v s of None \<Rightarrow> None | Some s' \<Rightarrow> store_fields f ms s')"

definition unmarshal_struct :: "(bytes \<Rightarrow> json \<Rightarrow> 's \<Rightarrow> 's option) \<Rightarrow> 's \<Rightarrow> json \<Rightarrow> 's option" where
  "unmarshal_struct f s j =
     (case j of JObj ms \<Rightarrow> store_fields f ms s | JNull \<Rightarrow> Some s | _ \<Rightarrow> None)"

text \<open>
  Into a slice of strings. The slice is its elements and what its array holds beyond them:
  an array is decoded element by element into that memory, where a null leaves what is there.
\<close>

type_synonym slice = "(bytes list \<times> bytes list) option"

definition slice_memory :: "slice \<Rightarrow> bytes list" where
  "slice_memory sl = (case sl of None \<Rightarrow> [] | Some (es, rest) \<Rightarrow> es @ rest)"

fun unmarshal_elems :: "bytes list \<Rightarrow> json list \<Rightarrow> (bytes list \<times> bytes list) option" where
  "unmarshal_elems mem [] = Some ([], mem)"
| "unmarshal_elems mem (x # xs) =
     (case (case x of JStr s \<Rightarrow> Some s | JNull \<Rightarrow> Some (case mem of [] \<Rightarrow> [] | m # _ \<Rightarrow> m) | _ \<Rightarrow> None) of
        None \<Rightarrow> None
      | Some e \<Rightarrow> map_option (\<lambda>(es, rest). (e # es, rest)) (unmarshal_elems (tl mem) xs))"

definition unmarshal_strings :: "slice \<Rightarrow> json \<Rightarrow> slice option" where
  "unmarshal_strings sl j =
     (case j of
        JNull \<Rightarrow> Some None
      | JArr xs \<Rightarrow> if xs = [] then Some (Some ([], []))
                  else map_option Some (unmarshal_elems (slice_memory sl) xs)
      | _ \<Rightarrow> None)"

text \<open>What every stored member keeps, unmarshalling into a struct keeps.\<close>

lemma store_fields_invariant:
  "store_fields f ms s = Some s' \<Longrightarrow> P s \<Longrightarrow>
   (\<And>k v s s'. (k, v) \<in> set ms \<Longrightarrow> P s \<Longrightarrow> f (fold_key k) v s = Some s' \<Longrightarrow> P s') \<Longrightarrow> P s'"
proof (induction ms arbitrary: s)
  case (Cons m ms)
  obtain k v where m: "m = (k, v)" by (cases m)
  obtain s1 where s1: "f (fold_key k) v s = Some s1" "store_fields f ms s1 = Some s'"
    using Cons.prems(1) m by (auto split: option.splits)
  have "P s1" using Cons.prems(2,3) s1(1) m by auto
  then show ?case using Cons.IH [OF s1(2)] Cons.prems(3) by auto
qed auto

lemma unmarshal_struct_invariant:
  assumes "unmarshal_struct f s j = Some s'" and "P s" and "json_valid j"
    and "\<And>k v s s'. json_valid v \<Longrightarrow> P s \<Longrightarrow> f k v s = Some s' \<Longrightarrow> P s'"
  shows "P s'"
proof (cases j)
  case (JObj ms)
  then have "store_fields f ms s = Some s'" using assms(1) by (simp add: unmarshal_struct_def)
  then show ?thesis
  proof (rule store_fields_invariant [where P = P])
    fix k v s s' assume "(k, v) \<in> set ms" "P s" "f (fold_key k) v s = Some s'"
    moreover have "json_valid v" using assms(3) JObj \<open>(k, v) \<in> set ms\<close> by auto
    ultimately show "P s'" using assms(4) by blast
  qed (rule assms(2))
qed (use assms(1,2) in \<open>auto simp: unmarshal_struct_def\<close>)

text \<open>The entries of a map of raw messages all come from the document.\<close>

definition entries_valid :: "(bytes \<times> json) list \<Rightarrow> bool" where
  "entries_valid es \<longleftrightarrow> (\<forall>(k, v) \<in> set es. json_valid v)"

definition raw_map_valid :: "raw_map \<Rightarrow> bool" where
  "raw_map_valid m \<longleftrightarrow> (case m of None \<Rightarrow> True | Some es \<Rightarrow> entries_valid es)"

lemma raw_map_valid_None [simp]: "raw_map_valid None"
  by (simp add: raw_map_valid_def)

lemma store_members_keys_distinct [wf_intros]: "keys_distinct m \<Longrightarrow> keys_distinct (store_members ms m)"
  unfolding store_members_def
  by (induction ms arbitrary: m) (auto simp: keys_distinct_update)

lemma unmarshal_map_distinct [wf_intros]:
  "unmarshal_map None j = Some (Some m) \<Longrightarrow> keys_distinct m"
  by (auto simp: unmarshal_map_def keys_distinct_def split: json.splits
      intro: store_members_keys_distinct [unfolded keys_distinct_def])

lemma store_members_distinct_id:
  "distinct (map fst (m @ ms)) \<Longrightarrow> store_members ms m = m @ ms"
proof (induction ms arbitrary: m)
  case (Cons kv ms)
  obtain k v where kv: "kv = (k, v)" by (cases kv)
  have "AList.update k v m = m @ [(k, v)]"
    using Cons.prems kv by (induction m) (auto simp: image_iff)
  then show ?case using Cons.IH [of "m @ [kv]"] Cons.prems kv by (simp add: store_members_def)
qed (simp add: store_members_def)

lemma set_update_subset: "set (AList.update k v m) \<subseteq> insert (k, v) (set m)"
  by (induction m) auto

lemma store_members_set: "set (store_members ms m) \<subseteq> set ms \<union> set m"
  unfolding store_members_def using set_update_subset
  by (induction ms arbitrary: m) (fastforce split: prod.splits)+

lemma store_members_valid: "entries_valid ms \<Longrightarrow> entries_valid m \<Longrightarrow> entries_valid (store_members ms m)"
  using store_members_set [of ms m] unfolding entries_valid_def by blast

lemma unmarshal_map_valid [wf_intros]:
  "unmarshal_map m j = Some m' \<Longrightarrow> raw_map_valid m \<Longrightarrow> json_valid j \<Longrightarrow> raw_map_valid m'"
proof -
  assume h: "unmarshal_map m j = Some m'" "raw_map_valid m" "json_valid j"
  show ?thesis
  proof (cases j)
    case (JObj ms)
    then have "entries_valid ms" using h(3) by (auto simp: entries_valid_def)
    moreover have "entries_valid (case m of None \<Rightarrow> [] | Some es \<Rightarrow> es)"
      using h(2) by (cases m) (simp_all add: raw_map_valid_def entries_valid_def)
    ultimately show ?thesis using h(1) JObj store_members_valid
      by (auto simp: unmarshal_map_def raw_map_valid_def)
  qed (use h(1) in \<open>auto simp: unmarshal_map_def\<close>)
qed

lemma unmarshal_elems_length:
  "unmarshal_elems mem xs = Some (es, rest) \<Longrightarrow> length es = length xs"
  by (induction mem xs arbitrary: es rest rule: unmarshal_elems.induct) (auto split: option.splits)

lemma unmarshal_elems_strings: "unmarshal_elems mem (map JStr ss) = Some (ss, drop (length ss) mem)"
  by (induction ss arbitrary: mem) (auto simp: drop_Suc)

end
