(* ===== verification/Model.thy ===== *)
theory Model
  imports Go_Strconv "HOL-Library.Word"
begin

text \<open>
  The data model of \<open>internal/mlxlink/model.go\<close>, struct by struct, and the invariant of
  decoded data: every exported number is a finite \<open>float64\<close>, every family names a lane at
  most once, and every text that becomes a label is valid UTF-8. A nil slice and an empty
  slice are both the empty list, which no reader of these structs can tell apart. Field names
  that several structs share carry a prefix of their struct.
\<close>

subsection \<open>Error reasons\<close>

text \<open>
  \<open>ErrorReason\<close> is a string type with seven constants; \<open>NoReason\<close> is its zero value, the
  empty string, which a result carries when there is nothing to report.
\<close>

datatype error_reason =
  NoReason
| ReasonTimeout
| ReasonCommandNotFound
| ReasonPermissionDenied
| ReasonExitError
| ReasonInvalidJSON
| ReasonOutputTooLarge
| ReasonUnknown

fun reason_string :: "error_reason \<Rightarrow> bytes" where
  "reason_string NoReason = ''''"
| "reason_string ReasonTimeout = ''timeout''"
| "reason_string ReasonCommandNotFound = ''command_not_found''"
| "reason_string ReasonPermissionDenied = ''permission_denied''"
| "reason_string ReasonExitError = ''exit_error''"
| "reason_string ReasonInvalidJSON = ''invalid_json''"
| "reason_string ReasonOutputTooLarge = ''output_too_large''"
| "reason_string ReasonUnknown = ''unknown''"

definition exported_reasons :: "error_reason set" where
  "exported_reasons =
     {ReasonTimeout, ReasonCommandNotFound, ReasonPermissionDenied, ReasonExitError,
      ReasonInvalidJSON, ReasonOutputTooLarge, ReasonUnknown}"

lemma reason_string_inject [simp]: "reason_string r = reason_string r' \<longleftrightarrow> r = r'"
  by (cases r; cases r') simp_all

lemma reason_string_valid [simp]: "valid_utf8 (reason_string r)"
  by (cases r; simp add: valid_utf8_ascii byte_in_def)

lemma exported_reasons_iff: "r \<in> exported_reasons \<longleftrightarrow> r \<noteq> NoReason"
  by (cases r) (simp_all add: exported_reasons_def)

subsection \<open>Samples\<close>

record float_value =
  Float :: float64
  Valid :: bool

definition no_value :: float_value where
  "no_value = \<lparr> Float = f_of_nat 0, Valid = False \<rparr>"

record lane_value =
  Lane :: int
  LaneFloat :: float64

record target =
  Device :: bytes
  Port :: bytes
  PCIAddr :: bytes
  NetDev :: bytes

subsection \<open>The decoded result of one invocation\<close>

record eye =
  EyeInitialFOM :: "lane_value list"
  EyeLastFOM :: "lane_value list"
  EyeUpperGrade :: "lane_value list"
  EyeMidGrade :: "lane_value list"
  EyeLowerGrade :: "lane_value list"

record pcie_eye =
  PCIeInitialFOM :: "lane_value list"
  PCIeLastFOM :: "lane_value list"

record fec_bin =
  Bin :: int
  ErrorCountMin :: "64 word"
  ErrorCountMax :: "64 word"
  Occurrences :: "64 word"

record fir_coefficient =
  FIRLane :: int
  FIRTap :: bytes
  FIRValue :: float64

record serdes_tx =
  FIRCoefficients :: "fir_coefficient list"
  DriveAmplitude :: "lane_value list"

record link_info =
  LinkState :: bytes
  LinkPhysicalState :: bytes
  LinkSpeed :: bytes
  LinkWidth :: bytes
  LinkFEC :: bytes
  LinkAutoNegotiation :: bytes

record counters =
  EffectivePhysicalErrors :: float_value
  LinkDown :: float_value
  LinkErrorRecovery :: float_value
  EffectiveBER :: float_value
  RawBER :: float_value
  RawPhysicalErrorsLane :: "lane_value list"
  RawBERLane :: "lane_value list"

record module_info =
  Identifier :: bytes
  Vendor :: bytes
  PartNumber :: bytes
  SerialNumber :: bytes
  Revision :: bytes
  FirmwareVersion :: bytes
  ActiveHostCompliance :: bytes
  ActiveMediaCompliance :: bytes
  CableType :: bytes

record module_data =
  TemperatureCelsius :: float_value
  VoltageVolts :: float_value
  BiasCurrentAmperes :: "lane_value list"
  RxPowerDBm :: "lane_value list"
  TxPowerDBm :: "lane_value list"
  ModuleFWFault :: float_value
  DatapathFWFault :: float_value
  TxFault :: "lane_value list"
  TxLOS :: "lane_value list"
  RxLOS :: "lane_value list"
  TxCDRLOL :: "lane_value list"
  RxCDRLOL :: "lane_value list"
  DatapathActive :: "lane_value list"
  ModuleInventory :: module_info

record port_data =
  PortLink :: link_info
  PortCounters :: counters
  PortModule :: module_data
  PortFECHistogram :: "fec_bin list"
  PortSerDesTX :: serdes_tx
  PortEye :: eye

subsection \<open>Zero values\<close>

definition no_eye :: eye where
  "no_eye = \<lparr> EyeInitialFOM = [], EyeLastFOM = [], EyeUpperGrade = [], EyeMidGrade = [],
     EyeLowerGrade = [] \<rparr>"

definition no_pcie_eye :: pcie_eye where
  "no_pcie_eye = \<lparr> PCIeInitialFOM = [], PCIeLastFOM = [] \<rparr>"

definition no_serdes :: serdes_tx where
  "no_serdes = \<lparr> FIRCoefficients = [], DriveAmplitude = [] \<rparr>"

definition no_link :: link_info where
  "no_link = \<lparr> LinkState = [], LinkPhysicalState = [], LinkSpeed = [], LinkWidth = [],
     LinkFEC = [], LinkAutoNegotiation = [] \<rparr>"

definition no_counters :: counters where
  "no_counters = \<lparr> EffectivePhysicalErrors = no_value, LinkDown = no_value,
     LinkErrorRecovery = no_value, EffectiveBER = no_value, RawBER = no_value,
     RawPhysicalErrorsLane = [], RawBERLane = [] \<rparr>"

definition no_module_info :: module_info where
  "no_module_info = \<lparr> Identifier = [], Vendor = [], PartNumber = [], SerialNumber = [],
     Revision = [], FirmwareVersion = [], ActiveHostCompliance = [],
     ActiveMediaCompliance = [], CableType = [] \<rparr>"

definition no_module :: module_data where
  "no_module = \<lparr> TemperatureCelsius = no_value, VoltageVolts = no_value,
     BiasCurrentAmperes = [], RxPowerDBm = [], TxPowerDBm = [],
     ModuleFWFault = no_value, DatapathFWFault = no_value,
     TxFault = [], TxLOS = [], RxLOS = [], TxCDRLOL = [], RxCDRLOL = [],
     DatapathActive = [], ModuleInventory = no_module_info \<rparr>"

definition no_port_data :: port_data where
  "no_port_data = \<lparr> PortLink = no_link, PortCounters = no_counters, PortModule = no_module,
     PortFECHistogram = [], PortSerDesTX = no_serdes, PortEye = no_eye \<rparr>"

lemmas zero_values = no_value_def no_eye_def no_pcie_eye_def no_serdes_def no_link_def
  no_counters_def no_module_info_def no_module_def no_port_data_def

subsection \<open>The invariant of decoded data\<close>

text \<open>A number Prometheus may receive, and a family with one sample per lane.\<close>

definition number_ok :: "float64 \<Rightarrow> bool" where
  "number_ok x \<longleftrightarrow> f_wf x \<and> f_finite x"

definition value_ok :: "float_value \<Rightarrow> bool" where
  "value_ok v \<longleftrightarrow> (Valid v \<longrightarrow> number_ok (Float v))"

definition lanes_ok :: "lane_value list \<Rightarrow> bool" where
  "lanes_ok vs \<longleftrightarrow> sorted_wrt (<) (map Lane vs) \<and> (\<forall>v \<in> set vs. 0 \<le> Lane v \<and> number_ok (LaneFloat v))"

definition link_ok :: "link_info \<Rightarrow> bool" where
  "link_ok l \<longleftrightarrow> list_all valid_utf8
     [LinkState l, LinkPhysicalState l, LinkSpeed l, LinkWidth l, LinkFEC l, LinkAutoNegotiation l]"

definition counters_ok :: "counters \<Rightarrow> bool" where
  "counters_ok c \<longleftrightarrow>
     list_all value_ok [EffectivePhysicalErrors c, LinkDown c, LinkErrorRecovery c,
       EffectiveBER c, RawBER c] \<and>
     list_all lanes_ok [RawPhysicalErrorsLane c, RawBERLane c]"

definition module_info_ok :: "module_info \<Rightarrow> bool" where
  "module_info_ok i \<longleftrightarrow> list_all valid_utf8
     [Identifier i, Vendor i, PartNumber i, SerialNumber i, Revision i, FirmwareVersion i,
      ActiveHostCompliance i, ActiveMediaCompliance i, CableType i]"

text \<open>A flag of a fault or activity family is 0 or 1.\<close>

definition flag_ok :: "float64 \<Rightarrow> bool" where
  "flag_ok x \<longleftrightarrow> x = f_of_nat 0 \<or> x = f_of_nat 1"

definition flags_ok :: "lane_value list \<Rightarrow> bool" where
  "flags_ok vs \<longleftrightarrow> map Lane vs = map int [0..<length vs] \<and> (\<forall>v \<in> set vs. flag_ok (LaneFloat v))"

definition module_ok :: "module_data \<Rightarrow> bool" where
  "module_ok m \<longleftrightarrow>
     list_all value_ok [TemperatureCelsius m, VoltageVolts m] \<and>
     list_all lanes_ok [BiasCurrentAmperes m, RxPowerDBm m, TxPowerDBm m] \<and>
     list_all (\<lambda>v. Valid v \<longrightarrow> flag_ok (Float v)) [ModuleFWFault m, DatapathFWFault m] \<and>
     list_all flags_ok [TxFault m, TxLOS m, RxLOS m, TxCDRLOL m, RxCDRLOL m, DatapathActive m] \<and>
     module_info_ok (ModuleInventory m)"

text \<open>The bins are the run 0, 1, ... and every range has its ends in order.\<close>

definition fec_ok :: "fec_bin list \<Rightarrow> bool" where
  "fec_ok bins \<longleftrightarrow> map Bin bins = map int [0..<length bins] \<and>
     (\<forall>b \<in> set bins. ErrorCountMin b \<le> ErrorCountMax b)"

definition fir_taps :: "bytes set" where
  "fir_taps = {''pre3'', ''pre2'', ''pre1'', ''main'', ''post1''}"

definition fir_key :: "fir_coefficient \<Rightarrow> int \<times> bytes" where
  "fir_key c = (FIRLane c, FIRTap c)"

definition serdes_ok :: "serdes_tx \<Rightarrow> bool" where
  "serdes_ok s \<longleftrightarrow> lanes_ok (DriveAmplitude s) \<and> distinct (map fir_key (FIRCoefficients s)) \<and>
     (\<forall>c \<in> set (FIRCoefficients s). 0 \<le> FIRLane c \<and> FIRTap c \<in> fir_taps \<and> number_ok (FIRValue c))"

text \<open>The families of an eye name the same lanes.\<close>

definition eye_ok :: "eye \<Rightarrow> bool" where
  "eye_ok e \<longleftrightarrow>
     list_all (\<lambda>f. lanes_ok f \<and> map Lane f = map Lane (EyeInitialFOM e))
       [EyeInitialFOM e, EyeLastFOM e, EyeUpperGrade e, EyeMidGrade e, EyeLowerGrade e]"

definition pcie_eye_ok :: "pcie_eye \<Rightarrow> bool" where
  "pcie_eye_ok e \<longleftrightarrow>
     list_all (\<lambda>f. lanes_ok f \<and> map Lane f = map Lane (PCIeInitialFOM e))
       [PCIeInitialFOM e, PCIeLastFOM e]"

definition port_data_ok :: "port_data \<Rightarrow> bool" where
  "port_data_ok p \<longleftrightarrow> link_ok (PortLink p) \<and> counters_ok (PortCounters p) \<and>
     module_ok (PortModule p) \<and> fec_ok (PortFECHistogram p) \<and> serdes_ok (PortSerDesTX p) \<and>
     eye_ok (PortEye p)"

lemma flag_ok_number: "flag_ok x \<Longrightarrow> number_ok x"
  by (auto simp: flag_ok_def number_ok_def f_of_nat_wf f_of_nat_finite)

lemma flags_ok_lanes [wf_intros]: "flags_ok vs \<Longrightarrow> lanes_ok vs"
proof -
  assume f: "flags_ok vs"
  have "sorted_wrt (<) (map int [0..<length vs])" by (simp add: sorted_wrt_map sorted_wrt_mono_rel)
  moreover have "0 \<le> Lane v" if "v \<in> set vs" for v
  proof -
    have "Lane v \<in> set (map Lane vs)" using that by simp
    also have "set (map Lane vs) = int ` {0..<length vs}" using f by (simp add: flags_ok_def)
    finally show ?thesis by auto
  qed
  ultimately show ?thesis using f flag_ok_number by (auto simp: lanes_ok_def flags_ok_def)
qed

lemma lanes_ok_distinct: "lanes_ok vs \<Longrightarrow> distinct (map Lane vs)"
  by (simp add: lanes_ok_def strict_sorted_iff)

lemma lanes_ok_Nil [simp]: "lanes_ok []"
  by (simp add: lanes_ok_def)

lemma flags_ok_Nil [simp]: "flags_ok []"
  by (simp add: flags_ok_def)

lemma value_ok_none [simp]: "value_ok no_value"
  by (simp add: value_ok_def no_value_def)

lemma number_ok_count [simp]: "number_ok (f_of_nat (unat (w :: 64 word)))"
proof -
  have "unat w < 2 ^ LENGTH(64)" by (rule unsigned_less)
  then show ?thesis by (simp add: number_ok_def f_of_nat_wf f_of_nat_finite)
qed

lemma zero_values_ok:
  "port_data_ok no_port_data" "pcie_eye_ok no_pcie_eye" "serdes_ok no_serdes" "eye_ok no_eye"
  by (simp_all add: port_data_ok_def link_ok_def counters_ok_def module_ok_def module_info_ok_def
      fec_ok_def serdes_ok_def eye_ok_def pcie_eye_ok_def zero_values value_ok_def)

end
