(* ===== verification/Sections.thy ===== *)
theory Sections
  imports Go_Json Model
begin

text \<open>
  The part of \<open>internal/mlxlink/decoder.go\<close> that finds sections and fields: the canonical
  names, the table of mlxlink's spellings, and reading a field as a string or as a list of
  values. A section is a Go map of raw messages, nil or not: an association list whose order
  is the order in which a \<open>range\<close> happens to visit it. Nothing a section is decoded to may
  depend on that order.
\<close>

subsection \<open>Names\<close>

abbreviation sectionModule :: bytes where "sectionModule \<equiv> ''module_info''"
abbreviation sectionOperational :: bytes where "sectionOperational \<equiv> ''operational_info''"
abbreviation sectionCounters :: bytes where "sectionCounters \<equiv> ''counters_info''"
abbreviation sectionFECHistogram :: bytes where "sectionFECHistogram \<equiv> ''fec_histogram''"
abbreviation sectionSerDesTX :: bytes where "sectionSerDesTX \<equiv> ''serdes_tx''"
abbreviation sectionEye :: bytes where "sectionEye \<equiv> ''eye''"
abbreviation sectionPCIeEye :: bytes where "sectionPCIeEye \<equiv> ''pcie_eye''"

abbreviation fieldState :: bytes where "fieldState \<equiv> ''state''"
abbreviation fieldPhysicalState :: bytes where "fieldPhysicalState \<equiv> ''physical_state''"
abbreviation fieldSpeed :: bytes where "fieldSpeed \<equiv> ''speed''"
abbreviation fieldWidth :: bytes where "fieldWidth \<equiv> ''width''"
abbreviation fieldFEC :: bytes where "fieldFEC \<equiv> ''fec''"
abbreviation fieldAutoNegotiation :: bytes where "fieldAutoNegotiation \<equiv> ''auto_negotiation''"

abbreviation fieldEffectivePhysicalErrors :: bytes where
  "fieldEffectivePhysicalErrors \<equiv> ''effective_physical_errors''"
abbreviation fieldLinkDown :: bytes where "fieldLinkDown \<equiv> ''link_down''"
abbreviation fieldLinkErrorRecovery :: bytes where "fieldLinkErrorRecovery \<equiv> ''link_error_recovery''"
abbreviation fieldEffectiveBER :: bytes where "fieldEffectiveBER \<equiv> ''effective_ber''"
abbreviation fieldRawBER :: bytes where "fieldRawBER \<equiv> ''raw_ber''"
abbreviation fieldRawBERPerLane :: bytes where "fieldRawBERPerLane \<equiv> ''raw_ber_per_lane''"
abbreviation fieldRawErrorsPerLane :: bytes where "fieldRawErrorsPerLane \<equiv> ''raw_errors_per_lane''"

abbreviation fieldTemperature :: bytes where "fieldTemperature \<equiv> ''temperature''"
abbreviation fieldVoltage :: bytes where "fieldVoltage \<equiv> ''voltage''"
abbreviation fieldBiasCurrent :: bytes where "fieldBiasCurrent \<equiv> ''bias_current''"
abbreviation fieldRxPower :: bytes where "fieldRxPower \<equiv> ''rx_power''"
abbreviation fieldTxPower :: bytes where "fieldTxPower \<equiv> ''tx_power''"
abbreviation fieldModuleFWFault :: bytes where "fieldModuleFWFault \<equiv> ''module_fw_fault''"
abbreviation fieldDatapathFWFault :: bytes where "fieldDatapathFWFault \<equiv> ''datapath_fw_fault''"
abbreviation fieldTxFault :: bytes where "fieldTxFault \<equiv> ''tx_fault''"
abbreviation fieldTxLOS :: bytes where "fieldTxLOS \<equiv> ''tx_los''"
abbreviation fieldRxLOS :: bytes where "fieldRxLOS \<equiv> ''rx_los''"
abbreviation fieldTxCDRLOL :: bytes where "fieldTxCDRLOL \<equiv> ''tx_cdr_lol''"
abbreviation fieldRxCDRLOL :: bytes where "fieldRxCDRLOL \<equiv> ''rx_cdr_lol''"
abbreviation fieldDatapathState :: bytes where "fieldDatapathState \<equiv> ''datapath_state''"

abbreviation fieldIdentifier :: bytes where "fieldIdentifier \<equiv> ''identifier''"
abbreviation fieldVendor :: bytes where "fieldVendor \<equiv> ''vendor''"
abbreviation fieldPartNumber :: bytes where "fieldPartNumber \<equiv> ''part_number''"
abbreviation fieldSerialNumber :: bytes where "fieldSerialNumber \<equiv> ''serial_number''"
abbreviation fieldRevision :: bytes where "fieldRevision \<equiv> ''revision''"
abbreviation fieldFirmwareVersion :: bytes where "fieldFirmwareVersion \<equiv> ''firmware_version''"
abbreviation fieldActiveHostCompliance :: bytes where
  "fieldActiveHostCompliance \<equiv> ''active_host_compliance''"
abbreviation fieldActiveMediaCompliance :: bytes where
  "fieldActiveMediaCompliance \<equiv> ''active_media_compliance''"
abbreviation fieldCableType :: bytes where "fieldCableType \<equiv> ''cable_type''"

definition fieldAliases :: "(bytes \<times> bytes) list" where
  "fieldAliases = [
    (sectionModule, ''Module Info''),
    (sectionOperational, ''Operational Info''),
    (sectionCounters, ''Physical Counters and BER Info''),
    (sectionFECHistogram, ''Histogram of FEC Errors''),
    (sectionSerDesTX, ''Serdes Tuning Transmitter Info''),
    (sectionEye, ''EYE Opening Info''),
    (sectionPCIeEye, ''EYE Opening Info (PCIe)''),

    (fieldState, ''State''),
    (fieldPhysicalState, ''Physical state''),
    (fieldSpeed, ''Speed''),
    (fieldWidth, ''Width''),
    (fieldFEC, ''FEC''),
    (fieldAutoNegotiation, ''Auto Negotiation''),

    (fieldEffectivePhysicalErrors, ''Effective Physical Errors''),
    (fieldLinkDown, ''Link Down Counter''),
    (fieldLinkErrorRecovery, ''Link Error Recovery Counter''),
    (fieldEffectiveBER, ''Effective Physical BER''),
    (fieldRawBER, ''Raw Physical BER''),
    (fieldRawBERPerLane, ''Raw Physical BER Per Lane''),
    (fieldRawErrorsPerLane, ''Raw Physical Errors Per Lane''),

    (fieldTemperature, ''Temperature [C]''),
    (fieldVoltage, ''Voltage [mV]''),
    (fieldBiasCurrent, ''Bias Current [mA]''),
    (fieldRxPower, ''Rx Power Current [dBm]''),
    (fieldTxPower, ''Tx Power Current [dBm]''),
    (fieldModuleFWFault, ''Module FW Fault''),
    (fieldDatapathFWFault, ''DataPath FW Fault''),
    (fieldTxFault, ''Tx Fault [per lane]''),
    (fieldTxLOS, ''Tx LOS [per lane]''),
    (fieldRxLOS, ''Rx LOS [per lane]''),
    (fieldTxCDRLOL, ''Tx CDR LOL [per lane]''),
    (fieldRxCDRLOL, ''Rx CDR LOL [per lane]''),
    (fieldDatapathState, ''DataPath state [per lane]''),

    (fieldIdentifier, ''Identifier''),
    (fieldVendor, ''Vendor Name''),
    (fieldPartNumber, ''Vendor Part Number''),
    (fieldSerialNumber, ''Vendor Serial Number''),
    (fieldRevision, ''Rev''),
    (fieldFirmwareVersion, ''FW Version''),
    (fieldActiveHostCompliance, ''Active Set Host Compliance Code''),
    (fieldActiveMediaCompliance, ''Active Set Media Compliance Code''),
    (fieldCableType, ''Cable Type'')]"

text \<open>Reading a Go map of strings: a missing key reads as the empty string.\<close>

definition field_key :: "bytes \<Rightarrow> bytes" where
  "field_key canonical = (case map_of fieldAliases canonical of None \<Rightarrow> [] | Some k \<Rightarrow> k)"

text \<open>A section, and a lookup in it: no key of a nil map is present.\<close>

type_synonym json_section = raw_map

definition entries :: "json_section \<Rightarrow> (bytes \<times> json) list" where
  "entries sec = (case sec of None \<Rightarrow> [] | Some es \<Rightarrow> es)"

definition sec_get :: "json_section \<Rightarrow> bytes \<Rightarrow> json option" where
  "sec_get sec key = map_of (entries sec) key"

subsection \<open>Reading a section\<close>

text \<open>The anonymous struct \<open>{ Values []string }\<close> of a per-lane field.\<close>

definition store_values :: "bytes \<Rightarrow> json \<Rightarrow> slice \<Rightarrow> slice option" where
  "store_values key v sl = (if key = ''values'' then unmarshal_strings sl v else Some sl)"

definition unmarshal_values :: "json \<Rightarrow> bytes list option option" where
  "unmarshal_values raw = map_option (map_option fst) (unmarshal_struct store_values None raw)"

text \<open>
  \<open>rawValues\<close>: of a raw message that may be missing. The values have to be an array.
\<close>

definition raw_values :: "json option \<Rightarrow> bytes list option" where
  "raw_values raw =
     (case raw of
        None \<Rightarrow> None
      | Some j \<Rightarrow> (case unmarshal_values j of None \<Rightarrow> None | Some vs \<Rightarrow> vs))"

definition section_of :: "(bytes \<times> json) list \<Rightarrow> bytes \<Rightarrow> json_section" where
  "section_of output canonical =
     (case map_of output (field_key canonical) of
        None \<Rightarrow> None
      | Some raw \<Rightarrow> (case unmarshal_map None raw of None \<Rightarrow> None | Some sec \<Rightarrow> sec))"

definition lookup_field :: "json_section \<Rightarrow> bytes \<Rightarrow> json option" where
  "lookup_field sec canonical = sec_get sec (field_key canonical)"

definition string_field :: "json_section \<Rightarrow> bytes \<Rightarrow> bytes" where
  "string_field sec canonical =
     (case lookup_field sec canonical of
        None \<Rightarrow> ''''
      | Some raw \<Rightarrow> (case unmarshal_string raw of None \<Rightarrow> '''' | Some v \<Rightarrow> trim_space v))"

definition values_field :: "json_section \<Rightarrow> bytes \<Rightarrow> bytes list" where
  "values_field sec canonical =
     (case lookup_field sec canonical of
        None \<Rightarrow> []
      | Some raw \<Rightarrow> (case unmarshal_values raw of Some (Some vs) \<Rightarrow> vs | _ \<Rightarrow> []))"

subsection \<open>Facts\<close>

text \<open>A text that is read from a valid document is valid UTF-8, trimmed or not.\<close>

lemma section_of_valid [wf_intros]: "entries_valid output \<Longrightarrow> raw_map_valid (section_of output canonical)"
  unfolding section_of_def
  by (auto simp: entries_valid_def split: option.splits dest!: map_of_SomeD intro: unmarshal_map_valid)

lemma sec_get_valid: "raw_map_valid sec \<Longrightarrow> sec_get sec key = Some v \<Longrightarrow> json_valid v"
  by (auto simp: sec_get_def entries_def raw_map_valid_def entries_valid_def split: option.splits
      dest!: map_of_SomeD)

lemma string_field_valid [wf_intros]: "raw_map_valid sec \<Longrightarrow> valid_utf8 (string_field sec canonical)"
  unfolding string_field_def lookup_field_def
  by (auto simp: unmarshal_string_def valid_trim_space split: option.splits json.splits dest: sec_get_valid)

lemma sec_get_None [simp]: "sec_get None key = None"
  by (simp add: sec_get_def entries_def)

lemma field_None [simp]: "string_field None canonical = ''''" "values_field None canonical = []"
  by (simp_all add: string_field_def values_field_def lookup_field_def)

lemma map_of_filter_keys:
  "map_of (filter (\<lambda>(k, v). P k) es) key = (if P key then map_of es key else None)"
  by (induction es) auto

lemma section_of_filter:
  "section_of (filter (\<lambda>(k, v). P k) output) canonical =
     (if P (field_key canonical) then section_of output canonical else None)"
  by (simp add: section_of_def map_of_filter_keys)

lemma sec_get_perm:
  "mset es = mset es' \<Longrightarrow> keys_distinct es \<Longrightarrow> sec_get (Some es) = sec_get (Some es')"
  by (rule ext) (simp add: sec_get_def entries_def map_of_perm [of es es'])

text \<open>The per-lane form as mlxlink prints it.\<close>

definition values_json :: "bytes list \<Rightarrow> json" where
  "values_json vs = JObj [(''values'', JArr (map JStr vs))]"

lemma unmarshal_values_json [simp]: "unmarshal_values (values_json vs) = Some (Some vs)"
proof -
  have "fold_key ''values'' = ''values''" by code_simp
  then have "unmarshal_values (values_json vs) = map_option (map_option fst) (unmarshal_strings None (JArr (map JStr vs)))"
    by (simp add: unmarshal_values_def values_json_def unmarshal_struct_def store_values_def
        split: option.splits)
  also have "\<dots> = Some (Some vs)"
    using unmarshal_elems_strings [of "[]" vs]
    by (cases "vs = []") (simp_all add: unmarshal_strings_def slice_memory_def)
  finally show ?thesis .
qed

lemma raw_values_json [simp]: "raw_values (Some (values_json vs)) = Some vs"
  by (simp add: raw_values_def)

end
