(* ===== verification/Scalars.thy ===== *)
theory Scalars
  imports Model
begin

text \<open>
  The leaves of \<open>internal/mlxlink/decoder.go\<close>: numbers, flags and states as mlxlink prints
  them, and the families of lanes read from a list of them. The lemmas say that no number
  that leaves here is infinite or NaN, and which families are read entirely or not at all.
\<close>

subsection \<open>Scalars\<close>

definition finite_value :: "float64 \<Rightarrow> float_value" where
  "finite_value f = (if is_inf f \<or> is_nan f then no_value else \<lparr> Float = f, Valid = True \<rparr>)"

definition trim_range_suffix :: "bytes \<Rightarrow> bytes" where
  "trim_range_suffix raw =
     (let s = trim_space raw in
      if \<not> has_suffix s '']'' then s
      else let open_at = last_index s (CHR ''['') in
        if open_at \<le> 0 then s else trim_space (take (nat open_at) s))"

definition parse_float_safe :: "bytes \<Rightarrow> float_value" where
  "parse_float_safe s =
     (let trimmed = trim_range_suffix s in
      if trimmed = '''' \<or> equal_fold trimmed ''n/a'' then no_value
      else case parse_float trimmed of
        Inl _ \<Rightarrow> no_value
      | Inr f \<Rightarrow> finite_value f)"

definition divide_value :: "float_value \<Rightarrow> float64 \<Rightarrow> float_value" where
  "divide_value v divisor =
     (if \<not> Valid v then no_value else \<lparr> Float = f_div (Float v) divisor, Valid = True \<rparr>)"

definition parse_finite_float :: "bytes \<Rightarrow> float64 option" where
  "parse_finite_float raw =
     (case parse_float (trim_space raw) of
        Inl _ \<Rightarrow> None
      | Inr v \<Rightarrow> if is_inf v \<or> is_nan v then None else Some v)"

definition parse_nonnegative_int :: "bytes \<Rightarrow> int option" where
  "parse_nonnegative_int raw =
     (case parse_uint (64 - 1) raw of Inl _ \<Rightarrow> None | Inr v \<Rightarrow> Some (int v))"

definition parse_flag :: "bytes \<Rightarrow> float_value" where
  "parse_flag s =
     (let t = trim_space s in
      if t = ''0'' then \<lparr> Float = f_of_nat 0, Valid = True \<rparr>
      else if t = ''1'' then \<lparr> Float = f_of_nat 1, Valid = True \<rparr>
      else no_value)"

subsection \<open>Families of lanes\<close>

fun lane_values_from :: "int \<Rightarrow> bytes list \<Rightarrow> float64 \<Rightarrow> lane_value list" where
  "lane_values_from i [] divisor = []"
| "lane_values_from i (value # rest) divisor =
     (let parsed = parse_float_safe value in
      if \<not> Valid parsed then lane_values_from (i + 1) rest divisor
      else \<lparr> Lane = i, LaneFloat = f_div (Float parsed) divisor \<rparr> # lane_values_from (i + 1) rest divisor)"

definition lane_values :: "bytes list \<Rightarrow> float64 \<Rightarrow> lane_value list" where
  "lane_values vs divisor = lane_values_from 0 vs divisor"

definition comma_lane_values :: "bytes \<Rightarrow> float64 \<Rightarrow> lane_value list" where
  "comma_lane_values raw divisor =
     (let trimmed = trim_range_suffix raw in
      if trimmed = '''' then [] else lane_values (split_on (CHR '','') trimmed) divisor)"

fun lane_flags_from :: "int \<Rightarrow> bytes list \<Rightarrow> lane_value list option" where
  "lane_flags_from i [] = Some []"
| "lane_flags_from i (value # rest) =
     (let flag = parse_flag value in
      if \<not> Valid flag then None
      else map_option (Cons \<lparr> Lane = i, LaneFloat = Float flag \<rparr>) (lane_flags_from (i + 1) rest))"

definition lane_flags :: "bytes list \<Rightarrow> lane_value list" where
  "lane_flags vs =
     (if vs = [] then []
      else case lane_flags_from 0 vs of None \<Rightarrow> [] | Some lanes \<Rightarrow> lanes)"

fun lane_states_from :: "int \<Rightarrow> bytes list \<Rightarrow> bytes \<Rightarrow> lane_value list option" where
  "lane_states_from i [] active = Some []"
| "lane_states_from i (value # rest) active =
     (let state = trim_space value in
      if state = '''' \<or> equal_fold state ''n/a'' then None
      else map_option (Cons \<lparr> Lane = i, LaneFloat = (if state = active then f_of_nat 1 else f_of_nat 0) \<rparr>)
             (lane_states_from (i + 1) rest active))"

definition lane_states :: "bytes list \<Rightarrow> bytes \<Rightarrow> lane_value list" where
  "lane_states vs active =
     (if vs = [] then []
      else case lane_states_from 0 vs active of None \<Rightarrow> [] | Some lanes \<Rightarrow> lanes)"

subsection \<open>Numbers\<close>

lemma no_value_invalid [simp]: "\<not> Valid no_value"
  by (simp add: no_value_def)

lemma finite_value_alt: "finite_value f = (if f_finite f then \<lparr> Float = f, Valid = True \<rparr> else no_value)"
  by (simp add: finite_value_def f_finite_iff)

lemma ascii_lower_na:
  "ascii_lower c = CHR ''n'' \<longleftrightarrow> c = CHR ''n'' \<or> c = CHR ''N''"
  "ascii_lower c = CHR ''a'' \<longleftrightarrow> c = CHR ''a'' \<or> c = CHR ''A''"
  "ascii_lower c = CHR ''/'' \<longleftrightarrow> c = CHR ''/''"
proof -
  have "\<forall>c. (ascii_lower c = CHR ''n'' \<longleftrightarrow> c = CHR ''n'' \<or> c = CHR ''N'') \<and>
           (ascii_lower c = CHR ''a'' \<longleftrightarrow> c = CHR ''a'' \<or> c = CHR ''A'') \<and>
           (ascii_lower c = CHR ''/'' \<longleftrightarrow> c = CHR ''/'')"
    by code_simp
  then show "ascii_lower c = CHR ''n'' \<longleftrightarrow> c = CHR ''n'' \<or> c = CHR ''N''"
    "ascii_lower c = CHR ''a'' \<longleftrightarrow> c = CHR ''a'' \<or> c = CHR ''A''"
    "ascii_lower c = CHR ''/'' \<longleftrightarrow> c = CHR ''/''"
    by blast+
qed

lemma equal_fold_na: "equal_fold s ''n/a'' \<longleftrightarrow> s \<in> {''n/a'', ''N/a'', ''n/A'', ''N/A''}"
proof -
  have "map ascii_lower ''n/a'' = ''n/a''" by code_simp
  then have "equal_fold s ''n/a'' \<longleftrightarrow> map ascii_lower s = ''n/a''" by (simp only: equal_fold_def)
  also have "\<dots> \<longleftrightarrow> (\<exists>a b c. s = [a, b, c] \<and> ascii_lower a = CHR ''n'' \<and> ascii_lower b = CHR ''/'' \<and>
      ascii_lower c = CHR ''a'')"
    by (simp only: map_eq_Cons_conv map_is_Nil_conv) blast
  finally show ?thesis unfolding ascii_lower_na by (simp only: insert_iff empty_iff) blast
qed

lemma parse_float_unreadable:
  assumes "s = '''' \<or> equal_fold s ''n/a''"
  shows "parse_float s = Inl ErrSyntax"
  using assms unfolding equal_fold_na by (elim disjE insertE emptyE; simp add: parse_float_eval)

text \<open>The guards on an empty text and on n/a reject nothing that the parser would accept.\<close>

lemma parse_float_safe_alt:
  "parse_float_safe s =
     (case parse_float (trim_range_suffix s) of
        Inl _ \<Rightarrow> no_value
      | Inr f \<Rightarrow> if f_finite f then \<lparr> Float = f, Valid = True \<rparr> else no_value)"
  using parse_float_unreadable [of "trim_range_suffix s"]
  by (auto simp: parse_float_safe_def Let_def finite_value_alt split: sum.splits)

lemma parse_float_safe_valid:
  "Valid (parse_float_safe s) \<longleftrightarrow> (\<exists>f. parse_float (trim_range_suffix s) = Inr f \<and> f_finite f)"
  by (auto simp: parse_float_safe_alt split: sum.splits)

lemma parse_float_safe_ok [wf_intros]: "value_ok (parse_float_safe s)"
  by (auto simp: parse_float_safe_alt value_ok_def number_ok_def dest: parse_float_wf split: sum.splits)

lemma divide_millis_ok [wf_intros]: "value_ok v \<Longrightarrow> value_ok (divide_value v (f_of_nat 1000))"
  by (auto simp: divide_value_def value_ok_def number_ok_def f_div_wf f_of_nat_wf f_div_1000_finite)

lemma parse_finite_float_ok [wf_intros]: "parse_finite_float s = Some x \<Longrightarrow> number_ok x"
  by (auto simp: parse_finite_float_def number_ok_def f_finite_iff dest: parse_float_wf
      split: sum.splits if_splits)

lemma parse_nonnegative_int_Some:
  "parse_nonnegative_int s = Some i \<longleftrightarrow>
     s \<noteq> [] \<and> all_digits s \<and> i = int (dec_value 0 s) \<and> i < 2 ^ 63"
proof -
  have "int n < 2 ^ 63 \<longleftrightarrow> n < 2 ^ 63" for n by (metis of_nat_less_numeral_power_cancel_iff)
  moreover have "parse_nonnegative_int s = Some i \<longleftrightarrow> (\<exists>v. parse_uint 63 s = Inr v \<and> i = int v)"
    by (auto simp: parse_nonnegative_int_def split: sum.splits)
  ultimately show ?thesis by (auto simp: parse_uint_Inr)
qed

lemma parse_nonnegative_int_dec [simp]: "n < 2 ^ 63 \<Longrightarrow> parse_nonnegative_int (dec n) = Some (int n)"
  by (simp add: parse_nonnegative_int_def)

lemma parse_flag_valid: "Valid (parse_flag s) \<longleftrightarrow> trim_space s = ''0'' \<or> trim_space s = ''1''"
  by (simp add: parse_flag_def Let_def)

lemma parse_flag_ok [wf_intros]: "Valid (parse_flag s) \<Longrightarrow> flag_ok (Float (parse_flag s))"
  by (auto simp: parse_flag_def Let_def flag_ok_def split: if_splits)

lemma flag_value_ok: "(Valid v \<Longrightarrow> flag_ok (Float v)) \<Longrightarrow> value_ok v"
  by (auto simp: value_ok_def flag_ok_number)

subsection \<open>The range suffix\<close>

lemma trim_range_suffix_plain: "\<not> has_suffix (trim_space s) '']'' \<Longrightarrow> trim_range_suffix s = trim_space s"
  by (simp add: trim_range_suffix_def Let_def)

lemma trim_range_suffix_range:
  assumes "x \<noteq> []" "graphic (hd x)" "graphic (last x)" "CHR ''['' \<notin> set r"
  shows "trim_range_suffix (x @ '' ['' @ r @ '']'') = x"
proof -
  let ?s = "x @ '' ['' @ r @ '']''"
  have t: "trim_space ?s = ?s"
    using assms by (intro trim_space_graphic) (simp add: graphic_def)
  have l: "last_index ?s (CHR ''['') = int (length x + 1)"
    using last_index_last [of "CHR ''[''" "r @ '']''" "x @ '' ''"] assms(4) by simp
  have "trim_space ([] @ x @ '' '') = x"
    using assms all_space_step [of "'' ''" "''''"]
    by (intro trim_space_surround) (simp_all add: all_space_Nil ascii_space_def)
  moreover have "take (nat (1 + int (length x))) ?s = x @ '' ''" by (simp add: nat_add_distrib)
  moreover have "has_suffix ?s '']''" by (simp add: has_suffix_iff)
  ultimately show ?thesis using t l assms(1)
    by (simp add: trim_range_suffix_def Let_def)
qed

lemma dec_graphic: "graphic (hd (dec n)) \<and> graphic (last (dec n))"
proof -
  have "digit_val c \<noteq> None" if "c \<in> set (dec n)" for c
    using all_digits_dec [of n] that by (auto simp: all_digits_def)
  then show ?thesis by (metis dec_nonempty digit_val_graphic hd_in_set last_in_set not_None_eq)
qed

lemma dec_no_bracket: "\<not> has_suffix (dec n) '']''"
proof
  assume "has_suffix (dec n) '']''"
  then have "CHR '']'' \<in> set (dec n)" by (auto simp: has_suffix_iff)
  then show False using all_digits_dec [of n] by (auto simp: all_digits_def digit_val_def)
qed

lemma parse_float_safe_dec:
  assumes "n < 2 ^ 64" and "CHR ''['' \<notin> set r"
  shows "parse_float_safe (dec n @ '' ['' @ r @ '']'') = \<lparr> Float = f_of_nat n, Valid = True \<rparr>"
    and "parse_float_safe (dec n) = \<lparr> Float = f_of_nat n, Valid = True \<rparr>"
  using trim_range_suffix_range [OF dec_nonempty _ _ assms(2)] dec_graphic [of n] dec_no_bracket [of n] assms(1)
  by (simp_all add: parse_float_safe_alt parse_float_dec f_of_nat_finite trim_range_suffix_plain)

text \<open>No number has a bracket in it.\<close>

lemma scan_mantissa_left: "scan_mantissa hex m s = (m', rest) \<Longrightarrow> set s \<subseteq> set rest \<union> - {CHR '']''}"
  by (induction hex m s rule: scan_mantissa.induct)
    (auto simp: hex_val_def digit_val_def ascii_lower_def split: if_splits option.splits)

lemma scan_exponent_left: "scan_exponent e s = (e', rest) \<Longrightarrow> set s \<subseteq> set rest \<union> - {CHR '']''}"
  by (induction e s rule: scan_exponent.induct) (auto simp: digit_val_def split: if_splits option.splits)

lemma read_exponent_left:
  assumes "read_exponent hex s = Some (e, rest)"
  shows "set s \<subseteq> set rest \<union> - {CHR '']''}"
proof (cases s)
  case (Cons c r)
  let ?ds = "if has_prefix r ''-'' \<or> has_prefix r ''+'' then tl r else r"
  have sign: "set r \<subseteq> set ?ds \<union> - {CHR '']''}" by (cases r) (auto simp: has_prefix_def)
  have lower: "ascii_lower (CHR '']'') = CHR '']''" by code_simp
  show ?thesis
  proof (cases "ascii_lower c = (if hex then CHR ''p'' else CHR ''e'')")
    case True
    then have c: "c \<noteq> CHR '']''" using lower by (auto split: if_splits)
    obtain e' where "scan_exponent 0 ?ds = (e', rest)"
      using assms Cons True by (auto simp: read_exponent_def Let_def split: if_splits list.splits prod.splits)
    then have "set ?ds \<subseteq> set rest \<union> - {CHR '']''}" by (rule scan_exponent_left)
    then show ?thesis using c sign Cons by auto
  qed (use assms Cons in \<open>auto simp: read_exponent_def split: if_splits\<close>)
qed simp

lemma read_float_left: "read_float s = Some f \<Longrightarrow> CHR '']'' \<notin> set s"
proof -
  assume r: "read_float s = Some f"
  let ?body = "if has_prefix s ''-'' \<or> has_prefix s ''+'' then tl s else s"
  let ?hex = "base_prefix ?body CHR ''x'' \<and> 2 < length ?body"
  let ?digits = "if ?hex then drop 2 ?body else ?body"
  have lower: "ascii_lower (CHR '']'') = CHR '']''" by code_simp
  have sign: "set s \<subseteq> set ?body \<union> - {CHR '']''}" by (cases s) (auto simp: has_prefix_def)
  have base: "set t \<subseteq> set (drop 2 t) \<union> - {CHR '']''}" if "base_prefix t CHR ''x''" for t
    using that lower by (auto simp: base_prefix_def split: list.splits)
  obtain m rest where m: "scan_mantissa ?hex
      \<lparr>saw_dot = False, saw_digits = False, mant = 0, frac_digits = 0\<rparr> ?digits = (m, rest)"
    by fastforce
  obtain e where e: "read_exponent ?hex rest = Some (e, [])"
    using r m unfolding read_float_def Let_def by (auto split: if_split_asm option.split_asm)
  have "set ?digits \<subseteq> - {CHR '']''}"
    using scan_mantissa_left [OF m] read_exponent_left [OF e] by auto
  moreover have "set t \<subseteq> set (if base_prefix t CHR ''x'' \<and> 2 < length t then drop 2 t else t) \<union> - {CHR '']''}" for t
    using base [of t] by simp
  then have "set ?body \<subseteq> set ?digits \<union> - {CHR '']''}" .
  ultimately show ?thesis using sign by auto
qed

lemma parse_float_left:
  assumes "parse_float s = Inr f"
  shows "CHR '']'' \<notin> set s"
proof (cases "float_special s")
  case None
  then show ?thesis using assms read_float_left by (auto simp: parse_float_def split: option.splits if_splits)
next
  case (Some f)
  let ?body = "if has_prefix s ''-'' \<or> has_prefix s ''+'' then tl s else s"
  have lower: "ascii_lower (CHR '']'') = CHR '']''" by code_simp
  have "map ascii_lower ?body \<in> {''inf'', ''infinity'', ''nan''}"
    using Some by (auto simp: float_special_def Let_def split: if_splits)
  then have "CHR '']'' \<notin> set (map ascii_lower ?body)" by auto
  moreover have "CHR '']'' \<in> set (map ascii_lower ?body)" if "CHR '']'' \<in> set ?body"
    using that lower by (metis image_eqI list.set_map)
  ultimately have "CHR '']'' \<notin> set ?body" by blast
  moreover have "set s \<subseteq> set ?body \<union> - {CHR '']''}" by (cases s) (auto simp: has_prefix_def)
  ultimately show ?thesis by auto
qed

text \<open>The spellings of what is not finite, in any case.\<close>

lemma parse_float_not_finite:
  assumes "equal_fold t x" and "x \<in> {''nan'', ''inf'', ''infinity''}"
  shows "parse_float t \<in> {Inr FNaN, Inr (FInf False)}"
proof -
  have x: "map ascii_lower x = x" if "x \<in> {''nan'', ''inf'', ''infinity''}" for x
    using that by (elim insertE emptyE) (simp_all, code_simp+)
  then have t: "map ascii_lower t = x" using assms by (simp add: equal_fold_def)
  have sign: "ascii_lower (CHR ''-'') = CHR ''-''" "ascii_lower (CHR ''+'') = CHR ''+''" by code_simp+
  have "\<not> has_prefix t ''-''" "\<not> has_prefix t ''+''"
    using t assms(2) sign by (cases t; auto simp: has_prefix_def)+
  then show ?thesis using t assms(2) by (auto simp: parse_float_def float_special_def Let_def)
qed

text \<open>
  What is read of a text, said without the code's indices: a text that does not end in a bracket
  is read whole, and otherwise what is in front of the last opening bracket, unless there is
  nothing in front of it.
\<close>

definition finite_reading :: "bytes \<Rightarrow> float_value" where
  "finite_reading t =
     (case parse_float t of
        Inl err \<Rightarrow> no_value
      | Inr f \<Rightarrow> if f_finite f then \<lparr> Float = f, Valid = True \<rparr> else no_value)"

definition part_read :: "bytes \<Rightarrow> bytes \<Rightarrow> bool" where
  "part_read s x \<longleftrightarrow>
     (if \<exists>y. trim_space s = y @ '']''
      then \<exists>r. trim_space s = x @ ''['' @ r @ '']'' \<and> x \<noteq> '''' \<and> CHR ''['' \<notin> set r
      else x = trim_space s)"

lemma part_read_trimmed:
  assumes "part_read s x"
  shows "trim_range_suffix s = trim_space x"
proof (cases "\<exists>y. trim_space s = y @ '']''")
  case True
  then obtain r where r: "trim_space s = x @ ''['' @ r @ '']''" "x \<noteq> ''''" "CHR ''['' \<notin> set r"
    using assms by (auto simp: part_read_def)
  have "last_index (trim_space s) (CHR ''['') = int (length x)"
    using last_index_last [of "CHR ''[''" "r @ '']''" x] r by simp
  moreover have "has_suffix (trim_space s) '']''" using True by (auto simp: has_suffix_iff)
  ultimately show ?thesis using r by (simp add: trim_range_suffix_def Let_def)
next
  case False
  then have "\<not> has_suffix (trim_space s) '']''" by (auto simp: has_suffix_iff)
  then show ?thesis using assms False by (simp add: part_read_def trim_range_suffix_plain)
qed

lemma no_part_read:
  assumes "\<nexists>x. part_read s x"
  shows "parse_float_safe s = no_value"
proof -
  let ?t = "trim_space s"
  have "part_read s ?t" if "\<nexists>y. ?t = y @ '']''" using that by (simp add: part_read_def)
  then obtain y where y: "?t = y @ '']''" using assms by blast
  then have "\<nexists>x r. ?t = x @ ''['' @ r @ '']'' \<and> x \<noteq> '''' \<and> CHR ''['' \<notin> set r"
    using assms by (auto simp: part_read_def)
  moreover have "\<exists>x r. ?t = x @ ''['' @ r @ '']'' \<and> CHR ''['' \<notin> set r \<and> last_index ?t (CHR ''['') = int (length x)"
    if inside: "CHR ''['' \<in> set y"
  proof -
    obtain x r where r: "y = x @ CHR ''['' # r" "CHR ''['' \<notin> set r" using split_list_last [OF inside] by blast
    then have "last_index ?t (CHR ''['') = int (length x)"
      using last_index_last [of "CHR ''[''" "r @ '']''" x] y by simp
    then show ?thesis using r y by auto
  qed
  moreover have "last_index ?t (CHR ''['') = -1" if "CHR ''['' \<notin> set y"
    using that y by (intro last_index_none) simp
  ultimately have "last_index ?t (CHR ''['') \<le> 0" by fastforce
  then have "trim_range_suffix s = ?t" by (simp add: trim_range_suffix_def Let_def)
  then show ?thesis using y parse_float_left [of ?t] by (auto simp: parse_float_safe_alt split: sum.splits)
qed

lemma part_read_value: "part_read s x \<Longrightarrow> parse_float_safe s = finite_reading (trim_space x)"
  by (simp add: parse_float_safe_alt part_read_trimmed finite_reading_def)

lemma finite_reading_unreadable:
  "equal_fold t x \<Longrightarrow> x \<in> {'''', ''n/a'', ''nan'', ''inf'', ''infinity''} \<Longrightarrow> finite_reading t = no_value"
  using parse_float_not_finite [of t x] parse_float_unreadable [of t]
  by (auto simp: finite_reading_def equal_fold_def f_finite_def)

subsection \<open>Families\<close>

lemma lane_values_from_alt:
  "lane_values_from i vs d =
     map (\<lambda>(j, v). \<lparr> Lane = i + int j, LaneFloat = f_div (Float (parse_float_safe v)) d \<rparr>)
       (filter (\<lambda>(j, v). Valid (parse_float_safe v)) (zip [0..<length vs] vs))"
proof (induction vs arbitrary: i)
  case (Cons v vs)
  have z: "zip [0..<length (v # vs)] (v # vs) = (0, v) # map (apfst Suc) (zip [0..<length vs] vs)"
    by (simp add: upt_conv_Cons map_Suc_upt [symmetric] zip_map1 apfst_def map_prod_def case_prod_unfold
        del: upt_Suc map_Suc_upt)
  show ?case unfolding z
    by (simp add: Cons.IH [of "i + 1"] Let_def filter_map o_def case_prod_unfold add.assoc)
qed simp

lemma lane_values_from_lanes:
  "sorted_wrt (<) (map Lane (lane_values_from i vs d)) \<and> (\<forall>v \<in> set (lane_values_from i vs d). i \<le> Lane v)"
proof (induction vs arbitrary: i)
  case (Cons v vs)
  have "i < Lane w" "i \<le> Lane w" if "w \<in> set (lane_values_from (i + 1) vs d)" for w
    using Cons.IH [of "i + 1"] that by force+
  then show ?case using Cons.IH [of "i + 1"] by (simp add: Let_def)
qed simp

lemma lane_values_ok:
  assumes "\<And>x. number_ok x \<Longrightarrow> number_ok (f_div x d)"
  shows "lanes_ok (lane_values vs d)"
proof -
  have "number_ok (LaneFloat v)" if "v \<in> set (lane_values_from i vs d)" for v i
    using that assms parse_float_safe_ok
    by (induction vs arbitrary: i) (auto simp: Let_def value_ok_def split: if_splits)
  then show ?thesis using lane_values_from_lanes [of 0 vs d] by (auto simp: lanes_ok_def lane_values_def)
qed

lemma lane_values_1_ok [wf_intros]: "lanes_ok (lane_values vs (f_of_nat 1))"
  by (rule lane_values_ok) (auto simp: number_ok_def)

lemma lane_values_millis_ok [wf_intros]: "lanes_ok (lane_values vs (f_of_nat 1000))"
  by (rule lane_values_ok) (auto simp: number_ok_def f_div_wf f_of_nat_wf f_div_1000_finite)

lemma comma_lane_values_ok [wf_intros]:
  "lanes_ok (comma_lane_values s (f_of_nat 1))" "lanes_ok (comma_lane_values s (f_of_nat 1000))"
  using lane_values_1_ok lane_values_millis_ok by (simp_all add: comma_lane_values_def Let_def)

text \<open>A family of flags or states is read as a whole.\<close>

lemma lane_flags_from_alt:
  "lane_flags_from (int k) vs =
     (if list_all (\<lambda>v. Valid (parse_flag v)) vs
      then Some (map2 (\<lambda>i v. \<lparr> Lane = int i, LaneFloat = Float (parse_flag v) \<rparr>) [k..<k + length vs] vs)
      else None)"
proof (induction vs arbitrary: k)
  case (Cons v vs)
  from Cons.IH [of "Suc k"] show ?case
    by (simp add: Let_def upt_conv_Cons add.commute del: upt_Suc)
qed simp

lemma lane_states_from_alt:
  "lane_states_from (int k) vs active =
     (if list_all (\<lambda>v. trim_space v \<noteq> '''' \<and> \<not> equal_fold (trim_space v) ''n/a'') vs
      then Some (map2 (\<lambda>i v. \<lparr> Lane = int i,
             LaneFloat = (if trim_space v = active then f_of_nat 1 else f_of_nat 0) \<rparr>) [k..<k + length vs] vs)
      else None)"
proof (induction vs arbitrary: k)
  case (Cons v vs)
  from Cons.IH [of "Suc k"] show ?case
    by (simp add: Let_def upt_conv_Cons add.commute del: upt_Suc)
qed simp

lemma lane_flags_alt:
  "lane_flags vs =
     (if list_all (\<lambda>v. Valid (parse_flag v)) vs
      then map2 (\<lambda>i v. \<lparr> Lane = int i, LaneFloat = Float (parse_flag v) \<rparr>) [0..<length vs] vs
      else [])"
  using lane_flags_from_alt [of 0 vs] by (simp add: lane_flags_def)

lemma lane_states_alt:
  "lane_states vs active =
     (if list_all (\<lambda>v. trim_space v \<noteq> '''' \<and> \<not> equal_fold (trim_space v) ''n/a'') vs
      then map2 (\<lambda>i v. \<lparr> Lane = int i,
             LaneFloat = (if trim_space v = active then f_of_nat 1 else f_of_nat 0) \<rparr>) [0..<length vs] vs
      else [])"
  using lane_states_from_alt [of 0 vs active] by (simp add: lane_states_def)

lemma map2_lanes_ok:
  assumes "\<And>v. v \<in> set vs \<Longrightarrow> flag_ok (g v)"
  shows "flags_ok (map2 (\<lambda>i v. \<lparr> Lane = int i, LaneFloat = g v \<rparr>) [0..<length vs] vs)"
proof -
  have "map Lane (map2 (\<lambda>i v. \<lparr> Lane = int i, LaneFloat = g v \<rparr>) [0..<length vs] vs) =
      map int (map fst (zip [0..<length vs] vs))"
    by (simp add: case_prod_unfold o_def del: map_fst_zip)
  then show ?thesis using assms by (auto simp: flags_ok_def dest: set_zip_rightD)
qed

lemma lane_flags_ok [wf_intros]: "flags_ok (lane_flags vs)"
  by (auto simp: lane_flags_alt list_all_iff intro!: map2_lanes_ok parse_flag_ok)

lemma lane_states_ok [wf_intros]: "flags_ok (lane_states vs active)"
  by (auto simp: lane_states_alt flag_ok_def intro!: map2_lanes_ok)

subsection \<open>Properties\<close>

text \<open>
  C34: What a scalar is read as. A range in brackets behind a number does not count, wherever the
  brackets and the white space are: what is read is the text in front of the last bracket, or
  the whole text when none is closed at its end. It has a value exactly when it is a number
  whose nearest double is finite, and that double is the value: a decimal integer reads as the
  double nearest to it, an empty text, n/a, NaN and infinities in any case read as nothing. A
  bracket with nothing in front of it reads as nothing.
\<close>

theorem parse_float_safe_exact:
  "(part_read s x \<longrightarrow> parse_float_safe s = finite_reading (trim_space x)) \<and>
   (part_read s x \<and> trim_space x = dec n \<and> n < 2 ^ 64 \<longrightarrow> parse_float_safe s = \<lparr> Float = f_of_nat n, Valid = True \<rparr>) \<and>
   (part_read s x \<and> list_ex (equal_fold (trim_space x)) ['''', ''n/a'', ''nan'', ''inf'', ''infinity''] \<longrightarrow>
      parse_float_safe s = no_value) \<and>
   ((\<nexists>y. part_read s y) \<longrightarrow> parse_float_safe s = no_value)"
  using part_read_value [of s x] no_part_read [of s] finite_reading_unreadable [of "trim_space x"]
  by (auto simp: finite_reading_def parse_float_dec f_of_nat_finite)

lemma parse_float_safe_exact_witness:
  "parse_float_safe '' 61[0] [-10..80] '' = no_value \<and>
   parse_float_safe '' 61 [-10..80] '' = \<lparr> Float = f_of_nat 61, Valid = True \<rparr> \<and>
   parse_float_safe ''NaN [1]'' = no_value \<and> parse_float_safe ''[61]'' = no_value"
proof -
  have trim: "trim_space '' 61[0] [-10..80] '' = ''61[0] [-10..80]''" "trim_space '' 61 [-10..80] '' = ''61 [-10..80]''"
    "trim_space ''NaN [1]'' = ''NaN [1]''" "trim_space ''[61]'' = ''[61]''" "trim_space ''61[0] '' = ''61[0]''"
    "trim_space ''61 '' = ''61''" "trim_space ''NaN '' = ''NaN''" "dec 61 = ''61''" "equal_fold ''NaN'' ''nan''"
    by code_simp+
  have part: "part_read '' 61[0] [-10..80] '' ''61[0] ''" "part_read '' 61 [-10..80] '' ''61 ''"
    unfolding part_read_def trim by (auto intro: exI [of _ "''-10..80''"])
  have nan: "part_read ''NaN [1]'' ''NaN ''" unfolding part_read_def trim by (auto intro: exI [of _ "''1''"])
  have none: "\<nexists>y. part_read ''[61]'' y"
    unfolding part_read_def trim by (auto simp: Cons_eq_append_conv append_eq_Cons_conv)
  have "finite_reading ''61[0]'' = no_value" by (simp add: finite_reading_def parse_float_eval)
  then have "parse_float_safe '' 61[0] [-10..80] '' = no_value"
    using parse_float_safe_exact [THEN conjunct1, rule_format, OF part(1)] unfolding trim(5) by (rule trans [rotated])
  moreover have "parse_float_safe '' 61 [-10..80] '' = \<lparr> Float = f_of_nat 61, Valid = True \<rparr>"
    by (rule parse_float_safe_exact [THEN conjunct2, THEN conjunct1, rule_format, of _ "''61 ''" 61])
      (use part(2) trim(6,8) in simp)
  moreover have "parse_float_safe ''NaN [1]'' = no_value"
    by (rule parse_float_safe_exact [THEN conjunct2, THEN conjunct2, THEN conjunct1, rule_format, of _ "''NaN ''"])
      (use nan trim(7,9) in simp)
  moreover have "parse_float_safe ''[61]'' = no_value"
    by (rule parse_float_safe_exact [THEN conjunct2, THEN conjunct2, THEN conjunct2, rule_format, OF none])
  ultimately show ?thesis by blast
qed

text \<open>
  C36: A family of fault flags or of states is read entirely or not at all. One flag that is
  neither 0 nor 1 leaves the family empty, and otherwise lane i carries the i-th flag; a lane
  without a state (empty, or n/a in any case) does the same, and otherwise a lane is 1 exactly
  when its state is the active one, so an unknown state reads as inactive.
\<close>

theorem lane_families_all_or_nothing:
  "flags_ok (lane_flags vs) \<and> flags_ok (lane_states vs active) \<and>
   lane_flags vs =
     (if list_all (\<lambda>v. trim_space v = ''0'' \<or> trim_space v = ''1'') vs
      then map2 (\<lambda>i v. \<lparr> Lane = int i, LaneFloat = f_of_nat (if trim_space v = ''1'' then 1 else 0) \<rparr>)
             [0..<length vs] vs
      else []) \<and>
   lane_states vs active =
     (if list_all (\<lambda>v. trim_space v \<notin> {'''', ''n/a'', ''N/a'', ''n/A'', ''N/A''}) vs
      then map2 (\<lambda>i v. \<lparr> Lane = int i,
             LaneFloat = (if trim_space v = active then f_of_nat 1 else f_of_nat 0) \<rparr>) [0..<length vs] vs
      else [])"
proof (intro conjI)
  have "Float (parse_flag v) = f_of_nat (if trim_space v = ''1'' then 1 else 0)"
    if "trim_space v = ''0'' \<or> trim_space v = ''1''" for v
    using that by (auto simp: parse_flag_def Let_def)
  then show "lane_flags vs =
     (if list_all (\<lambda>v. trim_space v = ''0'' \<or> trim_space v = ''1'') vs
      then map2 (\<lambda>i v. \<lparr> Lane = int i, LaneFloat = f_of_nat (if trim_space v = ''1'' then 1 else 0) \<rparr>)
             [0..<length vs] vs
      else [])"
    unfolding lane_flags_alt parse_flag_valid
    by (auto simp: list_all_iff dest!: set_zip_rightD)
next
  show "lane_states vs active =
     (if list_all (\<lambda>v. trim_space v \<notin> {'''', ''n/a'', ''N/a'', ''n/A'', ''N/A''}) vs
      then map2 (\<lambda>i v. \<lparr> Lane = int i,
             LaneFloat = (if trim_space v = active then f_of_nat 1 else f_of_nat 0) \<rparr>) [0..<length vs] vs
      else [])"
    unfolding lane_states_alt equal_fold_na by simp
qed (rule lane_flags_ok lane_states_ok)+

text \<open>
  C35: A family of measurements keeps the position of every reading as its lane: an unreadable
  entry is left out and the lanes behind it keep their numbers.
\<close>

theorem lane_values_positions:
  "lane_values vs d =
     map (\<lambda>(i, v). \<lparr> Lane = int i, LaneFloat = f_div (Float (parse_float_safe v)) d \<rparr>)
       (filter (\<lambda>(i, v). Valid (parse_float_safe v)) (zip [0..<length vs] vs)) \<and>
   lanes_ok (lane_values vs (f_of_nat 1)) \<and> lanes_ok (lane_values vs (f_of_nat 1000))"
  using lane_values_from_alt [of 0 vs d] lane_values_1_ok lane_values_millis_ok
  by (simp add: lane_values_def)

end
