(* ===== verification/Eye.thy ===== *)
theory Eye
  imports Sections Scalars
begin

text \<open>
  The eye sections of \<open>internal/mlxlink/decoder.go\<close>: families of scores over mlxlink's own
  list of lane numbers. The lemmas say that the families agree on their lanes, which come
  sorted and once each.
\<close>

definition eye_families :: "json_section \<Rightarrow> bytes list \<Rightarrow> nat \<Rightarrow> bytes list list option" where
  "eye_families sec names lane_count =
     map_all (\<lambda>field. case raw_values (sec_get sec field) of
                 None \<Rightarrow> None
               | Some vs \<Rightarrow> if length vs \<noteq> lane_count then None else Some vs) names"

fun unique_eye_lanes_from :: "int list \<Rightarrow> bytes list \<Rightarrow> int list option" where
  "unique_eye_lanes_from seen [] = Some []"
| "unique_eye_lanes_from seen (raw # rest) =
     (case parse_nonnegative_int (trim_space raw) of
        None \<Rightarrow> None
      | Some lane \<Rightarrow>
          if lane \<in> set seen then None
          else map_option (Cons lane) (unique_eye_lanes_from (lane # seen) rest))"

definition unique_eye_lanes :: "bytes list \<Rightarrow> int list option" where
  "unique_eye_lanes raw_lanes = unique_eye_lanes_from [] raw_lanes"

definition eye_lane_scores :: "bytes list list \<Rightarrow> nat \<Rightarrow> float64 list option" where
  "eye_lane_scores families index = map_all (\<lambda>vs. parse_finite_float (vs ! index)) families"

fun eye_collect :: "bytes list list \<Rightarrow> nat \<Rightarrow> int list \<Rightarrow> lane_value list list \<Rightarrow> lane_value list list" where
  "eye_collect families i [] decoded = decoded"
| "eye_collect families i (lane # lanes) decoded =
     eye_collect families (Suc i) lanes
       (case eye_lane_scores families i of
          None \<Rightarrow> decoded
        | Some scores \<Rightarrow>
            map2 (\<lambda>family score. family @ [\<lparr> Lane = lane, LaneFloat = score \<rparr>]) decoded scores)"

definition decode_eye_lane_values :: "json_section \<Rightarrow> bytes list \<Rightarrow> lane_value list list option" where
  "decode_eye_lane_values sec names =
     (if sec = None then None
      else case raw_values (sec_get sec ''Lane'') of
        None \<Rightarrow> None
      | Some raw_lanes \<Rightarrow>
          if raw_lanes = [] then None
          else case eye_families sec names (length raw_lanes) of
            None \<Rightarrow> None
          | Some families \<Rightarrow>
              (case unique_eye_lanes raw_lanes of
                 None \<Rightarrow> None
               | Some lanes \<Rightarrow>
                   Some (map (sort_key Lane)
                     (eye_collect families 0 lanes (replicate (length names) [])))))"

definition decode_eye :: "json_section \<Rightarrow> eye" where
  "decode_eye sec =
     (case decode_eye_lane_values sec
             [''Initial FOM'', ''Last FOM'', ''Upper Grades'', ''Mid Grades'', ''Lower Grades''] of
        None \<Rightarrow> no_eye
      | Some vs \<Rightarrow> \<lparr> EyeInitialFOM = vs ! 0, EyeLastFOM = vs ! 1, EyeUpperGrade = vs ! 2,
                     EyeMidGrade = vs ! 3, EyeLowerGrade = vs ! 4 \<rparr>)"

definition decode_pcie_eye_section :: "json_section \<Rightarrow> pcie_eye" where
  "decode_pcie_eye_section sec =
     (case decode_eye_lane_values sec [''Initial FOM'', ''Last FOM''] of
        None \<Rightarrow> no_pcie_eye
      | Some vs \<Rightarrow> \<lparr> PCIeInitialFOM = vs ! 0, PCIeLastFOM = vs ! 1 \<rparr>)"

subsection \<open>The lanes and their rows of scores\<close>

definition eye_lane :: "bytes \<Rightarrow> int option" where
  "eye_lane raw = parse_nonnegative_int (trim_space raw)"

lemma unique_eye_lanes_from_Some:
  "unique_eye_lanes_from seen raws = Some lanes \<longleftrightarrow>
     map_all eye_lane raws = Some lanes \<and> distinct lanes \<and> set lanes \<inter> set seen = {}"
proof (induction raws arbitrary: seen lanes)
  case (Cons raw raws)
  show ?case
  proof (cases "eye_lane raw")
    case (Some lane)
    have IH: "unique_eye_lanes_from (lane # seen) raws = Some ls \<longleftrightarrow>
        map_all eye_lane raws = Some ls \<and> distinct ls \<and> set ls \<inter> set (lane # seen) = {}" for ls
      by (rule Cons.IH)
    show ?thesis
    proof (cases lanes)
      case (Cons l ls)
      then show ?thesis using Some IH [of ls]
        by (auto simp: eye_lane_def [symmetric] split: option.splits)
    qed (use Some in \<open>auto simp: eye_lane_def [symmetric] split: option.splits\<close>)
  qed (simp add: eye_lane_def [symmetric])
qed auto

lemma unique_eye_lanes_Some:
  "unique_eye_lanes raws = Some lanes \<longleftrightarrow> map_all eye_lane raws = Some lanes \<and> distinct lanes"
  by (simp add: unique_eye_lanes_def unique_eye_lanes_from_Some)

lemma unique_eye_lanes_nonneg: "unique_eye_lanes raws = Some lanes \<Longrightarrow> l \<in> set lanes \<Longrightarrow> 0 \<le> l"
proof -
  assume "unique_eye_lanes raws = Some lanes" "l \<in> set lanes"
  then have "Some l \<in> set (map eye_lane raws)"
    by (simp add: unique_eye_lanes_Some map_all_Some_iff)
  then obtain raw where "eye_lane raw = Some l" by force
  then show "0 \<le> l" unfolding eye_lane_def parse_nonnegative_int_Some by simp
qed

text \<open>The lanes that have a score in every family, each with its scores.\<close>

fun eye_rows :: "bytes list list \<Rightarrow> nat \<Rightarrow> int list \<Rightarrow> (int \<times> float64 list) list" where
  "eye_rows families i [] = []"
| "eye_rows families i (lane # lanes) =
     (case eye_lane_scores families i of
        None \<Rightarrow> eye_rows families (Suc i) lanes
      | Some scores \<Rightarrow> (lane, scores) # eye_rows families (Suc i) lanes)"

definition row_sample :: "nat \<Rightarrow> int \<times> float64 list \<Rightarrow> lane_value" where
  "row_sample k row = \<lparr> Lane = fst row, LaneFloat = snd row ! k \<rparr>"

lemma eye_lane_scores_length: "eye_lane_scores families i = Some ss \<Longrightarrow> length ss = length families"
  unfolding eye_lane_scores_def by (rule map_all_length)

lemma eye_collect_rows:
  "length decoded = length families \<Longrightarrow>
   eye_collect families i lanes decoded =
     map2 (\<lambda>k d. d @ map (row_sample k) (eye_rows families i lanes)) [0..<length families] decoded"
proof (induction lanes arbitrary: i decoded)
  case Nil
  then show ?case by (auto intro: nth_equalityI)
next
  case (Cons lane lanes)
  show ?case
  proof (cases "eye_lane_scores families i")
    case None
    then show ?thesis using Cons by simp
  next
    case (Some ss)
    have len: "length ss = length decoded" using eye_lane_scores_length [OF Some] Cons.prems by simp
    let ?d = "map2 (\<lambda>family score. family @ [\<lparr> Lane = lane, LaneFloat = score \<rparr>]) decoded ss"
    have "eye_collect families (Suc i) lanes ?d =
        map2 (\<lambda>k d. d @ map (row_sample k) (eye_rows families (Suc i) lanes)) [0..<length families] ?d"
      using len Cons.prems by (intro Cons.IH) simp
    also have "\<dots> = map2 (\<lambda>k d. d @ map (row_sample k) ((lane, ss) # eye_rows families (Suc i) lanes))
        [0..<length families] decoded"
      using len Cons.prems by (intro nth_equalityI) (simp_all add: row_sample_def)
    finally show ?thesis using Some by simp
  qed
qed

lemma decode_eye_lane_values_Some:
  assumes "decode_eye_lane_values sec names = Some fams"
  obtains raws families lanes where
    "raw_values (sec_get sec ''Lane'') = Some raws" "raws \<noteq> []"
    "eye_families sec names (length raws) = Some families" "unique_eye_lanes raws = Some lanes"
    "fams = map (\<lambda>k. sort_key Lane (map (row_sample k) (eye_rows families 0 lanes))) [0..<length names]"
proof -
  obtain raws families lanes where r: "raw_values (sec_get sec ''Lane'') = Some raws" "raws \<noteq> []"
    "eye_families sec names (length raws) = Some families" "unique_eye_lanes raws = Some lanes"
    "fams = map (sort_key Lane) (eye_collect families 0 lanes (replicate (length names) []))"
    using assms by (auto simp: decode_eye_lane_values_def split: if_splits option.splits)
  have "length families = length names"
    using r(3) unfolding eye_families_def by (rule map_all_length)
  then have "eye_collect families 0 lanes (replicate (length names) []) =
      map (\<lambda>k. map (row_sample k) (eye_rows families 0 lanes)) [0..<length names]"
    by (subst eye_collect_rows) (auto intro: nth_equalityI)
  with r that show ?thesis by simp
qed

lemma eye_rows_lanes: "fst ` set (eye_rows families i lanes) \<subseteq> set lanes"
  by (induction lanes arbitrary: i) (auto split: option.splits)

lemma eye_rows_distinct: "distinct lanes \<Longrightarrow> distinct (map fst (eye_rows families i lanes))"
  using eye_rows_lanes by (induction lanes arbitrary: i) (fastforce split: option.splits)+

lemma eye_rows_scores:
  "(l, ss) \<in> set (eye_rows families i lanes) \<Longrightarrow>
   length ss = length families \<and> (\<forall>x \<in> set ss. number_ok x)"
proof (induction lanes arbitrary: i)
  case (Cons lane lanes)
  have "number_ok x" if s: "eye_lane_scores families i = Some ss" "x \<in> set ss" for x
  proof -
    have "Some x \<in> set (map (\<lambda>vs. parse_finite_float (vs ! i)) families)"
      using s by (simp add: eye_lane_scores_def map_all_Some_iff)
    then obtain t where "parse_finite_float t = Some x" by force
    then show ?thesis by (rule parse_finite_float_ok)
  qed
  then show ?case using Cons eye_lane_scores_length by (fastforce split: option.splits)
qed simp

lemma eye_families_ok:
  assumes "decode_eye_lane_values sec names = Some fams" and "k < length names"
  shows "lanes_ok (fams ! k) \<and> map Lane (fams ! k) = map Lane (fams ! 0)"
proof -
  obtain raws families lanes where r: "eye_families sec names (length raws) = Some families"
    "unique_eye_lanes raws = Some lanes" and
    fams: "fams = map (\<lambda>k. sort_key Lane (map (row_sample k) (eye_rows families 0 lanes))) [0..<length names]"
    using decode_eye_lane_values_Some [OF assms(1)] by metis
  let ?rows = "eye_rows families 0 lanes"
  have len: "length families = length names"
    using r(1) unfolding eye_families_def by (rule map_all_length)
  have lane: "map Lane (map (row_sample j) ?rows) = map fst ?rows" for j
    by (simp add: row_sample_def o_def)
  have "distinct (map Lane (map (row_sample k) ?rows))"
    unfolding lane using eye_rows_distinct r(2) unique_eye_lanes_Some by blast
  from strict_sorted_map_sort_key [OF this] have "sorted_wrt (<) (map Lane (fams ! k))"
    using fams assms(2) by simp
  moreover have "0 \<le> Lane v \<and> number_ok (LaneFloat v)" if "v \<in> set (fams ! k)" for v
  proof -
    have "v \<in> row_sample k ` set ?rows" using that fams assms(2) by simp
    then obtain l ss where row: "(l, ss) \<in> set ?rows" "v = row_sample k (l, ss)" by force
    then have "l \<in> set lanes" using eye_rows_lanes [of families 0 lanes] by force
    then have "0 \<le> l" using unique_eye_lanes_nonneg r(2) by blast
    then show ?thesis using row eye_rows_scores [OF row(1)] assms(2) len by (simp add: row_sample_def)
  qed
  moreover have same: "map Lane (fams ! j) = sort (map fst ?rows)" if "j < length names" for j
  proof -
    have "fams ! j = sort_key Lane (map (row_sample j) ?rows)" using that fams by simp
    then show ?thesis by (simp only: map_sort_key lane)
  qed
  moreover have "map Lane (fams ! k) = map Lane (fams ! 0)"
    using same [of k] same [of 0] assms(2) by (metis gr_implies_not0 neq0_conv)
  ultimately show ?thesis by (auto simp: lanes_ok_def)
qed

lemma eye_rows_iff:
  "(l, ss) \<in> set (eye_rows families i lanes) \<longleftrightarrow>
     (\<exists>j < length lanes. l = lanes ! j \<and> eye_lane_scores families (i + j) = Some ss)"
proof (induction lanes arbitrary: i)
  case (Cons lane lanes)
  have "(\<exists>j < length (lane # lanes). l = (lane # lanes) ! j \<and> eye_lane_scores families (i + j) = Some ss) \<longleftrightarrow>
      l = lane \<and> eye_lane_scores families i = Some ss \<or>
      (\<exists>j < length lanes. l = lanes ! j \<and> eye_lane_scores families (Suc i + j) = Some ss)"
    by (simp add: Ex_less_Suc2)
  then show ?case using Cons.IH [of "Suc i"] by (auto split: option.splits)
qed simp

lemma eye_lane_scores_nth:
  "eye_lane_scores families i = Some ss \<Longrightarrow> k < length families \<Longrightarrow>
   parse_finite_float (families ! k ! i) = Some (ss ! k)"
  unfolding eye_lane_scores_def using map_all_nth by fastforce

lemma decode_eye_both_ok: "eye_ok (decode_eye sec) \<and> pcie_eye_ok (decode_pcie_eye_section sec)"
proof -
  have 5: "lanes_ok (fams ! k) \<and> map Lane (fams ! k) = map Lane (fams ! 0)"
    if "decode_eye_lane_values sec [a, b, c, d, e] = Some fams" "k < 5" for fams k a b c d e
    using eye_families_ok [OF that(1), of k] that(2) by simp
  have 2: "lanes_ok (fams ! k) \<and> map Lane (fams ! k) = map Lane (fams ! 0)"
    if "decode_eye_lane_values sec [a, b] = Some fams" "k < 2" for fams k a b
    using eye_families_ok [OF that(1), of k] that(2) by simp
  have "eye_ok (decode_eye sec)"
  proof (cases "decode_eye_lane_values sec
      [''Initial FOM'', ''Last FOM'', ''Upper Grades'', ''Mid Grades'', ''Lower Grades'']")
    case None
    then show ?thesis by (simp add: decode_eye_def zero_values_ok)
  next
    case (Some fams)
    from 5 [OF this, of 0] 5 [OF this, of 1] 5 [OF this, of 2] 5 [OF this, of 3] 5 [OF this, of 4] Some
    show ?thesis by (simp add: decode_eye_def eye_ok_def)
  qed
  moreover have "pcie_eye_ok (decode_pcie_eye_section sec)"
  proof (cases "decode_eye_lane_values sec [''Initial FOM'', ''Last FOM'']")
    case None
    then show ?thesis by (simp add: decode_pcie_eye_section_def zero_values_ok)
  next
    case (Some fams)
    from 2 [OF this, of 0] 2 [OF this, of 1] Some
    show ?thesis by (simp add: decode_pcie_eye_section_def pcie_eye_ok_def)
  qed
  ultimately show ?thesis ..
qed

lemmas decode_eye_ok [wf_intros] =
  decode_eye_both_ok [THEN conjunct1] decode_eye_both_ok [THEN conjunct2]

subsection \<open>Properties\<close>

text \<open>
  C31: What an eye section is read as: with a list of distinct lane numbers and as many scores
  in every family, family k has a sample for a lane exactly when the lane's scores are finite
  numbers in all of the families, and then it is that family's score. A lane that some family
  cannot read is missing from all of them.
\<close>

theorem eye_scores_exact:
  assumes "sec \<noteq> None" and "raw_values (sec_get sec ''Lane'') = Some raws" and "raws \<noteq> []"
    and "eye_families sec names (length raws) = Some families"
    and "unique_eye_lanes raws = Some lanes" and "k < length names"
  shows "\<exists>fams. decode_eye_lane_values sec names = Some fams \<and>
    set (fams ! k) = {\<lparr> Lane = lanes ! i, LaneFloat = x \<rparr> | i x.
      i < length lanes \<and> eye_lane_scores families i \<noteq> None \<and> parse_finite_float (families ! k ! i) = Some x}"
proof -
  obtain fams where fams: "decode_eye_lane_values sec names = Some fams"
    using assms by (simp add: decode_eye_lane_values_def)
  have "fams = map (\<lambda>k. sort_key Lane (map (row_sample k) (eye_rows families 0 lanes))) [0..<length names]"
    using decode_eye_lane_values_Some [OF fams] assms by (metis option.inject)
  then have "set (fams ! k) = row_sample k ` set (eye_rows families 0 lanes)" using assms(6) by simp
  also have "\<dots> = {\<lparr> Lane = l, LaneFloat = ss ! k \<rparr> | l ss. (l, ss) \<in> set (eye_rows families 0 lanes)}"
    by (force simp: row_sample_def)
  also have "\<dots> = {\<lparr> Lane = lanes ! i, LaneFloat = ss ! k \<rparr> | i ss.
      i < length lanes \<and> eye_lane_scores families i = Some ss}"
    unfolding eye_rows_iff by auto
  also have "\<dots> = {\<lparr> Lane = lanes ! i, LaneFloat = x \<rparr> | i x.
      i < length lanes \<and> eye_lane_scores families i \<noteq> None \<and> parse_finite_float (families ! k ! i) = Some x}"
  proof -
    have "length families = length names"
      using assms(4) unfolding eye_families_def by (rule map_all_length)
    then show ?thesis using assms(6) by (fastforce dest: eye_lane_scores_nth)
  qed
  finally show ?thesis using fams by blast
qed

text \<open>Two lanes out of order, the second without a score in one of the families.\<close>

definition sample_eye_section :: "(bytes \<times> json) list" where
  "sample_eye_section =
     [(''Lane'', values_json [''1'', ''0'']), (''Initial FOM'', values_json [''5'', ''N/A'']),
      (''Last FOM'', values_json ['' 7'', ''9''])]"

lemma eye_scores_exact_witness:
  "\<exists>fams. decode_eye_lane_values (Some sample_eye_section) [''Initial FOM'', ''Last FOM''] = Some fams \<and>
     set (fams ! 1) = {\<lparr> Lane = 1, LaneFloat = f_of_nat 7 \<rparr>}"
proof -
  let ?sec = "Some sample_eye_section" and ?names = "[''Initial FOM'', ''Last FOM'']"
  have trim: "trim_space ''1'' = ''1''" "trim_space ''0'' = ''0''" "trim_space '' 7'' = ''7''"
    "trim_space ''5'' = ''5''" "trim_space ''9'' = ''9''" "trim_space ''N/A'' = ''N/A''"
    by code_simp+
  have num: "parse_finite_float ''5'' = Some (f_of_nat 5)" "parse_finite_float '' 7'' = Some (f_of_nat 7)"
    "parse_finite_float ''9'' = Some (f_of_nat 9)" "parse_finite_float ''N/A'' = None"
    by (simp_all add: parse_finite_float_def trim f_of_nat_def is_nan_def parse_float_eval)
  have raws: "raw_values (sec_get ?sec ''Lane'') = Some [''1'', ''0'']"
    by (simp add: sec_get_def entries_def sample_eye_section_def)
  have fam: "eye_families ?sec ?names (length [''1'', ''0'']) = Some [[''5'', ''N/A''], ['' 7'', ''9'']]"
    by (simp add: eye_families_def sec_get_def entries_def sample_eye_section_def)
  have lanes: "unique_eye_lanes [''1'', ''0''] = Some [1, 0]"
    by (simp add: unique_eye_lanes_def trim parse_nonnegative_int_def parse_uint_def digit_val_def)
  have scores: "eye_lane_scores [[''5'', ''N/A''], ['' 7'', ''9'']] 0 = Some [f_of_nat 5, f_of_nat 7]"
    "eye_lane_scores [[''5'', ''N/A''], ['' 7'', ''9'']] (Suc 0) = None"
    by (simp_all add: eye_lane_scores_def num)
  have "{\<lparr> Lane = [1, 0] ! i, LaneFloat = x \<rparr> | i x. i < length [1, 0 :: int] \<and>
      eye_lane_scores [[''5'', ''N/A''], ['' 7'', ''9'']] i \<noteq> None \<and>
      parse_finite_float ([[''5'', ''N/A''], ['' 7'', ''9'']] ! 1 ! i) = Some x} =
      {\<lparr> Lane = 1, LaneFloat = f_of_nat 7 \<rparr>}"
    by (auto simp: less_Suc_eq scores num intro!: exI [of _ 0])
  then show ?thesis
    using eye_scores_exact [OF _ raws _ fam lanes, of 1] by simp
qed

end
