(* ===== verification/FEC_Histogram.thy ===== *)
theory FEC_Histogram
  imports Sections Scalars
begin

text \<open>
  The FEC histogram of \<open>internal/mlxlink/decoder.go\<close>: the bins of a section, all of them or
  none. The lemmas say that accepted bins are the run 0, 1, ... of every bin the section
  holds, whatever the order of the section, and that a printed histogram is read back.
\<close>

definition parse_fec_range :: "bytes \<Rightarrow> (nat \<times> nat) option" where
  "parse_fec_range text0 =
     (let raw = trim_space text0 in
      if length raw < 3 \<or> hd raw \<noteq> CHR ''['' \<or> last raw \<noteq> CHR '']'' then None
      else let parts = split_on (CHR '':'') (take (length raw - 2) (tl raw)) in
        if length parts < 1 \<or> 2 < length parts then None
        else case parse_uint 64 (trim_space (parts ! 0)) of
          Inl _ \<Rightarrow> None
        | Inr minimum \<Rightarrow>
            if length parts = 2 then
              (case parse_uint 64 (trim_space (parts ! 1)) of
                 Inl _ \<Rightarrow> None
               | Inr maximum \<Rightarrow> if maximum < minimum then None else Some (minimum, maximum))
            else Some (minimum, minimum))"

definition parse_fec_bin :: "bytes \<Rightarrow> json \<Rightarrow> fec_bin option" where
  "parse_fec_bin number raw =
     (case parse_nonnegative_int number of
        None \<Rightarrow> None
      | Some bin \<Rightarrow>
          (case raw_values (Some raw) of
             None \<Rightarrow> None
           | Some vs \<Rightarrow>
               if length vs \<noteq> 2 then None
               else case parse_fec_range (vs ! 0) of
                 None \<Rightarrow> None
               | Some (minimum, maximum) \<Rightarrow>
                   (case parse_uint 64 (trim_space (vs ! 1)) of
                      Inl _ \<Rightarrow> None
                    | Inr occurrences \<Rightarrow>
                        Some \<lparr> Bin = bin, ErrorCountMin = of_nat minimum,
                               ErrorCountMax = of_nat maximum, Occurrences = of_nat occurrences \<rparr>)))"

definition has_fec_header :: "json_section \<Rightarrow> bool" where
  "has_fec_header sec \<longleftrightarrow> raw_values (sec_get sec ''Header'') = Some [''Range'', ''Occurrences'']"

fun fec_collect :: "(bytes \<times> json) list \<Rightarrow> (int \<times> fec_bin) list \<Rightarrow> (int \<times> fec_bin) list option" where
  "fec_collect [] bins = Some bins"
| "fec_collect ((key, raw) # rest) bins =
     (if key = ''Header'' \<or> \<not> has_prefix key ''Bin '' then fec_collect rest bins
      else case parse_fec_bin (trim_prefix key ''Bin '') raw of
        None \<Rightarrow> None
      | Some bin \<Rightarrow>
          if map_of bins (Bin bin) \<noteq> None then None
          else fec_collect rest ((Bin bin, bin) # bins))"

definition consecutive_fec_bins :: "(int \<times> fec_bin) list \<Rightarrow> fec_bin list" where
  "consecutive_fec_bins bins_by_number =
     (if bins_by_number = [] then []
      else let bins = sort_key Bin (map snd bins_by_number) in
        if map Bin bins \<noteq> map int [0..<length bins] then [] else bins)"

definition decode_fec_histogram :: "json_section \<Rightarrow> fec_bin list" where
  "decode_fec_histogram sec =
     (if sec = None then []
      else if \<not> has_fec_header sec then []
      else case fec_collect (entries sec) [] of
        None \<Rightarrow> []
      | Some bins \<Rightarrow> consecutive_fec_bins bins)"

subsection \<open>Which bins are accepted\<close>

text \<open>The entries of a section that name a bin, and what one of them says.\<close>

definition bin_entries :: "(bytes \<times> json) list \<Rightarrow> (bytes \<times> json) list" where
  "bin_entries es = filter (\<lambda>(key, raw). key \<noteq> ''Header'' \<and> has_prefix key ''Bin '') es"

definition entry_bin :: "bytes \<times> json \<Rightarrow> fec_bin option" where
  "entry_bin e = parse_fec_bin (trim_prefix (fst e) ''Bin '') (snd e)"

lemma fec_collect_Some:
  "fec_collect es bins = Some bs \<longleftrightarrow>
     (\<exists>ps. map_all entry_bin (bin_entries es) = Some ps \<and> distinct (map Bin ps) \<and>
           fst ` set bins \<inter> Bin ` set ps = {} \<and> bs = rev (map (\<lambda>b. (Bin b, b)) ps) @ bins)"
proof (induction es bins rule: fec_collect.induct)
  case (2 key raw rest bins)
  show ?case
  proof (cases "key = ''Header'' \<or> \<not> has_prefix key ''Bin ''")
    case True
    then have "bin_entries ((key, raw) # rest) = bin_entries rest" by (auto simp: bin_entries_def)
    then show ?thesis using True 2(1) by simp
  next
    case False
    then have es: "bin_entries ((key, raw) # rest) = (key, raw) # bin_entries rest"
      by (simp add: bin_entries_def)
    show ?thesis
    proof (cases "entry_bin (key, raw)")
      case None
      then show ?thesis using False es by (simp add: entry_bin_def)
    next
      case (Some bin)
      then have p: "parse_fec_bin (trim_prefix key ''Bin '') raw = Some bin" by (simp add: entry_bin_def)
      have dup: "map_of bins (Bin bin) = None \<longleftrightarrow> Bin bin \<notin> fst ` set bins"
        by (simp add: map_of_eq_None_iff)
      have step: "fec_collect ((key, raw) # rest) bins =
          (if Bin bin \<in> fst ` set bins then None else fec_collect rest ((Bin bin, bin) # bins))"
        using False p dup by auto
      show ?thesis
      proof (cases "Bin bin \<in> fst ` set bins")
        case True
        then show ?thesis unfolding step es using Some by (auto split: option.splits)
      next
        case nodup: False
        have IH: "fec_collect rest ((Bin bin, bin) # bins) = Some bs \<longleftrightarrow>
            (\<exists>ps. map_all entry_bin (bin_entries rest) = Some ps \<and> distinct (map Bin ps) \<and>
              fst ` set ((Bin bin, bin) # bins) \<inter> Bin ` set ps = {} \<and>
              bs = rev (map (\<lambda>b. (Bin b, b)) ps) @ (Bin bin, bin) # bins)"
          using 2(2) [OF False p] nodup dup by auto
        show ?thesis unfolding step es using Some nodup IH by (auto split: option.splits)
      qed
    qed
  qed
qed (auto simp: bin_entries_def)

lemma parse_fec_range_ok:
  "parse_fec_range s = Some (a, b) \<Longrightarrow> a \<le> b \<and> b < 2 ^ 64"
  by (auto simp: parse_fec_range_def Let_def dest: parse_uint_bound split: if_splits sum.splits)

lemma word_of_nat_mono: "a \<le> b \<Longrightarrow> b < 2 ^ 64 \<Longrightarrow> (of_nat a :: 64 word) \<le> of_nat b"
  by (simp add: word_le_nat_alt unsigned_of_nat take_bit_nat_eq_self)

lemma parse_fec_bin_ok:
  "parse_fec_bin n raw = Some b \<Longrightarrow> ErrorCountMin b \<le> ErrorCountMax b"
  by (auto simp: parse_fec_bin_def dest!: parse_fec_range_ok intro!: word_of_nat_mono
      split: option.splits sum.splits if_splits prod.splits)

lemma consecutive_fec_bins_alt:
  "distinct (map Bin ps) \<Longrightarrow> consecutive_fec_bins (rev (map (\<lambda>b. (Bin b, b)) ps)) =
     (if map Bin (sort_key Bin ps) = map int [0..<length ps] then sort_key Bin ps else [])"
proof -
  assume d: "distinct (map Bin ps)"
  have "map snd (rev (map (\<lambda>b. (Bin b, b)) ps)) = rev ps" by (simp add: rev_map o_def)
  moreover have "sort_key Bin (rev ps) = sort_key Bin ps"
    by (rule sort_key_perm) (simp_all add: d rev_map [symmetric])
  ultimately show ?thesis by (simp add: consecutive_fec_bins_def Let_def)
qed

text \<open>The histogram a section is read as, without the loop.\<close>

lemma decode_fec_histogram_alt:
  "decode_fec_histogram (Some es) =
     (if has_fec_header (Some es) then
        (case map_all entry_bin (bin_entries es) of
           None \<Rightarrow> []
         | Some ps \<Rightarrow> if map Bin (sort_key Bin ps) = map int [0..<length ps] then sort_key Bin ps else [])
      else [])"
proof (cases "map_all entry_bin (bin_entries es)")
  case None
  then have "fec_collect es [] = None" using fec_collect_Some [of es "[]"]
    by (cases "fec_collect es []") auto
  then show ?thesis using None by (simp add: decode_fec_histogram_def entries_def)
next
  case (Some ps)
  show ?thesis
  proof (cases "distinct (map Bin ps)")
    case True
    then have "fec_collect es [] = Some (rev (map (\<lambda>b. (Bin b, b)) ps))"
      using fec_collect_Some [of es "[]"] Some by auto
    then show ?thesis using Some True
      by (simp add: decode_fec_histogram_def entries_def consecutive_fec_bins_alt)
  next
    case False
    then have "fec_collect es [] = None" using fec_collect_Some [of es "[]"] Some
      by (cases "fec_collect es []") auto
    moreover have "map Bin (sort_key Bin ps) \<noteq> map int [0..<length ps]"
    proof
      assume "map Bin (sort_key Bin ps) = map int [0..<length ps]"
      then show False using False distinct_of_sorted_run by blast
    qed
    ultimately show ?thesis using Some by (simp add: decode_fec_histogram_def entries_def)
  qed
qed

lemma decode_fec_histogram_ok [wf_intros]: "fec_ok (decode_fec_histogram sec)"
proof (cases sec)
  case (Some es)
  have ranges: "ErrorCountMin b \<le> ErrorCountMax b"
    if "map_all entry_bin (bin_entries es) = Some ps" "b \<in> set ps" for ps b
  proof -
    have "Some b \<in> set (map entry_bin (bin_entries es))"
      using that by (simp add: map_all_Some_iff)
    then obtain e where "entry_bin e = Some b" by force
    then show ?thesis unfolding entry_bin_def by (rule parse_fec_bin_ok)
  qed
  have "fec_ok (sort_key Bin ps)"
    if "map_all entry_bin (bin_entries es) = Some ps" "map Bin (sort_key Bin ps) = map int [0..<length ps]" for ps
    unfolding fec_ok_def using that(2) ranges [OF that(1)] by simp
  moreover have "fec_ok []" by (simp add: fec_ok_def)
  ultimately show ?thesis unfolding Some decode_fec_histogram_alt
    by (cases "map_all entry_bin (bin_entries es)") simp_all
qed (simp add: decode_fec_histogram_def fec_ok_def)

subsection \<open>Printing a histogram\<close>

text \<open>The section mlxlink prints for a histogram.\<close>

definition fec_entry :: "fec_bin \<Rightarrow> bytes \<times> json" where
  "fec_entry b =
     (''Bin '' @ dec (nat (Bin b)),
      values_json [''['' @ dec (unat (ErrorCountMin b)) @ '':'' @ dec (unat (ErrorCountMax b)) @ '']'',
                   dec (unat (Occurrences b))])"

definition fec_section :: "fec_bin list \<Rightarrow> (bytes \<times> json) list" where
  "fec_section bins = (''Header'', values_json [''Range'', ''Occurrences'']) # map fec_entry bins"

lemma parse_fec_range_print:
  assumes "a \<le> b" "b < 2 ^ 64"
  shows "parse_fec_range (''['' @ dec a @ '':'' @ dec b @ '']'') = Some (a, b)"
proof -
  let ?s = "''['' @ dec a @ '':'' @ dec b @ '']''"
  have t: "trim_space ?s = ?s" by (rule trim_space_graphic) (simp add: graphic_def)
  have c: "CHR '':'' \<notin> set (dec n)" for n
    using all_digits_dec [of n] by (auto simp: all_digits_def digit_val_def)
  have "split_on (CHR '':'') (dec a @ '':'' @ dec b) = [dec a, dec b]"
    using c by (simp add: split_on_append split_on_none)
  moreover have "take (length ?s - 2) (tl ?s) = dec a @ '':'' @ dec b" by simp
  moreover have "\<not> length ?s < 3" by (cases "dec a") simp_all
  ultimately show ?thesis using assms unfolding parse_fec_range_def t Let_def by simp
qed

lemma entry_bin_print:
  assumes "0 \<le> Bin b" "Bin b < 2 ^ 63" "ErrorCountMin b \<le> ErrorCountMax b"
  shows "entry_bin (fec_entry b) = Some b"
proof -
  have u: "unat w < 2 ^ 64" for w :: "64 word" using unsigned_less [of w] by simp
  have "nat (Bin b) < 2 ^ 63" using assms(1,2) by (simp add: nat_less_iff)
  then have n: "parse_nonnegative_int (dec (nat (Bin b))) = Some (Bin b)" using assms(1) by simp
  have range: "parse_fec_range (''['' @ dec (unat (ErrorCountMin b)) @ '':'' @ dec (unat (ErrorCountMax b)) @ '']'') =
      Some (unat (ErrorCountMin b), unat (ErrorCountMax b))"
    using assms(3) u by (intro parse_fec_range_print) (simp_all add: word_le_nat_alt)
  have count: "parse_uint 64 (trim_space (dec (unat (Occurrences b)))) = Inr (unat (Occurrences b))"
    using u by simp
  show ?thesis
    unfolding entry_bin_def fec_entry_def fst_conv snd_conv trim_prefix_append parse_fec_bin_def n
      raw_values_json option.case
    by (simp add: range [simplified] count [simplified])
qed

lemma decode_fec_print:
  assumes "fec_ok bins" and "length bins < 2 ^ 63"
  shows "decode_fec_histogram (Some (fec_section bins)) = bins"
proof -
  have bin: "0 \<le> Bin b \<and> Bin b < 2 ^ 63" if "b \<in> set bins" for b
  proof -
    have "Bin b \<in> set (map Bin bins)" using that by simp
    also have "set (map Bin bins) = int ` {0..<length bins}" using assms(1) by (simp add: fec_ok_def)
    finally show ?thesis using assms(2) by auto
  qed
  have e: "bin_entries (fec_section bins) = map fec_entry bins"
  proof -
    have "filter (\<lambda>(key, raw). key \<noteq> ''Header'' \<and> has_prefix key ''Bin '') (map fec_entry bins) = map fec_entry bins"
      by (simp add: fec_entry_def has_prefix_def)
    then show ?thesis by (simp add: bin_entries_def fec_section_def)
  qed
  have "map_all entry_bin (map fec_entry bins) = Some bins"
    unfolding map_all_Some_iff using bin assms(1) by (auto simp: fec_ok_def entry_bin_print)
  moreover have "has_fec_header (Some (fec_section bins))"
    by (simp add: has_fec_header_def sec_get_def entries_def fec_section_def)
  moreover have "sort_key Bin bins = bins"
    using assms(1) by (intro sort_key_id_if_sorted) (simp add: fec_ok_def sorted_map sorted_wrt_mono_rel)
  ultimately show ?thesis using assms(1)
    unfolding decode_fec_histogram_alt e by (simp add: fec_ok_def)
qed

text \<open>Two bins of a capture, the second with the largest count.\<close>

definition sample_bins :: "fec_bin list" where
  "sample_bins =
     [\<lparr> Bin = 0, ErrorCountMin = 0, ErrorCountMax = 0, Occurrences = -1 \<rparr>,
      \<lparr> Bin = 1, ErrorCountMin = 1, ErrorCountMax = 7, Occurrences = 12 \<rparr>]"

lemma sample_bins_ok: "fec_ok sample_bins" "length sample_bins = 2" "sample_bins \<noteq> []"
  by (simp_all add: sample_bins_def fec_ok_def)

subsection \<open>Properties\<close>

text \<open>
  C13: A histogram is accepted whole or not at all: a non-empty list of bins is the result
  exactly when the header is the expected one, the bins are numbered 0, 1, ... in the order
  of the result, and they are what the entries of the section named by a bin say, each of
  them readable and none left out.
\<close>

theorem fec_histogram_exact:
  "decode_fec_histogram (Some es) = bins \<and> bins \<noteq> [] \<longleftrightarrow>
     has_fec_header (Some es) \<and> bins \<noteq> [] \<and> map Bin bins = map int [0..<length bins] \<and>
     (\<exists>ps. map_all entry_bin (bin_entries es) = Some ps \<and> mset ps = mset bins)"
proof -
  have "sort_key Bin ps = bins"
    if "mset ps = mset bins" "map Bin bins = map int [0..<length bins]" for ps
  proof (rule sorted_distinct_key_unique [where f = Bin])
    show "sorted (map Bin bins)" unfolding that(2) by (simp add: sorted_map sorted_wrt_mono_rel)
    show "distinct (map Bin (sort_key Bin ps))" using that
      by (metis distinct_map distinct_upt inj_on_of_nat map_eq_conv mset_eq_imp_distinct_iff mset_map mset_sort)
  qed (simp_all add: that)
  moreover have "length ps = length bins" if "mset ps = mset bins" for ps
    using that by (metis size_mset)
  moreover have "mset ps = mset (sort_key Bin ps)" "length (sort_key Bin ps) = length ps" for ps
    by simp_all
  ultimately have "sort_key Bin ps = bins \<and> map Bin (sort_key Bin ps) = map int [0..<length ps] \<longleftrightarrow>
      map Bin bins = map int [0..<length bins] \<and> mset ps = mset bins" for ps
    by metis
  then show ?thesis unfolding decode_fec_histogram_alt
    by (cases "map_all entry_bin (bin_entries es)") auto
qed

text \<open>
  C38: The bins do not depend on the order in which the range over the section visits its
  entries.
\<close>

theorem fec_histogram_order_independent:
  assumes "mset es = mset es'" and "keys_distinct es"
  shows "decode_fec_histogram (Some es) = decode_fec_histogram (Some es')"
proof -
  have header: "has_fec_header (Some es) = has_fec_header (Some es')"
    by (simp add: has_fec_header_def sec_get_perm [OF assms])
  have m: "mset (map entry_bin (bin_entries es)) = mset (map entry_bin (bin_entries es'))"
    unfolding bin_entries_def using assms(1) by (simp add: mset_filter)
  show ?thesis
  proof (cases "map_all entry_bin (bin_entries es)")
    case None
    then have "map_all entry_bin (bin_entries es') = None" using map_all_perm [OF m [symmetric]]
      by (cases "map_all entry_bin (bin_entries es')") auto
    then show ?thesis using None unfolding decode_fec_histogram_alt header by simp
  next
    case (Some ps)
    then obtain qs where qs: "map_all entry_bin (bin_entries es') = Some qs" "mset ps = mset qs"
      using map_all_perm [OF m] by blast
    have "map Bin (sort_key Bin ps) = map Bin (sort_key Bin qs)"
      unfolding map_sort_key by (rule sort_perm [OF qs(2)])
    moreover have "length ps = length qs" by (rule mset_eq_length [OF qs(2)])
    moreover have "sort_key Bin ps = sort_key Bin qs"
      if "map Bin (sort_key Bin ps) = map int [0..<length ps]"
      using qs(2) that by (intro sort_key_perm distinct_of_sorted_run)
    ultimately show ?thesis using Some qs unfolding decode_fec_histogram_alt header by auto
  qed
qed

lemma fec_histogram_order_independent_witness:
  "decode_fec_histogram (Some (rev (fec_section sample_bins))) = sample_bins"
proof -
  have "dec 0 = ''0''" "dec 1 = ''1''" by code_simp+
  then have "keys_distinct (fec_section sample_bins)"
    by (simp add: keys_distinct_def fec_section_def fec_entry_def sample_bins_def)
  then have "decode_fec_histogram (Some (fec_section sample_bins)) =
      decode_fec_histogram (Some (rev (fec_section sample_bins)))"
    by (intro fec_histogram_order_independent) simp_all
  then show ?thesis using sample_bins_ok by (simp add: decode_fec_print)
qed

text \<open>
  C14: A printed histogram is read back: no bin is lost, no count is rounded, and both ends of
  every range keep all 64 bits.
\<close>

theorem fec_histogram_roundtrip:
  assumes "fec_ok bins" and "length bins < 2 ^ 63"
  shows "decode_fec_histogram (Some (fec_section bins)) = bins"
  by (rule decode_fec_print [OF assms])

lemma fec_histogram_roundtrip_witness:
  "decode_fec_histogram (Some (fec_section sample_bins)) = sample_bins \<and> sample_bins \<noteq> []"
  using fec_histogram_roundtrip [of sample_bins] sample_bins_ok by simp

end
