(* ===== verification/SerDes.thy ===== *)
theory SerDes
  imports Sections Scalars "HOL-Library.Char_ord" "HOL-Library.List_Lexorder"
    "HOL-Library.Product_Lexorder"
begin

text \<open>
  The SerDes transmitter section of \<open>internal/mlxlink/decoder.go\<close>: a header of parameter
  names that each lane's values are zipped with, of which an allowlist is kept. The lemmas
  say what is kept, that it is sorted by lane and tap without repetition, and that the order
  of the maps the code ranges over cannot be seen in the result.
\<close>

definition serdes_parameter :: "bytes \<Rightarrow> bytes option" where
  "serdes_parameter parameter =
     (if parameter = ''fir_pre3'' then Some ''pre3''
      else if parameter = ''fir_pre2'' then Some ''pre2''
      else if parameter = ''fir_pre1'' then Some ''pre1''
      else if parameter = ''fir_main'' then Some ''main''
      else if parameter = ''fir_post1'' then Some ''post1''
      else if parameter = ''drv_amp'' then Some ''''
      else None)"

fun serdes_names :: "bytes list \<Rightarrow> bytes list \<Rightarrow> bytes list option" where
  "serdes_names seen [] = Some []"
| "serdes_names seen (raw # rest) =
     (let name = trim_space raw in
      if name \<in> set seen then None else map_option (Cons name) (serdes_names (name # seen) rest))"

definition serdes_header :: "json_section \<Rightarrow> bytes list option" where
  "serdes_header sec =
     (case raw_values (sec_get sec ''Serdes TX parameters'') of
        None \<Rightarrow> None
      | Some parameters \<Rightarrow> if parameters = [] then None else serdes_names [] parameters)"

fun serdes_collect :: "nat \<Rightarrow> (bytes \<times> json) list \<Rightarrow> (int \<times> bytes list) list \<Rightarrow> (int \<times> bytes list) list option" where
  "serdes_collect parameter_count [] lanes = Some lanes"
| "serdes_collect parameter_count ((key, raw) # rest) lanes =
     (if key = ''Serdes TX parameters'' \<or> \<not> has_prefix key ''Lane '' then
        serdes_collect parameter_count rest lanes
      else case parse_nonnegative_int (trim_prefix key ''Lane '') of
        None \<Rightarrow> None
      | Some lane \<Rightarrow>
          if map_of lanes lane \<noteq> None then None
          else case raw_values (Some raw) of
            None \<Rightarrow> None
          | Some vs \<Rightarrow>
              if length vs \<noteq> parameter_count then None
              else serdes_collect parameter_count rest ((lane, vs) # lanes))"

definition serdes_lanes :: "json_section \<Rightarrow> nat \<Rightarrow> (int \<times> bytes list) list option" where
  "serdes_lanes sec parameter_count = serdes_collect parameter_count (entries sec) []"

fun known_values_from :: "bytes list \<Rightarrow> bytes list \<Rightarrow> (bytes \<times> float64) list \<Rightarrow> (bytes \<times> float64) list option" where
  "known_values_from (parameter # parameters) (v # vs) known =
     (if serdes_parameter parameter = None then known_values_from parameters vs known
      else case parse_finite_float v of
        None \<Rightarrow> None
      | Some x \<Rightarrow> known_values_from parameters vs (AList.update parameter x known))"
| "known_values_from _ _ known = Some known"

definition serdes_known_values :: "bytes list \<Rightarrow> bytes list \<Rightarrow> (bytes \<times> float64) list option" where
  "serdes_known_values parameters vs = known_values_from parameters vs []"

fun append_serdes_lane :: "serdes_tx \<Rightarrow> int \<Rightarrow> (bytes \<times> float64) list \<Rightarrow> serdes_tx" where
  "append_serdes_lane decoded lane [] = decoded"
| "append_serdes_lane decoded lane ((parameter, x) # known) =
     (let tap = (case serdes_parameter parameter of None \<Rightarrow> '''' | Some t \<Rightarrow> t) in
      append_serdes_lane
        (if parameter = ''drv_amp''
         then decoded\<lparr> DriveAmplitude := DriveAmplitude decoded @ [\<lparr> Lane = lane, LaneFloat = x \<rparr>] \<rparr>
         else decoded\<lparr> FIRCoefficients := FIRCoefficients decoded @
                         [\<lparr> FIRLane = lane, FIRTap = tap, FIRValue = x \<rparr>] \<rparr>)
        lane known)"

text \<open>
  A range over a map may visit it in any order, and in another one each time: \<open>known_order\<close>
  is the order of the range over the known values of a lane, \<open>lane_order\<close> below the order of
  the range over the lanes.
\<close>

fun append_serdes_lanes ::
  "(int \<Rightarrow> (bytes \<times> float64) list \<Rightarrow> (bytes \<times> float64) list) \<Rightarrow> bytes list \<Rightarrow>
   (int \<times> bytes list) list \<Rightarrow> serdes_tx \<Rightarrow> serdes_tx" where
  "append_serdes_lanes known_order parameters [] decoded = decoded"
| "append_serdes_lanes known_order parameters ((lane, vs) # lanes) decoded =
     append_serdes_lanes known_order parameters lanes
       (case serdes_known_values parameters vs of
          None \<Rightarrow> decoded
        | Some known \<Rightarrow> append_serdes_lane decoded lane (known_order lane known))"

text \<open>The two stable sorts: by lane and then tap in the order of bytes, and by lane.\<close>

definition sort_serdes :: "serdes_tx \<Rightarrow> serdes_tx" where
  "sort_serdes decoded =
     \<lparr> FIRCoefficients = sort_key fir_key (FIRCoefficients decoded),
       DriveAmplitude = sort_key Lane (DriveAmplitude decoded) \<rparr>"

definition decode_serdes_tx_in ::
  "((int \<times> bytes list) list \<Rightarrow> (int \<times> bytes list) list) \<Rightarrow>
   (int \<Rightarrow> (bytes \<times> float64) list \<Rightarrow> (bytes \<times> float64) list) \<Rightarrow> json_section \<Rightarrow> serdes_tx" where
  "decode_serdes_tx_in lane_order known_order sec =
     (if sec = None then no_serdes
      else case serdes_header sec of
        None \<Rightarrow> no_serdes
      | Some parameters \<Rightarrow>
          (case serdes_lanes sec (length parameters) of
             None \<Rightarrow> no_serdes
           | Some lanes \<Rightarrow>
               sort_serdes (append_serdes_lanes known_order parameters (lane_order lanes) no_serdes)))"

definition decode_serdes_tx :: "json_section \<Rightarrow> serdes_tx" where
  "decode_serdes_tx sec = decode_serdes_tx_in id (\<lambda>lane. id) sec"

subsection \<open>The loops without accumulators\<close>

lemma serdes_names_alt:
  "serdes_names seen raws =
     (if distinct (map trim_space raws) \<and> set (map trim_space raws) \<inter> set seen = {}
      then Some (map trim_space raws) else None)"
  by (induction raws arbitrary: seen) (auto simp: Let_def)

lemma serdes_header_distinct: "serdes_header sec = Some ps \<Longrightarrow> distinct ps"
  by (auto simp: serdes_header_def serdes_names_alt split: option.splits if_splits)

text \<open>The entries of a section that name a lane, and what one of them says.\<close>

definition lane_entries :: "(bytes \<times> json) list \<Rightarrow> (bytes \<times> json) list" where
  "lane_entries es = filter (\<lambda>(key, raw). key \<noteq> ''Serdes TX parameters'' \<and> has_prefix key ''Lane '') es"

definition entry_lane :: "nat \<Rightarrow> bytes \<times> json \<Rightarrow> (int \<times> bytes list) option" where
  "entry_lane n e =
     (case parse_nonnegative_int (trim_prefix (fst e) ''Lane '') of
        None \<Rightarrow> None
      | Some lane \<Rightarrow>
          (case raw_values (Some (snd e)) of
             None \<Rightarrow> None
           | Some vs \<Rightarrow> if length vs \<noteq> n then None else Some (lane, vs)))"

lemma entry_lane_nonneg: "entry_lane n e = Some (l, vs) \<Longrightarrow> 0 \<le> l \<and> length vs = n"
  unfolding entry_lane_def
  by (auto simp: parse_nonnegative_int_Some split: option.splits if_splits)

lemma serdes_collect_Some:
  "serdes_collect n es lanes = Some ls \<longleftrightarrow>
     (\<exists>qs. map_all (entry_lane n) (lane_entries es) = Some qs \<and> distinct (map fst qs) \<and>
           fst ` set lanes \<inter> fst ` set qs = {} \<and> ls = rev qs @ lanes)"
proof (induction es arbitrary: lanes)
  case (Cons e es)
  obtain key raw where e: "e = (key, raw)" by (cases e)
  show ?case
  proof (cases "key = ''Serdes TX parameters'' \<or> \<not> has_prefix key ''Lane ''")
    case True
    then have "lane_entries (e # es) = lane_entries es" by (auto simp: e lane_entries_def)
    then show ?thesis using True Cons.IH by (simp add: e)
  next
    case False
    then have es: "lane_entries (e # es) = e # lane_entries es" by (simp add: e lane_entries_def)
    have step: "serdes_collect n (e # es) lanes =
        (case entry_lane n e of
           None \<Rightarrow> None
         | Some (l, vs) \<Rightarrow> if l \<in> fst ` set lanes then None else serdes_collect n es ((l, vs) # lanes))"
      using False by (auto simp: e entry_lane_def map_of_eq_None_iff split: option.splits)
    show ?thesis
    proof (cases "entry_lane n e")
      case (Some q)
      then obtain l vs where q: "entry_lane n e = Some (l, vs)" by (cases q) auto
      show ?thesis unfolding step es using q Cons.IH [of "(l, vs) # lanes"]
        by (auto split: option.splits)
    qed (simp add: step es)
  qed
qed (auto simp: lane_entries_def)

lemma known_values_from_alt:
  "length vs = length ps \<Longrightarrow> known_values_from ps vs known =
     map_option (\<lambda>kvs. store_members kvs known)
       (map_all (\<lambda>(p, v). map_option (Pair p) (parse_finite_float v))
          (filter (\<lambda>(p, v). serdes_parameter p \<noteq> None) (zip ps vs)))"
proof (induction ps vs known rule: known_values_from.induct)
  case (1 p ps v vs known)
  show ?case
  proof (cases "parse_finite_float v")
    case (Some x)
    then show ?thesis using 1(1) 1(2) [OF _ Some] 1(3)
      by (auto simp: store_members_def split: option.splits)
  qed (use 1(1) 1(3) in auto)
qed (auto simp: store_members_def)

subsection \<open>What a lane contributes\<close>

definition tap_of :: "bytes \<Rightarrow> bytes" where
  "tap_of p = (case serdes_parameter p of None \<Rightarrow> '''' | Some t \<Rightarrow> t)"

definition lane_firs :: "int \<Rightarrow> (bytes \<times> float64) list \<Rightarrow> fir_coefficient list" where
  "lane_firs lane known =
     map (\<lambda>(p, x). \<lparr> FIRLane = lane, FIRTap = tap_of p, FIRValue = x \<rparr>)
       (filter (\<lambda>(p, x). p \<noteq> ''drv_amp'') known)"

definition lane_drives :: "int \<Rightarrow> (bytes \<times> float64) list \<Rightarrow> lane_value list" where
  "lane_drives lane known =
     map (\<lambda>(p, x). \<lparr> Lane = lane, LaneFloat = x \<rparr>) (filter (\<lambda>(p, x). p = ''drv_amp'') known)"

lemma append_serdes_lane_alt:
  "append_serdes_lane d lane known =
     \<lparr> FIRCoefficients = FIRCoefficients d @ lane_firs lane known,
       DriveAmplitude = DriveAmplitude d @ lane_drives lane known \<rparr>"
proof (induction d lane known rule: append_serdes_lane.induct)
  case (2 d lane p x known)
  then show ?case by (cases "p = ''drv_amp''") (auto simp: lane_firs_def lane_drives_def Let_def tap_of_def)
qed (simp add: lane_firs_def lane_drives_def)

definition known_of :: "bytes list \<Rightarrow> bytes list \<Rightarrow> (bytes \<times> float64) list" where
  "known_of ps vs = (case serdes_known_values ps vs of None \<Rightarrow> [] | Some known \<Rightarrow> known)"

lemma append_serdes_lanes_alt:
  assumes "\<And>lane. known_order lane [] = []"
  shows "append_serdes_lanes known_order ps lanes d =
     \<lparr> FIRCoefficients = FIRCoefficients d @
         concat (map (\<lambda>(lane, vs). lane_firs lane (known_order lane (known_of ps vs))) lanes),
       DriveAmplitude = DriveAmplitude d @
         concat (map (\<lambda>(lane, vs). lane_drives lane (known_order lane (known_of ps vs))) lanes) \<rparr>"
proof (induction lanes arbitrary: d)
  case (Cons q lanes)
  obtain lane vs where q: "q = (lane, vs)" by (cases q)
  show ?case
    by (cases "serdes_known_values ps vs")
      (simp_all add: q Cons.IH append_serdes_lane_alt known_of_def assms, simp_all add: lane_firs_def lane_drives_def)
qed simp

lemma map_all_pair_keys:
  "map_all (\<lambda>(p, v). map_option (Pair p) (g v)) xs = Some kvs \<Longrightarrow> map fst kvs = map fst xs"
  by (induction xs arbitrary: kvs) (auto split: option.splits)

lemma map_all_pair_values:
  "map_all (\<lambda>(p, v). map_option (Pair p) (g v)) xs = Some kvs \<Longrightarrow> (p, x) \<in> set kvs \<Longrightarrow>
   \<exists>v. (p, v) \<in> set xs \<and> g v = Some x"
proof -
  assume h: "map_all (\<lambda>(p, v). map_option (Pair p) (g v)) xs = Some kvs" "(p, x) \<in> set kvs"
  then have "Some (p, x) \<in> set (map (\<lambda>(p, v). map_option (Pair p) (g v)) xs)"
    by (simp add: map_all_Some_iff)
  then obtain q v where "(q, v) \<in> set xs" "Some (p, x) = map_option (Pair q) (g v)" by auto
  then show ?thesis by (cases "g v") auto
qed

definition known_entries :: "bytes list \<Rightarrow> bytes list \<Rightarrow> (bytes \<times> bytes) list" where
  "known_entries ps vs = filter (\<lambda>(p, v). serdes_parameter p \<noteq> None) (zip ps vs)"

lemma known_of_alt:
  assumes "distinct ps" and "length vs = length ps"
  shows "known_of ps vs =
    (case map_all (\<lambda>(p, v). map_option (Pair p) (parse_finite_float v)) (known_entries ps vs) of
       None \<Rightarrow> [] | Some kvs \<Rightarrow> kvs)"
proof (cases "map_all (\<lambda>(p, v). map_option (Pair p) (parse_finite_float v)) (known_entries ps vs)")
  case (Some kvs)
  have "distinct (map fst (known_entries ps vs))"
    unfolding known_entries_def using assms by (intro distinct_map_filter) simp
  then have "store_members kvs [] = kvs"
    using store_members_distinct_id [of "[]" kvs] map_all_pair_keys [OF Some] by simp
  then show ?thesis using Some known_values_from_alt [OF assms(2)]
    by (simp add: known_of_def serdes_known_values_def known_entries_def)
qed (use known_values_from_alt [OF assms(2)] in
    \<open>simp add: known_of_def serdes_known_values_def known_entries_def\<close>)

lemma known_of_ok:
  assumes "distinct ps" and "length vs = length ps"
  shows "keys_distinct (known_of ps vs)"
    and "(p, x) \<in> set (known_of ps vs) \<Longrightarrow> p \<in> set ps \<and> serdes_parameter p \<noteq> None \<and> number_ok x"
proof -
  show "keys_distinct (known_of ps vs)"
  proof (cases "map_all (\<lambda>(p, v). map_option (Pair p) (parse_finite_float v)) (known_entries ps vs)")
    case (Some kvs)
    have "distinct (map fst (known_entries ps vs))"
      unfolding known_entries_def using assms by (intro distinct_map_filter) simp
    then show ?thesis using map_all_pair_keys [OF Some] Some
      by (simp add: known_of_alt [OF assms] keys_distinct_def)
  qed (simp add: known_of_alt [OF assms] keys_distinct_def)
  assume "(p, x) \<in> set (known_of ps vs)"
  then obtain v where "(p, v) \<in> set (known_entries ps vs)" "parse_finite_float v = Some x"
    unfolding known_of_alt [OF assms] using map_all_pair_values
    by (cases "map_all (\<lambda>(p, v). map_option (Pair p) (parse_finite_float v)) (known_entries ps vs)")
      fastforce+
  then show "p \<in> set ps \<and> serdes_parameter p \<noteq> None \<and> number_ok x"
    using parse_finite_float_ok by (auto simp: known_entries_def dest: set_zip_leftD)
qed

text \<open>The taps of the allowlist, and that no two parameters share one.\<close>

definition serdes_table :: "(bytes \<times> bytes) list" where
  "serdes_table =
     [(''fir_pre3'', ''pre3''), (''fir_pre2'', ''pre2''), (''fir_pre1'', ''pre1''),
      (''fir_main'', ''main''), (''fir_post1'', ''post1''), (''drv_amp'', '''')]"

lemma serdes_parameter_table: "serdes_parameter p = map_of serdes_table p"
  by (simp add: serdes_parameter_def serdes_table_def)

lemma serdes_parameter_SomeD: "serdes_parameter p = Some t \<Longrightarrow> (p, t) \<in> set serdes_table"
  unfolding serdes_parameter_table by (rule map_of_SomeD)

lemma tap_of_taps: "serdes_parameter p \<noteq> None \<Longrightarrow> p \<noteq> ''drv_amp'' \<Longrightarrow> tap_of p \<in> fir_taps"
  unfolding tap_of_def fir_taps_def
  by (cases "serdes_parameter p") (auto simp: serdes_table_def dest!: serdes_parameter_SomeD)

lemma tap_of_inject:
  assumes "serdes_parameter p \<noteq> None" and "serdes_parameter q \<noteq> None" and "tap_of p = tap_of q"
  shows "p = q"
proof -
  have "distinct (map snd serdes_table)" by (simp add: serdes_table_def)
  then have inj: "inj_on snd (set serdes_table)" by (simp add: distinct_map)
  have "(p, tap_of p) \<in> set serdes_table" "(q, tap_of q) \<in> set serdes_table"
    using assms(1,2) by (auto simp: tap_of_def dest: serdes_parameter_SomeD)
  then show ?thesis using inj_onD [OF inj] assms(3) by fastforce
qed

subsection \<open>The decoded section\<close>

lemma mset_concat_perm:
  assumes "mset xs = mset ys" and "\<And>x. x \<in> set xs \<Longrightarrow> mset (f x) = mset (g x)"
  shows "mset (concat (map f xs)) = mset (concat (map g ys))"
proof -
  have "mset (concat (map f xs)) = (\<Sum>x \<in># mset xs. mset (f x))"
    by (simp add: mset_concat sum_mset_sum_list [symmetric] o_def)
  also have "\<dots> = (\<Sum>x \<in># mset xs. mset (g x))"
    by (intro arg_cong [where f = sum_mset] image_mset_cong) (simp add: assms(2))
  also have "\<dots> = mset (concat (map g ys))"
    unfolding assms(1) by (simp add: mset_concat sum_mset_sum_list [symmetric] o_def)
  finally show ?thesis .
qed

definition all_firs :: "(int \<Rightarrow> (bytes \<times> float64) list \<Rightarrow> (bytes \<times> float64) list) \<Rightarrow> bytes list \<Rightarrow>
    (int \<times> bytes list) list \<Rightarrow> fir_coefficient list" where
  "all_firs ko ps lanes = concat (map (\<lambda>(l, vs). lane_firs l (ko l (known_of ps vs))) lanes)"

definition all_drives :: "(int \<Rightarrow> (bytes \<times> float64) list \<Rightarrow> (bytes \<times> float64) list) \<Rightarrow> bytes list \<Rightarrow>
    (int \<times> bytes list) list \<Rightarrow> lane_value list" where
  "all_drives ko ps lanes = concat (map (\<lambda>(l, vs). lane_drives l (ko l (known_of ps vs))) lanes)"

text \<open>The lanes a section names, when each of its entries is readable and no lane is named twice.\<close>

lemma serdes_lanes_alt:
  "serdes_lanes (Some es) n =
     (case map_all (entry_lane n) (lane_entries es) of
        None \<Rightarrow> None
      | Some qs \<Rightarrow> if distinct (map fst qs) then Some (rev qs) else None)"
proof (cases "serdes_collect n es []")
  case None
  then show ?thesis using serdes_collect_Some [of n es "[]"]
    by (auto simp: serdes_lanes_def entries_def split: option.splits)
next
  case (Some ls)
  then show ?thesis using serdes_collect_Some [of n es "[]" ls]
    by (auto simp: serdes_lanes_def entries_def)
qed

lemma serdes_lanes_ok:
  assumes "serdes_lanes (Some es) n = Some lanes"
  shows "distinct (map fst lanes)" and "(l, vs) \<in> set lanes \<Longrightarrow> 0 \<le> l \<and> length vs = n"
proof -
  obtain qs where qs: "map_all (entry_lane n) (lane_entries es) = Some qs" "distinct (map fst qs)" "lanes = rev qs"
    using assms by (auto simp: serdes_lanes_alt split: option.splits if_splits)
  then show "distinct (map fst lanes)" by (metis distinct_rev rev_map)
  assume "(l, vs) \<in> set lanes"
  then have "Some (l, vs) \<in> set (map (entry_lane n) (lane_entries es))"
    using qs by (simp add: map_all_Some_iff)
  then obtain e where "entry_lane n e = Some (l, vs)" by force
  then show "0 \<le> l \<and> length vs = n" by (rule entry_lane_nonneg)
qed

lemma decode_serdes_tx_in_alt:
  assumes "\<And>lane known. mset (ko lane known) = mset known"
  shows "decode_serdes_tx_in lo ko sec =
     (if sec = None then no_serdes
      else case serdes_header sec of
        None \<Rightarrow> no_serdes
      | Some ps \<Rightarrow> (case serdes_lanes sec (length ps) of
           None \<Rightarrow> no_serdes
         | Some lanes \<Rightarrow>
             \<lparr> FIRCoefficients = sort_key fir_key (all_firs ko ps (lo lanes)),
               DriveAmplitude = sort_key Lane (all_drives ko ps (lo lanes)) \<rparr>))"
proof -
  have "ko lane [] = []" for lane using assms [of lane "[]"] by simp
  from append_serdes_lanes_alt [where known_order = ko, OF this] show ?thesis
    by (simp add: decode_serdes_tx_in_def sort_serdes_def all_firs_def all_drives_def no_serdes_def
        split: option.split)
qed

lemma distinct_concat_keys:
  assumes "distinct (map fst lanes)"
    and "\<And>q. q \<in> set lanes \<Longrightarrow> distinct (map key (f q))"
    and "\<And>q c. q \<in> set lanes \<Longrightarrow> c \<in> set (f q) \<Longrightarrow> lane_of (key c) = fst q"
  shows "distinct (map key (concat (map f lanes)))"
  using assms
proof (induction lanes)
  case (Cons q lanes)
  have "key c \<noteq> key c'" if "c \<in> set (f q)" "q' \<in> set lanes" "c' \<in> set (f q')" for c q' c'
  proof
    assume "key c = key c'"
    then have "fst q = fst q'" using Cons.prems(3) that by (metis list.set_intros)
    then show False using Cons.prems(1) that(2) by auto
  qed
  then have "set (map key (f q)) \<inter> set (map key (concat (map f lanes))) = {}" by auto
  moreover have "distinct (map key (concat (map f lanes)))"
    using Cons.prems by (intro Cons.IH) simp_all
  moreover have "distinct (map key (f q))" using Cons.prems(2) by simp
  ultimately show ?case by simp
qed simp

lemma single_key: "distinct (map fst xs) \<Longrightarrow> \<forall>q \<in> set xs. fst q = c \<Longrightarrow> length xs \<le> 1"
  by (cases xs rule: remdups_adj.cases) auto

lemma lane_firs_keys:
  assumes "distinct ps" "length vs = length ps"
  shows "distinct (map fir_key (lane_firs l (known_of ps vs)))"
proof -
  have d: "distinct (map fst (filter (\<lambda>(p, x). p \<noteq> ''drv_amp'') (known_of ps vs)))"
    using known_of_ok(1) [OF assms] by (simp add: keys_distinct_def distinct_map_filter)
  have "inj_on (\<lambda>(p, x). (l, tap_of p)) (set (filter (\<lambda>(p, x). p \<noteq> ''drv_amp'') (known_of ps vs)))"
  proof (rule inj_onI)
    fix a b assume a: "a \<in> set (filter (\<lambda>(p, x). p \<noteq> ''drv_amp'') (known_of ps vs))"
      and b: "b \<in> set (filter (\<lambda>(p, x). p \<noteq> ''drv_amp'') (known_of ps vs))"
      and e: "(case a of (p, x) \<Rightarrow> (l, tap_of p)) = (case b of (p, x) \<Rightarrow> (l, tap_of p))"
    obtain p x q y where ab: "a = (p, x)" "b = (q, y)" by (cases a; cases b)
    have "p = q"
    proof (rule tap_of_inject)
      show "serdes_parameter p \<noteq> None" using known_of_ok(2) [OF assms, of p x] a ab by simp
      show "serdes_parameter q \<noteq> None" using known_of_ok(2) [OF assms, of q y] b ab by simp
      show "tap_of p = tap_of q" using e ab by simp
    qed
    then have f: "fst a = fst b" by (simp add: ab)
    have "inj_on fst (set (filter (\<lambda>(p, x). p \<noteq> ''drv_amp'') (known_of ps vs)))"
      using d unfolding distinct_map by (rule conjunct2)
    from this f a b show "a = b" by (rule inj_onD)
  qed
  moreover have "distinct (filter (\<lambda>(p, x). p \<noteq> ''drv_amp'') (known_of ps vs))"
    using d distinct_map by blast
  ultimately show ?thesis
    by (simp add: lane_firs_def distinct_map comp_def fir_key_def case_prod_unfold)
qed

lemma lane_drives_keys:
  assumes "distinct ps" "length vs = length ps"
  shows "distinct (map Lane (lane_drives l (known_of ps vs)))"
proof -
  let ?xs = "filter (\<lambda>(p, x). p = ''drv_amp'') (known_of ps vs)"
  have "distinct (map fst ?xs)"
    using known_of_ok(1) [OF assms] by (simp add: keys_distinct_def distinct_map_filter)
  moreover have "\<forall>q \<in> set ?xs. fst q = ''drv_amp''" by auto
  ultimately have "length ?xs \<le> 1" by (rule single_key)
  then show ?thesis by (cases ?xs) (simp_all add: lane_drives_def)
qed

lemma all_keys_distinct:
  assumes "serdes_header (Some es) = Some ps" and "serdes_lanes (Some es) (length ps) = Some lanes"
  shows "distinct (map fir_key (all_firs (\<lambda>lane. id) ps lanes))"
    and "distinct (map Lane (all_drives (\<lambda>lane. id) ps lanes))"
proof -
  have ps: "distinct ps" by (rule serdes_header_distinct [OF assms(1)])
  have len: "length vs = length ps" if "(l, vs) \<in> set lanes" for l vs
    using serdes_lanes_ok(2) [OF assms(2) that] by simp
  show "distinct (map fir_key (all_firs (\<lambda>lane. id) ps lanes))"
    unfolding all_firs_def
    using serdes_lanes_ok(1) [OF assms(2)] len lane_firs_keys [OF ps]
    by (intro distinct_concat_keys [where lane_of = fst])
      (auto simp: lane_firs_def fir_key_def split: prod.splits)
  show "distinct (map Lane (all_drives (\<lambda>lane. id) ps lanes))"
    unfolding all_drives_def
    using serdes_lanes_ok(1) [OF assms(2)] len lane_drives_keys [OF ps]
    by (intro distinct_concat_keys [where lane_of = id])
      (auto simp: lane_drives_def split: prod.splits)
qed

lemma all_firs_member:
  assumes "c \<in> set (all_firs (\<lambda>lane. id) ps lanes)"
  obtains l vs p x where "(l, vs) \<in> set lanes" "(p, x) \<in> set (known_of ps vs)" "p \<noteq> ''drv_amp''"
    "c = \<lparr> FIRLane = l, FIRTap = tap_of p, FIRValue = x \<rparr>"
  using assms unfolding all_firs_def lane_firs_def by auto

lemma all_drives_member:
  assumes "c \<in> set (all_drives (\<lambda>lane. id) ps lanes)"
  obtains l vs p x where "(l, vs) \<in> set lanes" "(p, x) \<in> set (known_of ps vs)" "p = ''drv_amp''"
    "c = \<lparr> Lane = l, LaneFloat = x \<rparr>"
  using assms unfolding all_drives_def lane_drives_def by auto

lemma decode_serdes_tx_ok [wf_intros]:
  "serdes_ok (decode_serdes_tx sec) \<and> sorted (map fir_key (FIRCoefficients (decode_serdes_tx sec)))"
proof (cases "\<exists>es ps lanes. sec = Some es \<and> serdes_header sec = Some ps \<and> serdes_lanes sec (length ps) = Some lanes")
  case True
  then obtain es ps lanes where s: "sec = Some es" and ps: "serdes_header (Some es) = Some ps"
    and lanes: "serdes_lanes (Some es) (length ps) = Some lanes" by blast
  have d: "decode_serdes_tx sec = \<lparr> FIRCoefficients = sort_key fir_key (all_firs (\<lambda>lane. id) ps lanes),
      DriveAmplitude = sort_key Lane (all_drives (\<lambda>lane. id) ps lanes) \<rparr>"
    using ps lanes s by (simp add: decode_serdes_tx_def decode_serdes_tx_in_alt)
  have ok: "0 \<le> l \<and> number_ok x \<and> serdes_parameter p \<noteq> None"
    if "(l, vs) \<in> set lanes" "(p, x) \<in> set (known_of ps vs)" for l vs p x
    using serdes_lanes_ok(2) [OF lanes that(1)]
      known_of_ok(2) [OF serdes_header_distinct [OF ps] _ that(2)] by blast
  have "lanes_ok (DriveAmplitude (decode_serdes_tx sec))"
    unfolding d lanes_ok_def using strict_sorted_map_sort_key [OF all_keys_distinct(2) [OF ps lanes]]
    by (auto elim!: all_drives_member dest: ok)
  moreover have "distinct (map fir_key (FIRCoefficients (decode_serdes_tx sec)))"
    unfolding d using all_keys_distinct(1) [OF ps lanes]
    by (simp add: map_sort_key)
  moreover have "0 \<le> FIRLane c \<and> FIRTap c \<in> fir_taps \<and> number_ok (FIRValue c)"
    if "c \<in> set (FIRCoefficients (decode_serdes_tx sec))" for c
    using that unfolding d by (auto elim!: all_firs_member dest: ok intro!: tap_of_taps)
  moreover have "sorted (map fir_key (FIRCoefficients (decode_serdes_tx sec)))"
    unfolding d by simp
  ultimately show ?thesis by (simp add: serdes_ok_def)
next
  case False
  then have "decode_serdes_tx sec = no_serdes"
    by (cases sec) (auto simp: decode_serdes_tx_def decode_serdes_tx_in_def split: option.splits)
  then show ?thesis by (simp add: zero_values_ok, simp add: no_serdes_def)
qed

lemma serdes_lanes_perm:
  assumes "mset es = mset es'" and "serdes_lanes (Some es) n = Some lanes"
  shows "\<exists>lanes'. serdes_lanes (Some es') n = Some lanes' \<and> mset lanes = mset lanes'"
proof -
  have m: "mset (map (entry_lane n) (lane_entries es)) = mset (map (entry_lane n) (lane_entries es'))"
    unfolding lane_entries_def using assms(1) by (simp add: mset_filter)
  obtain qs where qs: "map_all (entry_lane n) (lane_entries es) = Some qs"
    "distinct (map fst qs)" "lanes = rev qs"
    using assms(2) by (auto simp: serdes_lanes_alt split: option.splits if_splits)
  obtain qs' where qs': "map_all (entry_lane n) (lane_entries es') = Some qs'" "mset qs = mset qs'"
    using map_all_perm [OF m qs(1)] by blast
  have "distinct (map fst qs')" using qs(2) qs'(2) by (metis mset_eq_imp_distinct_iff mset_map)
  then show ?thesis using qs(3) qs' by (simp add: serdes_lanes_alt)
qed

lemma decode_serdes_tx_order:
  assumes "mset es = mset es'" and "keys_distinct es"
    and lo: "\<And>lanes. mset (lo lanes) = mset lanes" and ko: "\<And>lane known. mset (ko lane known) = mset known"
  shows "decode_serdes_tx_in lo ko (Some es') = decode_serdes_tx (Some es)"
proof -
  have header: "serdes_header (Some es') = serdes_header (Some es)"
    by (simp add: serdes_header_def sec_get_perm [OF assms(1,2)])
  show ?thesis
  proof (cases "\<exists>ps lanes. serdes_header (Some es) = Some ps \<and> serdes_lanes (Some es) (length ps) = Some lanes")
    case True
    then obtain ps lanes where ps: "serdes_header (Some es) = Some ps"
      and lanes: "serdes_lanes (Some es) (length ps) = Some lanes" by blast
    obtain lanes' where lanes': "serdes_lanes (Some es') (length ps) = Some lanes'" "mset lanes = mset lanes'"
      using serdes_lanes_perm [OF assms(1) lanes] by blast
    then have perm: "mset lanes = mset (lo lanes')" using lo by simp
    have "mset (all_firs (\<lambda>lane. id) ps lanes) = mset (all_firs ko ps (lo lanes'))"
      unfolding all_firs_def using ko
      by (intro mset_concat_perm [OF perm]) (auto simp: lane_firs_def mset_filter split: prod.splits)
    moreover have "mset (all_drives (\<lambda>lane. id) ps lanes) = mset (all_drives ko ps (lo lanes'))"
      unfolding all_drives_def using ko
      by (intro mset_concat_perm [OF perm]) (auto simp: lane_drives_def mset_filter split: prod.splits)
    ultimately show ?thesis
      using ps lanes lanes'(1) header all_keys_distinct [OF ps lanes]
      by (simp add: decode_serdes_tx_def decode_serdes_tx_in_alt ko sort_key_perm)
  next
    case False
    have "serdes_lanes (Some es') n = None" if "serdes_lanes (Some es) n = None" for n
      using serdes_lanes_perm [OF assms(1) [symmetric]] that by (cases "serdes_lanes (Some es') n") fastforce+
    then show ?thesis using False header
      by (auto simp: decode_serdes_tx_def decode_serdes_tx_in_def split: option.splits)
  qed
qed

text \<open>A lane is readable when each of its allowlisted values is a finite number.\<close>

definition lane_readable :: "bytes list \<Rightarrow> bytes list \<Rightarrow> bool" where
  "lane_readable ps vs \<longleftrightarrow>
     list_all (\<lambda>(p, v). serdes_parameter p = None \<or> parse_finite_float v \<noteq> None) (zip ps vs)"

lemma known_of_iff:
  assumes "distinct ps" and "length vs = length ps"
  shows "(p, x) \<in> set (known_of ps vs) \<longleftrightarrow>
    lane_readable ps vs \<and>
    (\<exists>v. (p, v) \<in> set (zip ps vs) \<and> serdes_parameter p \<noteq> None \<and> parse_finite_float v = Some x)"
proof (cases "map_all (\<lambda>(p, v). map_option (Pair p) (parse_finite_float v)) (known_entries ps vs)")
  case None
  then have "\<not> lane_readable ps vs"
    by (force simp: map_all_None_iff known_entries_def lane_readable_def list_all_iff)
  then show ?thesis using None by (simp add: known_of_alt [OF assms])
next
  case (Some kvs)
  then have eq: "map (\<lambda>(p, v). map_option (Pair p) (parse_finite_float v)) (known_entries ps vs) = map Some kvs"
    by (simp only: map_all_Some_iff)
  have "\<not> (\<exists>e \<in> set (known_entries ps vs). (\<lambda>(p, v). map_option (Pair p) (parse_finite_float v)) e = None)"
    using Some map_all_None_iff [of _ "known_entries ps vs"] by (metis option.distinct(1))
  then have "lane_readable ps vs" by (force simp: known_entries_def lane_readable_def list_all_iff)
  moreover have "(p, x) \<in> set kvs \<longleftrightarrow> Some (p, x) \<in> set (map Some kvs)" by force
  ultimately show ?thesis using Some unfolding eq [symmetric] known_of_alt [OF assms]
    by (force simp: known_entries_def map_option_case split: option.splits)
qed

subsection \<open>Properties\<close>

text \<open>
  C30: The result does not depend on any map's iteration order: neither on the order of the
  section, nor on the order in which the lanes are visited, nor on the order, chosen anew for
  each lane, in which a lane's known values are.
\<close>

theorem serdes_order_independent:
  assumes "mset es = mset es'" and "keys_distinct es"
    and "\<And>lanes. mset (lo lanes) = mset lanes" and "\<And>lane known. mset (ko lane known) = mset known"
  shows "decode_serdes_tx_in lo ko (Some es') = decode_serdes_tx (Some es)"
  by (rule decode_serdes_tx_order [OF assms])

text \<open>Two lanes with an allowlisted tap, the amplitude, and a parameter nobody knows.\<close>

definition sample_serdes_section :: "(bytes \<times> json) list" where
  "sample_serdes_section =
     [(''Serdes TX parameters'', values_json [''fir_main'', '' new'', ''drv_amp'']),
      (''Lane 1'', values_json [''7'', ''?'', ''9'']), (''Lane 0'', values_json [''5'', ''?'', ''N/A''])]"

lemma sample_serdes:
  "serdes_header (Some sample_serdes_section) = Some [''fir_main'', ''new'', ''drv_amp'']"
  "serdes_lanes (Some sample_serdes_section) (length [''fir_main'', ''new'', ''drv_amp'']) =
     Some [(0, [''5'', ''?'', ''N/A'']), (1, [''7'', ''?'', ''9''])]"
  "known_of [''fir_main'', ''new'', ''drv_amp''] [''7'', ''?'', ''9''] =
     [(''fir_main'', f_of_nat 7), (''drv_amp'', f_of_nat 9)]"
  "known_of [''fir_main'', ''new'', ''drv_amp''] [''5'', ''?'', ''N/A''] = []"
proof -
  have trim: "trim_space ''fir_main'' = ''fir_main''" "trim_space '' new'' = ''new''"
    "trim_space ''drv_amp'' = ''drv_amp''" "trim_space ''7'' = ''7''" "trim_space ''5'' = ''5''"
    "trim_space ''9'' = ''9''" "trim_space ''N/A'' = ''N/A''"
    by code_simp+
  show "serdes_header (Some sample_serdes_section) = Some [''fir_main'', ''new'', ''drv_amp'']"
    by (simp add: serdes_header_def sec_get_def entries_def sample_serdes_section_def trim Let_def)
  have num: "parse_finite_float ''5'' = Some (f_of_nat 5)" "parse_finite_float ''7'' = Some (f_of_nat 7)"
    "parse_finite_float ''9'' = Some (f_of_nat 9)" "parse_finite_float ''N/A'' = None"
    by (simp_all add: parse_finite_float_def trim f_of_nat_def is_nan_def parse_float_eval)
  show "known_of [''fir_main'', ''new'', ''drv_amp''] [''7'', ''?'', ''9''] =
     [(''fir_main'', f_of_nat 7), (''drv_amp'', f_of_nat 9)]"
    "known_of [''fir_main'', ''new'', ''drv_amp''] [''5'', ''?'', ''N/A''] = []"
    by (simp_all add: known_of_def serdes_known_values_def serdes_parameter_def num)
  have "parse_nonnegative_int ''0'' = Some 0" "parse_nonnegative_int ''1'' = Some 1"
    by (simp_all add: parse_nonnegative_int_def parse_uint_def digit_val_def)
  then show "serdes_lanes (Some sample_serdes_section) (length [''fir_main'', ''new'', ''drv_amp'']) =
     Some [(0, [''5'', ''?'', ''N/A'']), (1, [''7'', ''?'', ''9''])]"
    by (simp add: serdes_lanes_def entries_def sample_serdes_section_def has_prefix_def trim_prefix_def)
qed

lemma sample_serdes_decoded:
  "decode_serdes_tx (Some sample_serdes_section) =
     \<lparr> FIRCoefficients = [\<lparr> FIRLane = 1, FIRTap = ''main'', FIRValue = f_of_nat 7 \<rparr>],
       DriveAmplitude = [\<lparr> Lane = 1, LaneFloat = f_of_nat 9 \<rparr>] \<rparr>"
  by (simp add: decode_serdes_tx_def decode_serdes_tx_in_alt sample_serdes(1) sample_serdes(2) [simplified]
      sample_serdes(3,4) all_firs_def all_drives_def
      lane_firs_def lane_drives_def tap_of_def serdes_parameter_def)

lemma serdes_order_independent_witness:
  "decode_serdes_tx_in rev (\<lambda>lane. rev) (Some (rev sample_serdes_section)) =
     \<lparr> FIRCoefficients = [\<lparr> FIRLane = 1, FIRTap = ''main'', FIRValue = f_of_nat 7 \<rparr>],
       DriveAmplitude = [\<lparr> Lane = 1, LaneFloat = f_of_nat 9 \<rparr>] \<rparr>"
proof -
  have "keys_distinct sample_serdes_section" by (simp add: keys_distinct_def sample_serdes_section_def)
  then show ?thesis
    using serdes_order_independent [of sample_serdes_section "rev sample_serdes_section" rev "\<lambda>lane. rev"]
    by (simp add: sample_serdes_decoded)
qed

text \<open>
  C29: Exactly the allowlisted values of the readable lanes are reported: a coefficient for
  each tap, an amplitude for drv_amp, nothing for a parameter outside the allowlist, whose
  value is not even read, and nothing at all for a lane with one allowlisted value that is not
  a finite number.
\<close>

theorem serdes_exact:
  assumes "serdes_header (Some es) = Some ps" and "serdes_lanes (Some es) (length ps) = Some lanes"
  shows "set (FIRCoefficients (decode_serdes_tx (Some es))) =
      {\<lparr> FIRLane = l, FIRTap = t, FIRValue = x \<rparr> | l t x. \<exists>vs p v. (l, vs) \<in> set lanes \<and> lane_readable ps vs \<and>
         (p, v) \<in> set (zip ps vs) \<and> p \<noteq> ''drv_amp'' \<and> serdes_parameter p = Some t \<and> parse_finite_float v = Some x} \<and>
    set (DriveAmplitude (decode_serdes_tx (Some es))) =
      {\<lparr> Lane = l, LaneFloat = x \<rparr> | l x. \<exists>vs v. (l, vs) \<in> set lanes \<and> lane_readable ps vs \<and>
         (''drv_amp'', v) \<in> set (zip ps vs) \<and> parse_finite_float v = Some x}"
proof -
  have d: "decode_serdes_tx (Some es) = \<lparr> FIRCoefficients = sort_key fir_key (all_firs (\<lambda>lane. id) ps lanes),
      DriveAmplitude = sort_key Lane (all_drives (\<lambda>lane. id) ps lanes) \<rparr>"
    using assms by (simp add: decode_serdes_tx_def decode_serdes_tx_in_alt)
  have known: "(p, x) \<in> set (known_of ps vs) \<longleftrightarrow> lane_readable ps vs \<and>
      (\<exists>v. (p, v) \<in> set (zip ps vs) \<and> serdes_parameter p \<noteq> None \<and> parse_finite_float v = Some x)"
    if "(l, vs) \<in> set lanes" for l vs p x
    using serdes_lanes_ok(2) [OF assms(2) that] serdes_header_distinct [OF assms(1)] known_of_iff by blast
  have tap: "serdes_parameter p = Some t \<longleftrightarrow> serdes_parameter p \<noteq> None \<and> tap_of p = t" for p t
    by (auto simp: tap_of_def)
  have drv: "serdes_parameter ''drv_amp'' \<noteq> None" by (simp add: serdes_parameter_def)
  have firs: "c \<in> set (all_firs (\<lambda>lane. id) ps lanes) \<longleftrightarrow> (\<exists>l vs p x. (l, vs) \<in> set lanes \<and>
      (lane_readable ps vs \<and> (\<exists>v. (p, v) \<in> set (zip ps vs) \<and> serdes_parameter p \<noteq> None \<and> parse_finite_float v = Some x)) \<and>
      p \<noteq> ''drv_amp'' \<and> c = \<lparr> FIRLane = l, FIRTap = tap_of p, FIRValue = x \<rparr>)" for c
  proof -
    have "c \<in> set (all_firs (\<lambda>lane. id) ps lanes) \<longleftrightarrow> (\<exists>l vs p x. (l, vs) \<in> set lanes \<and>
        (p, x) \<in> set (known_of ps vs) \<and> p \<noteq> ''drv_amp'' \<and> c = \<lparr> FIRLane = l, FIRTap = tap_of p, FIRValue = x \<rparr>)"
      by (fastforce simp: all_firs_def lane_firs_def)
    then show ?thesis by (simp only: known cong: conj_cong)
  qed
  have drives: "c \<in> set (all_drives (\<lambda>lane. id) ps lanes) \<longleftrightarrow> (\<exists>l vs x. (l, vs) \<in> set lanes \<and>
      (lane_readable ps vs \<and> (\<exists>v. (''drv_amp'', v) \<in> set (zip ps vs) \<and> serdes_parameter ''drv_amp'' \<noteq> None \<and>
        parse_finite_float v = Some x)) \<and> c = \<lparr> Lane = l, LaneFloat = x \<rparr>)" for c
  proof -
    have "c \<in> set (all_drives (\<lambda>lane. id) ps lanes) \<longleftrightarrow> (\<exists>l vs x. (l, vs) \<in> set lanes \<and>
        (''drv_amp'', x) \<in> set (known_of ps vs) \<and> c = \<lparr> Lane = l, LaneFloat = x \<rparr>)"
      by (fastforce simp: all_drives_def lane_drives_def)
    then show ?thesis by (simp only: known cong: conj_cong)
  qed
  have "set (all_firs (\<lambda>lane. id) ps lanes) =
      {\<lparr> FIRLane = l, FIRTap = t, FIRValue = x \<rparr> | l t x. \<exists>vs p v. (l, vs) \<in> set lanes \<and> lane_readable ps vs \<and>
         (p, v) \<in> set (zip ps vs) \<and> p \<noteq> ''drv_amp'' \<and> serdes_parameter p = Some t \<and> parse_finite_float v = Some x}"
    by (rule set_eqI, unfold firs mem_Collect_eq tap, blast)
  moreover have "set (all_drives (\<lambda>lane. id) ps lanes) =
      {\<lparr> Lane = l, LaneFloat = x \<rparr> | l x. \<exists>vs v. (l, vs) \<in> set lanes \<and> lane_readable ps vs \<and>
         (''drv_amp'', v) \<in> set (zip ps vs) \<and> parse_finite_float v = Some x}"
    by (rule set_eqI, unfold drives mem_Collect_eq, use drv in blast)
  ultimately show ?thesis unfolding d by simp
qed

lemma serdes_exact_witness:
  "\<lparr> FIRLane = 1, FIRTap = ''main'', FIRValue = f_of_nat 7 \<rparr> \<in>
     {\<lparr> FIRLane = l, FIRTap = t, FIRValue = x \<rparr> | l t x. \<exists>vs p v.
        (l, vs) \<in> set [(0, [''5'', ''?'', ''N/A'']), (1 :: int, [''7'', ''?'', ''9''])] \<and>
        lane_readable [''fir_main'', ''new'', ''drv_amp''] vs \<and>
        (p, v) \<in> set (zip [''fir_main'', ''new'', ''drv_amp''] vs) \<and> p \<noteq> ''drv_amp'' \<and>
        serdes_parameter p = Some t \<and> parse_finite_float v = Some x}"
  unfolding serdes_exact [OF sample_serdes(1,2), THEN conjunct1, symmetric]
  by (simp add: sample_serdes_decoded)

end
