(* ===== verification/Decoder.thy ===== *)
theory Decoder
  imports Eye FEC_Histogram SerDes
begin

text \<open>
  \<open>Decode\<close> and \<open>DecodePCIeEye\<close> of \<open>internal/mlxlink/decoder.go\<close>: the envelope every response
  has, its status and its output, and the decoded sections put together.
\<close>

subsection \<open>Link, counters and module\<close>

definition datapathActivated :: bytes where "datapathActivated = ''DPActivated''"

definition millisPerUnit :: float64 where "millisPerUnit = f_of_nat 1000"

definition decode_link :: "json_section \<Rightarrow> link_info" where
  "decode_link sec =
     \<lparr> LinkState = string_field sec fieldState,
       LinkPhysicalState = string_field sec fieldPhysicalState,
       LinkSpeed = string_field sec fieldSpeed,
       LinkWidth = string_field sec fieldWidth,
       LinkFEC = string_field sec fieldFEC,
       LinkAutoNegotiation = string_field sec fieldAutoNegotiation \<rparr>"

definition decode_counters :: "json_section \<Rightarrow> counters" where
  "decode_counters sec =
     \<lparr> EffectivePhysicalErrors = parse_float_safe (string_field sec fieldEffectivePhysicalErrors),
       LinkDown = parse_float_safe (string_field sec fieldLinkDown),
       LinkErrorRecovery = parse_float_safe (string_field sec fieldLinkErrorRecovery),
       EffectiveBER = parse_float_safe (string_field sec fieldEffectiveBER),
       RawBER = parse_float_safe (string_field sec fieldRawBER),
       RawPhysicalErrorsLane = lane_values (values_field sec fieldRawErrorsPerLane) (f_of_nat 1),
       RawBERLane = lane_values (values_field sec fieldRawBERPerLane) (f_of_nat 1) \<rparr>"

definition decode_module :: "json_section \<Rightarrow> module_data" where
  "decode_module sec =
     \<lparr> TemperatureCelsius = parse_float_safe (string_field sec fieldTemperature),
       VoltageVolts = divide_value (parse_float_safe (string_field sec fieldVoltage)) millisPerUnit,
       BiasCurrentAmperes = comma_lane_values (string_field sec fieldBiasCurrent) millisPerUnit,
       RxPowerDBm = comma_lane_values (string_field sec fieldRxPower) (f_of_nat 1),
       TxPowerDBm = comma_lane_values (string_field sec fieldTxPower) (f_of_nat 1),
       ModuleFWFault = parse_flag (string_field sec fieldModuleFWFault),
       DatapathFWFault = parse_flag (string_field sec fieldDatapathFWFault),
       TxFault = lane_flags (values_field sec fieldTxFault),
       TxLOS = lane_flags (values_field sec fieldTxLOS),
       RxLOS = lane_flags (values_field sec fieldRxLOS),
       TxCDRLOL = lane_flags (values_field sec fieldTxCDRLOL),
       RxCDRLOL = lane_flags (values_field sec fieldRxCDRLOL),
       DatapathActive = lane_states (values_field sec fieldDatapathState) datapathActivated,
       ModuleInventory =
         \<lparr> Identifier = string_field sec fieldIdentifier,
           Vendor = string_field sec fieldVendor,
           PartNumber = string_field sec fieldPartNumber,
           SerialNumber = string_field sec fieldSerialNumber,
           Revision = string_field sec fieldRevision,
           FirmwareVersion = string_field sec fieldFirmwareVersion,
           ActiveHostCompliance = string_field sec fieldActiveHostCompliance,
           ActiveMediaCompliance = string_field sec fieldActiveMediaCompliance,
           CableType = string_field sec fieldCableType \<rparr> \<rparr>"

subsection \<open>The envelope\<close>

record status =
  Code :: int
  Message :: bytes

record document =
  Result :: "json option"
  Status :: "status option"

text \<open>
  The errors of \<open>decodeOutput\<close>: the two \<open>json.Unmarshal\<close> errors, the status mlxlink
  reports, and the sentinel \<open>errNoOutput\<close>.
\<close>

datatype decode_error = MalformedJSON | StatusError int bytes | NoOutput

definition store_status :: "bytes \<Rightarrow> json \<Rightarrow> status \<Rightarrow> status option" where
  "store_status key v st =
     (if key = ''code'' then
        (case v of
           JNum s \<Rightarrow> (case atoi s of Inl _ \<Rightarrow> None | Inr n \<Rightarrow> Some (st\<lparr> Code := n \<rparr>))
         | JNull \<Rightarrow> Some st
         | _ \<Rightarrow> None)
      else if key = ''message'' then
        (case v of JStr s \<Rightarrow> Some (st\<lparr> Message := s \<rparr>) | JNull \<Rightarrow> Some st | _ \<Rightarrow> None)
      else Some st)"

text \<open>A pointer to a struct: null makes it nil, anything else is stored in the struct there is.\<close>

definition store_document :: "bytes \<Rightarrow> json \<Rightarrow> document \<Rightarrow> document option" where
  "store_document key v doc =
     (if key = ''result'' then Some (doc\<lparr> Result := Some v \<rparr>)
      else if key = ''status'' then
        (if v = JNull then Some (doc\<lparr> Status := None \<rparr>)
         else map_option (\<lambda>st. doc\<lparr> Status := Some st \<rparr>)
           (unmarshal_struct store_status
              (case Status doc of None \<Rightarrow> \<lparr> Code = 0, Message = '''' \<rparr> | Some st \<Rightarrow> st) v))
      else Some doc)"

definition store_output :: "bytes \<Rightarrow> json \<Rightarrow> raw_map \<Rightarrow> raw_map option" where
  "store_output key v m = (if key = ''output'' then unmarshal_map m v else Some m)"

text \<open>The tail of \<open>decodeOutput\<close>, past the status.\<close>

definition result_output :: "json option \<Rightarrow> decode_error + (bytes \<times> json) list" where
  "result_output result =
     (case (case result of None \<Rightarrow> Some None | Some j \<Rightarrow> unmarshal_struct store_output None j) of
        None \<Rightarrow> Inl MalformedJSON
      | Some None \<Rightarrow> Inl NoOutput
      | Some (Some output) \<Rightarrow> Inr output)"

definition decode_output :: "bytes \<Rightarrow> decode_error + (bytes \<times> json) list" where
  "decode_output raw =
     (case Option.bind (json_parse raw)
             (unmarshal_struct store_document \<lparr> Result = None, Status = None \<rparr>) of
        None \<Rightarrow> Inl MalformedJSON
      | Some doc \<Rightarrow>
          (case Status doc of
             None \<Rightarrow> result_output (Result doc)
           | Some st \<Rightarrow> if Code st \<noteq> 0 then Inl (StatusError (Code st) (Message st))
                        else result_output (Result doc)))"

definition decode_port :: "(bytes \<times> json) list \<Rightarrow> port_data" where
  "decode_port output =
     \<lparr> PortLink = decode_link (section_of output sectionOperational),
       PortCounters = decode_counters (section_of output sectionCounters),
       PortModule = decode_module (section_of output sectionModule),
       PortFECHistogram = decode_fec_histogram (section_of output sectionFECHistogram),
       PortSerDesTX = decode_serdes_tx (section_of output sectionSerDesTX),
       PortEye = decode_eye (section_of output sectionEye) \<rparr>"

definition decode :: "bytes \<Rightarrow> decode_error + port_data" where
  "decode raw = map_sum id decode_port (decode_output raw)"

definition decode_pcie_eye :: "bytes \<Rightarrow> decode_error + pcie_eye" where
  "decode_pcie_eye raw =
     map_sum id (\<lambda>output. decode_pcie_eye_section (section_of output sectionPCIeEye)) (decode_output raw)"

subsection \<open>Decoded data is well-formed\<close>

lemma decode_link_ok [wf_intros]: "raw_map_valid sec \<Longrightarrow> link_ok (decode_link sec)"
  by (simp add: link_ok_def decode_link_def string_field_valid)

lemma decode_counters_ok [wf_intros]: "counters_ok (decode_counters sec)"
  by (simp add: counters_ok_def decode_counters_def parse_float_safe_ok lane_values_1_ok [simplified])

lemma decode_module_ok [wf_intros]: "raw_map_valid sec \<Longrightarrow> module_ok (decode_module sec)"
  unfolding module_ok_def decode_module_def module_info_ok_def millisPerUnit_def
  by (simp add: string_field_valid parse_float_safe_ok divide_millis_ok
      comma_lane_values_ok [simplified] parse_flag_ok lane_flags_ok lane_states_ok)

lemma decode_port_ok [wf_intros]: "entries_valid output \<Longrightarrow> port_data_ok (decode_port output)"
  using decode_serdes_tx_ok
  by (simp add: port_data_ok_def decode_port_def decode_link_ok decode_counters_ok decode_module_ok
      decode_fec_histogram_ok decode_eye_ok section_of_valid)

lemma result_output_valid:
  assumes "result_output result = Inr output" and "\<And>j. result = Some j \<Longrightarrow> json_valid j"
  shows "entries_valid output"
proof -
  obtain j where j: "result = Some j" "unmarshal_struct store_output None j = Some (Some output)"
    using assms(1) by (auto simp: result_output_def split: option.splits)
  have "raw_map_valid (Some output)"
    by (rule unmarshal_struct_invariant [OF j(2), where P = raw_map_valid])
      (auto simp: assms(2) j(1) store_output_def intro: unmarshal_map_valid split: if_splits)
  then show ?thesis by (simp add: raw_map_valid_def)
qed

lemma decode_output_valid: "decode_output raw = Inr output \<Longrightarrow> entries_valid output"
proof -
  assume o: "decode_output raw = Inr output"
  then obtain j doc where doc: "json_parse raw = Some j"
    "unmarshal_struct store_document \<lparr> Result = None, Status = None \<rparr> j = Some doc"
    by (auto simp: decode_output_def option_bind_Some_iff split: option.splits)
  then have res: "result_output (Result doc) = Inr output"
    using o by (auto simp: decode_output_def split: option.splits if_splits)
  have "\<forall>r. Result doc = Some r \<longrightarrow> json_valid r"
    by (rule unmarshal_struct_invariant [OF doc(2) _ json_parse_valid [OF doc(1)],
          where P = "\<lambda>d. \<forall>r. Result d = Some r \<longrightarrow> json_valid r"])
      (auto simp: store_document_def split: if_splits)
  then show ?thesis using result_output_valid [OF res] by blast
qed

subsection \<open>Missing sections\<close>

lemma scalar_nil: "parse_float_safe '''' = no_value" "parse_flag '''' = no_value"
  "divide_value no_value d = no_value" "comma_lane_values '''' d = []" "lane_values [] d = []"
  "lane_flags [] = []" "lane_states [] a = []"
  by (simp_all add: parse_float_safe_def trim_range_suffix_def has_suffix_def parse_flag_def divide_value_def
      comma_lane_values_def lane_values_def lane_flags_def lane_states_def)

lemma decode_nil: "decode_link None = no_link" "decode_counters None = no_counters"
  "decode_module None = no_module" "decode_fec_histogram None = []"
  "decode_serdes_tx None = no_serdes" "decode_eye None = no_eye" "decode_pcie_eye_section None = no_pcie_eye"
  by (simp_all add: decode_link_def no_link_def decode_counters_def no_counters_def decode_module_def
      no_module_def no_module_info_def scalar_nil decode_fec_histogram_def decode_serdes_tx_def
      decode_serdes_tx_in_def decode_eye_def decode_pcie_eye_section_def decode_eye_lane_values_def)

lemma field_keys:
  "field_key sectionOperational = ''Operational Info''"
  "field_key sectionCounters = ''Physical Counters and BER Info''"
  "field_key sectionModule = ''Module Info''"
  "field_key sectionFECHistogram = ''Histogram of FEC Errors''"
  "field_key sectionSerDesTX = ''Serdes Tuning Transmitter Info''"
  "field_key sectionEye = ''EYE Opening Info''"
  by (simp_all add: field_key_def fieldAliases_def)

subsection \<open>Responses as mlxlink prints them\<close>

text \<open>A response with a status and a payload of any shape.\<close>

definition response :: "int \<Rightarrow> bytes \<Rightarrow> json \<Rightarrow> json" where
  "response code msg payload =
     JObj [(''result'', payload),
           (''status'', JObj [(''code'', JNum (itoa code)), (''message'', JStr msg)])]"

lemma decode_output_response:
  assumes "json_ok 9999 payload" and "valid_utf8 msg" and "- (2 ^ 63) \<le> code" "code < 2 ^ 63"
  shows "decode_output (print_json (response code msg payload)) =
    (if code \<noteq> 0 then Inl (StatusError code msg) else result_output (Some payload))"
proof -
  have keys: "fold_key ''result'' = ''result''" "fold_key ''status'' = ''status''"
    "fold_key ''code'' = ''code''" "fold_key ''message'' = ''message''"
    by code_simp+
  have utf8: "valid_utf8 ''result''" "valid_utf8 ''status''" "valid_utf8 ''code''" "valid_utf8 ''message''"
    by code_simp+
  have "json_ok 10000 (response code msg payload)"
    using assms(1,2) utf8 by (auto simp: response_def)
  from json_parse_print [OF this] show ?thesis
    using atoi_itoa [OF assms(3,4)]
    by (simp add: decode_output_def response_def unmarshal_struct_def keys store_document_def
        store_status_def del: fold_key.simps)
qed

definition output_payload :: "(bytes \<times> json) list \<Rightarrow> json" where
  "output_payload output = JObj [(''output'', JObj output)]"

lemma result_output_payload:
  "keys_distinct output \<Longrightarrow> result_output (Some (output_payload output)) = Inr output"
proof -
  assume "keys_distinct output"
  moreover have "fold_key ''output'' = ''output''" by code_simp
  ultimately show ?thesis using store_members_distinct_id [of "[]" "output"]
    by (simp add: result_output_def output_payload_def unmarshal_struct_def store_output_def
        unmarshal_map_def keys_distinct_def del: fold_key.simps)
qed

text \<open>A printed response with status 0 is read as its sections are.\<close>

lemma decode_printed:
  assumes "keys_distinct output" and "json_ok 9998 (JObj output)" and "valid_utf8 msg"
  shows "decode (print_json (response 0 msg (output_payload output))) = Inr (decode_port output)"
    and "decode_pcie_eye (print_json (response 0 msg (output_payload output))) =
      Inr (decode_pcie_eye_section (section_of output sectionPCIeEye))"
proof -
  have "valid_utf8 ''output''" by code_simp
  then have "json_ok 9999 (output_payload output)" using assms(2) by (simp add: output_payload_def)
  from decode_output_response [OF this assms(3), of 0]
  show "decode (print_json (response 0 msg (output_payload output))) = Inr (decode_port output)"
    "decode_pcie_eye (print_json (response 0 msg (output_payload output))) =
      Inr (decode_pcie_eye_section (section_of output sectionPCIeEye))"
    using assms(1) by (simp_all add: decode_def decode_pcie_eye_def result_output_payload)
qed

subsection \<open>Properties\<close>

text \<open>
  C9: Everything that is decoded may be exported: whatever bytes mlxlink printed, every number
  of the result is finite, every family names a lane once, every flag is 0 or 1, the families of
  an eye name the same lanes, the bins of the histogram are consecutive, the FIR coefficients are
  of known taps and sorted by lane and tap, and every text is valid UTF-8.
\<close>

theorem decode_well_formed:
  "(case decode raw of
      Inl err \<Rightarrow> True
    | Inr p \<Rightarrow> port_data_ok p \<and> sorted (map fir_key (FIRCoefficients (PortSerDesTX p)))) \<and>
   (case decode_pcie_eye raw of Inl err \<Rightarrow> True | Inr e \<Rightarrow> pcie_eye_ok e)"
proof (cases "decode_output raw")
  case (Inr sections)
  then have "port_data_ok (decode_port sections)" by (simp add: decode_port_ok decode_output_valid)
  moreover have "sorted (map fir_key (FIRCoefficients (PortSerDesTX (decode_port sections))))"
    using decode_serdes_tx_ok by (simp add: decode_port_def)
  ultimately show ?thesis using Inr by (simp add: decode_def decode_pcie_eye_def decode_eye_both_ok)
qed (simp add: decode_def decode_pcie_eye_def)

text \<open>
  C12: The status is judged before the payload: for a response with any payload, a non-zero
  code is the error, with mlxlink's own message, even when the payload is not an object at
  all, and a zero code leaves it to the payload.
\<close>

theorem decode_status_first:
  assumes "json_ok 9999 payload" and "valid_utf8 msg" and "- (2 ^ 63) \<le> code" "code < 2 ^ 63"
  shows "decode (print_json (response code msg payload)) =
    (if code \<noteq> 0 then Inl (StatusError code msg)
     else map_sum id decode_port (result_output (Some payload)))"
  using decode_output_response [OF assms] by (simp add: decode_def)

lemma decode_status_first_witness:
  "decode (print_json (response 3 ''no such device'' JNull)) = Inl (StatusError 3 ''no such device'') \<and>
   decode (print_json (response 0 '''' (JStr ''?''))) = Inl MalformedJSON"
proof -
  have "valid_utf8 ''no such device''" "valid_utf8 ''?''" by code_simp+
  then show ?thesis
    using decode_status_first [of JNull "''no such device''" 3] decode_status_first [of "JStr ''?''" "''''" 0]
    by (simp add: result_output_def unmarshal_struct_def)
qed

text \<open>
  C37: A section that is missing costs the metrics of that section alone, and one nobody knows
  costs nothing.
\<close>

theorem section_isolation:
  "decode_port (filter (\<lambda>(k, v). k \<noteq> field_key sectionOperational) output) =
     (decode_port output)\<lparr> PortLink := no_link \<rparr> \<and>
   decode_port (filter (\<lambda>(k, v). k \<noteq> field_key sectionCounters) output) =
     (decode_port output)\<lparr> PortCounters := no_counters \<rparr> \<and>
   decode_port (filter (\<lambda>(k, v). k \<noteq> field_key sectionModule) output) =
     (decode_port output)\<lparr> PortModule := no_module \<rparr> \<and>
   decode_port (filter (\<lambda>(k, v). k \<noteq> field_key sectionFECHistogram) output) =
     (decode_port output)\<lparr> PortFECHistogram := [] \<rparr> \<and>
   decode_port (filter (\<lambda>(k, v). k \<noteq> field_key sectionSerDesTX) output) =
     (decode_port output)\<lparr> PortSerDesTX := no_serdes \<rparr> \<and>
   decode_port (filter (\<lambda>(k, v). k \<noteq> field_key sectionEye) output) =
     (decode_port output)\<lparr> PortEye := no_eye \<rparr> \<and>
   decode_port (filter (\<lambda>(k, v). k \<in> set (map field_key
     [sectionOperational, sectionCounters, sectionModule, sectionFECHistogram, sectionSerDesTX, sectionEye])) output) =
     decode_port output"
  unfolding decode_port_def section_of_filter by (simp add: field_keys decode_nil)

end
