(* ===== verification/Go_Time.thy ===== *)
theory Go_Time
  imports Go_Float64 "HOL-Library.Signed_Division"
begin

text \<open>
  Go's \<open>time.Time\<close> and \<open>time.Duration\<close>. A duration is a signed 64-bit number of nanoseconds,
  here an integer with the wrap-around and the saturation written out. A time is its wall clock,
  in nanoseconds since the zero time, and the reading of the monotonic clock if it has one.
\<close>

definition max_int64 :: int where "max_int64 = 2 ^ 63 - 1"
definition min_int64 :: int where "min_int64 = - (2 ^ 63)"

definition wrap64 :: "int \<Rightarrow> int" where
  "wrap64 x = (x + 2 ^ 63) mod 2 ^ 64 - 2 ^ 63"

definition saturate64 :: "int \<Rightarrow> int" where
  "saturate64 x = max min_int64 (min max_int64 x)"

definition int64 :: "int \<Rightarrow> bool" where
  "int64 x \<longleftrightarrow> min_int64 \<le> x \<and> x \<le> max_int64"

record gotime =
  Wall :: int
  Mono :: "int option"

definition zero_time :: gotime where
  "zero_time = \<lparr> Wall = 0, Mono = None \<rparr>"

definition is_zero_time :: "gotime \<Rightarrow> bool" where
  "is_zero_time t \<longleftrightarrow> Wall t = 0"

text \<open>\<open>t.Sub(u)\<close>: by the monotonic clock when both times have a reading, and saturating.\<close>

definition time_sub :: "gotime \<Rightarrow> gotime \<Rightarrow> int" where
  "time_sub t u =
     saturate64
       (case (Mono t, Mono u) of
          (Some a, Some b) \<Rightarrow> a - b
        | _ \<Rightarrow> Wall t - Wall u)"

text \<open>\<open>t.UnixNano()\<close>; the zero time is 62135596800 seconds before 1970.\<close>

definition unix_nano :: "gotime \<Rightarrow> int" where
  "unix_nano t = wrap64 (Wall t - 62135596800 * 10 ^ 9)"

text \<open>\<open>d.Seconds()\<close>.\<close>

definition duration_seconds :: "int \<Rightarrow> float64" where
  "duration_seconds d =
     f_add (f_of_int (d sdiv 10 ^ 9)) (f_div (f_of_int (d smod 10 ^ 9)) f_giga)"

lemma wrap64_int64 [simp]: "int64 (wrap64 x)"
proof -
  have "0 \<le> (x + 2 ^ 63) mod 2 ^ 64" "(x + 2 ^ 63) mod 2 ^ 64 < 2 ^ 64" by simp_all
  then show ?thesis by (simp add: int64_def wrap64_def min_int64_def max_int64_def)
qed

lemma wrap64_id: "int64 x \<Longrightarrow> wrap64 x = x"
  by (simp add: int64_def wrap64_def min_int64_def max_int64_def)

lemma time_sub_int64 [simp]: "int64 (time_sub t u)"
  by (simp add: time_sub_def saturate64_def int64_def min_int64_def max_int64_def)

lemma int64_bound: "int64 x \<Longrightarrow> \<bar>x\<bar> \<le> 2 ^ 63"
  by (auto simp: int64_def min_int64_def max_int64_def)

lemma duration_seconds_ok [wf_intros]:
  assumes "int64 d" shows "f_wf (duration_seconds d) \<and> f_finite (duration_seconds d)"
proof -
  let ?q = "d sdiv 10 ^ 9" and ?r = "d smod 10 ^ 9"
  have d: "\<bar>d\<bar> \<le> 2 ^ 63" by (rule int64_bound [OF assms])
  have q: "\<bar>?q\<bar> \<le> 2 ^ 63" using sdiv_int_range [of d "10 ^ 9"] d by (auto simp: abs_le_iff)
  have r: "\<bar>?r\<bar> \<le> 2 ^ 63" using smod_int_range [of "10 ^ 9" d] by (auto simp: abs_le_iff)
  have conv: "f_finite (f_of_int i) \<and> \<bar>f_real (f_of_int i)\<bar> \<le> 2 ^ 64" if "\<bar>i\<bar> \<le> 2 ^ 63" for i
  proof -
    have i: "\<bar>i\<bar> < 2 ^ 64" using that by simp
    have "2 * real_of_int \<bar>i\<bar> \<le> 2 ^ 64" using that by simp
    then show ?thesis using f_of_int_finite [OF i] f_of_int_bound [OF i] by linarith
  qed
  note fq = conv [OF q] and fr = conv [OF r]
  have "f_finite (f_div (f_of_int ?r) f_giga)"
    by (rule f_div_finite [OF f_of_int_wf fr [THEN conjunct1] f_giga_ok(2)]) (simp add: f_giga_ok)
  moreover have "\<bar>f_real (f_div (f_of_int ?r) f_giga)\<bar> \<le> 2 * \<bar>f_real (f_of_int ?r)\<bar>"
    by (rule f_div_bound [OF f_of_int_wf fr [THEN conjunct1] f_giga_ok(1,2)]) (simp add: f_giga_ok)
  ultimately have parts: "f_finite (f_div (f_of_int ?r) f_giga)"
    "\<bar>f_real (f_of_int ?q) + f_real (f_div (f_of_int ?r) f_giga)\<bar> \<le> 3 * 2 ^ 64"
    using fq fr by linarith+
  have "(3 :: real) * 2 ^ 64 \<le> 2 ^ 1000" by simp
  then have "f_finite (duration_seconds d)"
    unfolding duration_seconds_def using fq parts by (intro f_add_finite) linarith+
  then show ?thesis by (simp add: duration_seconds_def f_add_wf f_div_wf f_of_int_wf f_giga_ok)
qed

end
