(* ===== verification/Runner.thy ===== *)
theory Runner
  imports Decoder Go_Time
begin

text \<open>
  \<open>internal/mlxlink/runner.go\<close>: the command lines, the bounded output buffers, and what the
  outcome of an invocation is turned into. The process itself is a parameter: what it writes,
  what \<open>cmd.Run\<close> returns, and what the two contexts report afterwards. The lemmas say that an
  accepted output is complete, which reason each failure gets, and that no failure is ever
  reported without a reason.
\<close>

subsection \<open>Errors\<close>

text \<open>What \<open>ctx.Err()\<close> returns when it is not nil.\<close>

datatype ctx_error = Canceled | DeadlineExceeded

text \<open>The error values of other packages the code compares with.\<close>

datatype sentinel = ErrWaitDelay | ErrNotFound | ErrNotExist | ErrPermission | ErrOutputTooLarge

text \<open>
  An error is a chain: \<open>Wrapped\<close> is any error with an \<open>Unwrap\<close> method, \<open>RunError\<close> the
  struct of this file.
\<close>

datatype go_error =
  CtxError ctx_error
| Sentinel sentinel
| ExitError
| DecodeError decode_error
| OtherError bytes
| Wrapped bytes go_error
| RunError error_reason go_error bytes

text \<open>\<open>errors.Is\<close> and the two uses of \<open>errors.As\<close>: the first match along the chain.\<close>

fun error_is :: "go_error \<Rightarrow> go_error \<Rightarrow> bool" where
  "error_is (Wrapped msg e) x \<longleftrightarrow> Wrapped msg e = x \<or> error_is e x"
| "error_is (RunError reason e stderr) x \<longleftrightarrow> RunError reason e stderr = x \<or> error_is e x"
| "error_is e x \<longleftrightarrow> e = x"

fun as_run_error :: "go_error \<Rightarrow> (error_reason \<times> go_error \<times> bytes) option" where
  "as_run_error (RunError reason e stderr) = Some (reason, e, stderr)"
| "as_run_error (Wrapped msg e) = as_run_error e"
| "as_run_error _ = None"

fun as_exit_error :: "go_error \<Rightarrow> bool" where
  "as_exit_error ExitError \<longleftrightarrow> True"
| "as_exit_error (Wrapped msg e) \<longleftrightarrow> as_exit_error e"
| "as_exit_error (RunError reason e stderr) \<longleftrightarrow> as_exit_error e"
| "as_exit_error _ \<longleftrightarrow> False"

definition reason_from_error :: "go_error \<Rightarrow> error_reason" where
  "reason_from_error err =
     (case as_run_error err of
        Some (reason, e, stderr) \<Rightarrow> reason
      | None \<Rightarrow> ReasonUnknown)"

definition log_cause :: "go_error \<Rightarrow> go_error" where
  "log_cause err = (case as_run_error err of Some (reason, e, stderr) \<Rightarrow> e | None \<Rightarrow> err)"

subsection \<open>The bounded buffer\<close>

definition maxOutputBytes :: int where "maxOutputBytes = 4 * 2 ^ 20"
definition maxStderrBytes :: int where "maxStderrBytes = 4 * 2 ^ 10"

record limited_buffer =
  Limit :: int
  Buf :: bytes
  Exceeded :: bool

definition new_buffer :: "int \<Rightarrow> limited_buffer" where
  "new_buffer limit = \<lparr> Limit = limit, Buf = [], Exceeded = False \<rparr>"

text \<open>\<open>Write\<close>: the new buffer and the number of bytes it claims to have written.\<close>

definition buffer_write :: "limited_buffer \<Rightarrow> bytes \<Rightarrow> limited_buffer \<times> nat" where
  "buffer_write b p =
     (let remaining = Limit b - int (length (Buf b)) in
      if 0 < remaining \<and> int (length p) \<le> remaining then (b\<lparr> Buf := Buf b @ p \<rparr>, length p)
      else
        (let b1 = (if 0 < remaining then b\<lparr> Buf := Buf b @ take (nat remaining) p \<rparr> else b)
         in (b1\<lparr> Exceeded := True \<rparr>, length p)))"

definition buffer_writes :: "limited_buffer \<Rightarrow> bytes list \<Rightarrow> limited_buffer" where
  "buffer_writes b ps = foldl (\<lambda>b p. fst (buffer_write b p)) b ps"

subsection \<open>One invocation\<close>

record runner =
  RunnerPath :: bytes
  RunnerTimeout :: int

text \<open>What is handed to \<open>exec\<close>.\<close>

record command =
  CmdPath :: bytes
  CmdArgs :: "bytes list"
  CmdEnv :: "bytes list"
  CmdTimeout :: int
  CmdWaitDelay :: int

text \<open>
  What comes back: the writes to the two pipes, the error of \<open>cmd.Run\<close>, and the errors of the
  run context and of its parent once it has returned.
\<close>

record process =
  StdoutWrites :: "bytes list"
  StderrWrites :: "bytes list"
  CmdError :: "go_error option"
  RunCtxErr :: "ctx_error option"
  ParentErr :: "ctx_error option"

text \<open>The four queries of the runner.\<close>

datatype query = QueryRun | QueryRunWithEye | QueryRunPCIeEye | QueryRunBaseline

fun query_args :: "query \<Rightarrow> bytes list" where
  "query_args QueryRun =
     [''-m'', ''-c'', ''--rx_fec_histogram'', ''--show_histogram'', ''--show_serdes_tx'']"
| "query_args QueryRunWithEye =
     [''-m'', ''-c'', ''--rx_fec_histogram'', ''--show_histogram'', ''--show_serdes_tx'', ''--show_eye'']"
| "query_args QueryRunPCIeEye = [''--port_type'', ''PCIE'', ''--show_eye'']"
| "query_args QueryRunBaseline = [''-m'', ''-c'']"

definition run_command :: "runner \<Rightarrow> bytes list \<Rightarrow> bytes \<Rightarrow> bytes list \<Rightarrow> command" where
  "run_command r environ device args =
     \<lparr> CmdPath = RunnerPath r,
       CmdArgs = [''-d'', device] @ args @ [''--json''],
       CmdEnv = environ @ [''LC_ALL=C''],
       CmdTimeout = RunnerTimeout r,
       CmdWaitDelay = RunnerTimeout r \<rparr>"

definition classify_run_error :: "ctx_error option \<Rightarrow> go_error \<Rightarrow> error_reason" where
  "classify_run_error run_ctx_err err =
     (if run_ctx_err = Some DeadlineExceeded then ReasonTimeout
      else if error_is err (Sentinel ErrWaitDelay) then ReasonTimeout
      else if error_is err (Sentinel ErrNotFound) \<or> error_is err (Sentinel ErrNotExist) then ReasonCommandNotFound
      else if error_is err (Sentinel ErrPermission) then ReasonPermissionDenied
      else if as_exit_error err then ReasonExitError
      else ReasonUnknown)"

definition run_error :: "error_reason \<Rightarrow> go_error \<Rightarrow> bytes \<Rightarrow> go_error" where
  "run_error reason err stderr = RunError reason err (trim_space stderr)"

definition run_result :: "process \<Rightarrow> go_error + bytes" where
  "run_result p =
     (let stdout = buffer_writes (new_buffer maxOutputBytes) (StdoutWrites p);
          stderr = buffer_writes (new_buffer maxStderrBytes) (StderrWrites p) in
      case ParentErr p of
        Some e \<Rightarrow> Inl (CtxError e)
      | None \<Rightarrow>
          if Exceeded stdout then Inl (run_error ReasonOutputTooLarge (Sentinel ErrOutputTooLarge) (Buf stderr))
          else (case CmdError p of
                  None \<Rightarrow> Inr (Buf stdout)
                | Some err \<Rightarrow> Inl (run_error (classify_run_error (RunCtxErr p) err) err (Buf stderr))))"

text \<open>A query, with \<open>exec\<close> as the operation that runs a command in the world.\<close>

definition runner_query ::
  "(command \<Rightarrow> 'w \<Rightarrow> process \<times> 'w) \<Rightarrow> bytes list \<Rightarrow> runner \<Rightarrow> query \<Rightarrow> bytes \<Rightarrow> 'w \<Rightarrow> (go_error + bytes) \<times> 'w" where
  "runner_query exec environ r q device w =
     (case exec (run_command r environ device (query_args q)) w of (p, w') \<Rightarrow> (run_result p, w'))"

subsection \<open>The buffer keeps a prefix\<close>

definition buffer_inv :: "limited_buffer \<Rightarrow> bytes \<Rightarrow> bool" where
  "buffer_inv b written \<longleftrightarrow> 0 < Limit b \<and> Buf b = take (nat (Limit b)) written \<and>
     (Exceeded b \<longleftrightarrow> Limit b < int (length written))"

lemma buffer_write_inv:
  assumes "buffer_inv b written" and "p \<noteq> []"
  shows "buffer_inv (fst (buffer_write b p)) (written @ p)" and "Limit (fst (buffer_write b p)) = Limit b"
proof -
  have len: "int (length (Buf b)) = min (Limit b) (int (length written))"
    using assms(1) by (auto simp: buffer_inv_def)
  show "Limit (fst (buffer_write b p)) = Limit b" by (simp add: buffer_write_def Let_def)
  show "buffer_inv (fst (buffer_write b p)) (written @ p)"
  proof (cases "Limit b \<le> int (length written)")
    case True
    then have "Limit b - int (length (Buf b)) = 0" using len by simp
    then show ?thesis using assms True by (auto simp: buffer_inv_def buffer_write_def)
  next
    case False
    then have "Buf b = written" "\<not> Exceeded b" using assms(1) by (auto simp: buffer_inv_def)
    then show ?thesis using assms False
      by (auto simp: buffer_inv_def buffer_write_def Let_def nat_diff_distrib)
  qed
qed

lemma buffer_writes_inv:
  "buffer_inv b written \<Longrightarrow> [] \<notin> set ps \<Longrightarrow>
   buffer_inv (buffer_writes b ps) (written @ concat ps) \<and> Limit (buffer_writes b ps) = Limit b"
proof (induction ps arbitrary: b written)
  case (Cons p ps)
  then have "p \<noteq> []" by auto
  from buffer_write_inv [OF Cons.prems(1) this] Cons.IH [of "fst (buffer_write b p)" "written @ p"] Cons.prems(2)
  show ?case by (simp add: buffer_writes_def)
qed (simp add: buffer_writes_def)

text \<open>Whatever is written, the buffer never holds more than its limit.\<close>

lemma buffer_write_limit:
  assumes "int (length (Buf b)) \<le> Limit b"
  shows "int (length (Buf (fst (buffer_write b p)))) \<le> Limit (fst (buffer_write b p)) \<and>
    Limit (fst (buffer_write b p)) = Limit b \<and> (Exceeded b \<longrightarrow> Exceeded (fst (buffer_write b p))) \<and>
    (\<not> Exceeded (fst (buffer_write b p)) \<longrightarrow> Buf (fst (buffer_write b p)) = Buf b @ p)"
  using assms by (auto simp: buffer_write_def Let_def)

lemma buffer_writes_limit:
  "int (length (Buf b)) \<le> Limit b \<Longrightarrow>
   int (length (Buf (buffer_writes b ps))) \<le> Limit b \<and> (Exceeded b \<longrightarrow> Exceeded (buffer_writes b ps)) \<and>
   (\<not> Exceeded (buffer_writes b ps) \<longrightarrow> Buf (buffer_writes b ps) = Buf b @ concat ps)"
proof (induction ps arbitrary: b)
  case (Cons p ps)
  from buffer_write_limit [OF Cons.prems, of p] Cons.IH [of "fst (buffer_write b p)"]
  show ?case by (auto simp: buffer_writes_def)
qed (simp add: buffer_writes_def)

text \<open>An empty write changes nothing of what is kept, so the kept part is a prefix for any writes.\<close>

lemma buffer_write_prefix:
  assumes "Buf b = take (nat (Limit b)) written" and "0 < Limit b"
  shows "Buf (fst (buffer_write b p)) = take (nat (Limit b)) (written @ p) \<and> Limit (fst (buffer_write b p)) = Limit b"
  using assms by (auto simp: buffer_write_def Let_def nat_diff_distrib)

lemma buffer_writes_prefix:
  "Buf b = take (nat (Limit b)) written \<Longrightarrow> 0 < Limit b \<Longrightarrow>
   Buf (buffer_writes b ps) = take (nat (Limit b)) (written @ concat ps)"
proof (induction ps arbitrary: b written)
  case (Cons p ps)
  from buffer_write_prefix [OF Cons.prems, of p] Cons.IH [of "fst (buffer_write b p)" "written @ p"] Cons.prems(2)
  show ?case by (simp add: buffer_writes_def)
qed (simp add: buffer_writes_def)

lemma stderr_excerpt: "Buf (buffer_writes (new_buffer maxStderrBytes) ps) = take 4096 (concat ps)"
  using buffer_writes_prefix [of "new_buffer maxStderrBytes" "[]" ps]
  by (simp add: new_buffer_def maxStderrBytes_def)

lemma stdout_kept:
  "Buf (buffer_writes (new_buffer maxOutputBytes) ps) = take 4194304 (concat ps)"
  "[] \<notin> set ps \<Longrightarrow> Exceeded (buffer_writes (new_buffer maxOutputBytes) ps) = (4194304 < length (concat ps))"
proof -
  have limit: "Limit (new_buffer maxOutputBytes) = 4194304" "buffer_inv (new_buffer maxOutputBytes) []"
    by (simp_all add: new_buffer_def maxOutputBytes_def buffer_inv_def)
  show "Buf (buffer_writes (new_buffer maxOutputBytes) ps) = take 4194304 (concat ps)"
    using buffer_writes_prefix [of "new_buffer maxOutputBytes" "[]" ps] limit by (simp add: buffer_inv_def)
  assume "[] \<notin> set ps"
  from buffer_writes_inv [OF limit(2) this] limit(1)
  show "Exceeded (buffer_writes (new_buffer maxOutputBytes) ps) = (4194304 < length (concat ps))"
    unfolding buffer_inv_def by (simp del: concat.simps length_concat)
qed

subsection \<open>Causes\<close>

text \<open>An error with all that it wraps, from the outside to the inside.\<close>

fun causes :: "go_error \<Rightarrow> go_error list" where
  "causes (Wrapped msg e) = Wrapped msg e # causes e"
| "causes (RunError reason e stderr) = RunError reason e stderr # causes e"
| "causes e = [e]"

lemma error_is_causes: "error_is e x \<longleftrightarrow> x \<in> set (causes e)"
  by (induction e) auto

lemma as_exit_error_causes: "as_exit_error e \<longleftrightarrow> ExitError \<in> set (causes e)"
  by (induction e) auto

text \<open>What may be said of a failed invocation, from what takes precedence to what is left.\<close>

definition ran_late :: "process \<Rightarrow> go_error \<Rightarrow> bool" where
  "ran_late p err \<longleftrightarrow> RunCtxErr p = Some DeadlineExceeded \<or> Sentinel ErrWaitDelay \<in> set (causes err)"

definition not_there :: "go_error \<Rightarrow> bool" where
  "not_there err \<longleftrightarrow> {Sentinel ErrNotFound, Sentinel ErrNotExist} \<inter> set (causes err) \<noteq> {}"

definition not_allowed :: "go_error \<Rightarrow> bool" where
  "not_allowed err \<longleftrightarrow> Sentinel ErrPermission \<in> set (causes err)"

lemma classify_exported: "classify_run_error c e \<in> exported_reasons"
  by (simp add: classify_run_error_def exported_reasons_def)

subsection \<open>The interface to the poller\<close>

text \<open>
  What the poller relies on: a query that fails says why. An empty reason would mark the
  snapshot of a failed device as collected.
\<close>

locale command_runner =
  fixes query :: "query \<Rightarrow> bytes \<Rightarrow> 'w \<Rightarrow> (go_error + bytes) \<times> 'w"
  assumes failure_reason: "query q device w = (Inl e, w') \<Longrightarrow> reason_from_error e \<noteq> NoReason"
begin

lemma failure_exported: "query q device w = (Inl e, w') \<Longrightarrow> reason_from_error e \<in> exported_reasons"
  using failure_reason by (simp add: exported_reasons_iff)

end

lemma run_result_reason: "run_result p = Inl e \<Longrightarrow> reason_from_error e \<noteq> NoReason"
  using classify_exported [of "RunCtxErr p"]
  by (auto simp: run_result_def run_error_def reason_from_error_def Let_def exported_reasons_iff
      split: option.splits if_splits)

interpretation exec_runner: command_runner "runner_query exec environ r"
  for exec :: "command \<Rightarrow> 'w \<Rightarrow> process \<times> 'w" and environ r
  by unfold_locales (auto simp: runner_query_def run_result_reason split: prod.splits)

subsection \<open>Properties\<close>

text \<open>
  C39: The buffer keeps exactly the first bytes of what was written, up to its limit, and is
  marked exactly when there were more, however the output was cut into writes.
\<close>

theorem buffer_keeps_prefix:
  assumes "0 < limit" and "[] \<notin> set ps"
  shows "Buf (buffer_writes (new_buffer limit) ps) = take (nat limit) (concat ps) \<and>
    Exceeded (buffer_writes (new_buffer limit) ps) = (limit < int (length (concat ps)))"
proof -
  have "buffer_inv (new_buffer limit) []" using assms(1) by (simp add: buffer_inv_def new_buffer_def)
  from buffer_writes_inv [OF this assms(2)] show ?thesis
    by (simp add: buffer_inv_def new_buffer_def)
qed

lemma buffer_keeps_prefix_witness:
  "Buf (buffer_writes (new_buffer 3) [''ab'', ''cd'']) = ''abc'' \<and>
   Exceeded (buffer_writes (new_buffer 3) [''ab'', ''cd''])"
  using buffer_keeps_prefix [of 3 "[''ab'', ''cd'']"] by simp

text \<open>
  C21: The outcome of an invocation. An accepted output is everything the process wrote, at most
  4 MiB, of a process that succeeded while the context was alive; a cancelled context is
  returned as it is. Every other failure is a RunError with the first 4 KiB of stderr, trimmed,
  and with this reason: output_too_large exactly when there was more than 4 MiB; otherwise
  timeout exactly when the deadline of the run has passed or the pipes had to be closed;
  otherwise command_not_found, permission_denied or exit_error by what caused it, in this
  order; and unknown exactly when none of these applies.
\<close>

theorem run_result_sound:
  assumes "[] \<notin> set (StdoutWrites p)"
  shows "case run_result p of
     Inr out \<Rightarrow> out = concat (StdoutWrites p) \<and> length out \<le> 4194304 \<and> CmdError p = None \<and> ParentErr p = None
   | Inl e \<Rightarrow>
      (case ParentErr p of
         Some c \<Rightarrow> e = CtxError c
       | None \<Rightarrow> (\<exists>reason err. e = RunError reason err (trim_space (take 4096 (concat (StderrWrites p)))) \<and>
           (if 4194304 < length (concat (StdoutWrites p))
            then reason = ReasonOutputTooLarge \<and> err = Sentinel ErrOutputTooLarge
            else CmdError p = Some err \<and>
              reason \<in> {ReasonTimeout, ReasonCommandNotFound, ReasonPermissionDenied, ReasonExitError, ReasonUnknown} \<and>
              (reason = ReasonTimeout) = ran_late p err \<and>
              (reason = ReasonCommandNotFound) = (\<not> ran_late p err \<and> not_there err) \<and>
              (reason = ReasonPermissionDenied) = (\<not> ran_late p err \<and> \<not> not_there err \<and> not_allowed err) \<and>
              (reason = ReasonExitError) =
                (\<not> ran_late p err \<and> \<not> not_there err \<and> \<not> not_allowed err \<and> ExitError \<in> set (causes err)))))"
proof (cases "ParentErr p")
  case None
  have classified: "classify_run_error (RunCtxErr p) err =
      (if ran_late p err then ReasonTimeout else if not_there err then ReasonCommandNotFound
       else if not_allowed err then ReasonPermissionDenied
       else if ExitError \<in> set (causes err) then ReasonExitError else ReasonUnknown)" for err
    by (simp add: classify_run_error_def error_is_causes as_exit_error_causes ran_late_def not_there_def not_allowed_def)
  show ?thesis
    using None stdout_kept(2) [OF assms]
    by (cases "CmdError p") (simp_all add: run_result_def run_error_def Let_def stdout_kept(1) stderr_excerpt classified)
qed (simp add: run_result_def Let_def)

text \<open>A binary that may not be executed, and a process that exits with an error after its deadline.\<close>

definition denied_process :: process where
  "denied_process =
     \<lparr> StdoutWrites = [''{''], StderrWrites = [''no '', ''way''], CmdError = Some (Wrapped ''exec'' (Sentinel ErrPermission)),
       RunCtxErr = None, ParentErr = None \<rparr>"

lemma run_result_sound_witness:
  "run_result denied_process =
     Inl (RunError ReasonPermissionDenied (Wrapped ''exec'' (Sentinel ErrPermission)) ''no way'') \<and>
   run_result (denied_process\<lparr> CmdError := Some ExitError, RunCtxErr := Some DeadlineExceeded \<rparr>) =
     Inl (RunError ReasonTimeout ExitError ''no way'')"
proof -
  have "trim_space ''no way'' = ''no way''" by code_simp
  then show ?thesis
    using run_result_sound [of denied_process]
      run_result_sound [of "denied_process\<lparr> CmdError := Some ExitError, RunCtxErr := Some DeadlineExceeded \<rparr>"]
    by (auto simp: denied_process_def ran_late_def not_there_def not_allowed_def split: sum.splits)
qed

end
