(* ===== verification/State_WP.thy ===== *)
theory State_WP
  imports Prelude "HOL-Library.State_Monad"
begin

text \<open>
  Weakest preconditions for the library's state monad. A program of the poller is total and
  deterministic in its world, so the weakest precondition is the postcondition at the one
  final state; the equations of \<open>wp_simps\<close> push it backwards through a program.
\<close>

named_theorems wp_simps "weakest preconditions of the operations"

definition wp :: "('s, 'a) state \<Rightarrow> ('a \<Rightarrow> 's \<Rightarrow> bool) \<Rightarrow> 's \<Rightarrow> bool" where
  "wp m Q s \<longleftrightarrow> (case run_state m s of (r, s') \<Rightarrow> Q r s')"

lemma wp_run: "wp m Q s \<Longrightarrow> run_state m s = (r, s') \<Longrightarrow> Q r s'"
  by (simp add: wp_def)

lemma wpI: "(\<And>r s'. run_state m s = (r, s') \<Longrightarrow> Q r s') \<Longrightarrow> wp m Q s"
  by (simp add: wp_def split: prod.splits)

lemma wp_return [wp_simps]: "wp (State_Monad.return x) Q = Q x"
  by (simp add: wp_def fun_eq_iff)

lemma wp_bind [wp_simps]: "wp (State_Monad.bind m f) Q s = wp m (\<lambda>r. wp (f r) Q) s"
  by (simp add: wp_def split: prod.splits)

lemma wp_get [wp_simps]: "wp State_Monad.get Q s = Q s s"
  by (simp add: wp_def)

lemma wp_update [wp_simps]: "wp (State_Monad.update f) Q s = Q () (f s)"
  by (simp add: wp_def State_Monad.update_def)

lemma wp_if [wp_simps]: "wp (if b then m else n) Q s = (if b then wp m Q s else wp n Q s)"
  by simp

lemma wp_option [wp_simps]:
  "wp (case x of None \<Rightarrow> m | Some y \<Rightarrow> f y) Q s = (case x of None \<Rightarrow> wp m Q s | Some y \<Rightarrow> wp (f y) Q s)"
  by (cases x) simp_all

lemma wp_sum [wp_simps]:
  "wp (case x of Inl a \<Rightarrow> f a | Inr b \<Rightarrow> g b) Q s = (case x of Inl a \<Rightarrow> wp (f a) Q s | Inr b \<Rightarrow> wp (g b) Q s)"
  by (cases x) simp_all

lemma wp_mono: "wp m P s \<Longrightarrow> (\<And>r s'. P r s' \<Longrightarrow> Q r s') \<Longrightarrow> wp m Q s"
  by (simp add: wp_def split: prod.splits)

lemma wp_conj: "wp m P s \<Longrightarrow> wp m Q s \<Longrightarrow> wp m (\<lambda>r s'. P r s' \<and> Q r s') s"
  by (simp add: wp_def split: prod.splits)

text \<open>The same as rules, for programs whose inner parts are known by their specifications.\<close>

lemma wp_returnI: "Q x s \<Longrightarrow> wp (State_Monad.return x) Q s"
  by (simp add: wp_return)

lemma wp_bindI: "wp m (\<lambda>r s'. wp (f r) Q s') s \<Longrightarrow> wp (State_Monad.bind m f) Q s"
  by (simp add: wp_bind)

lemma wp_updateI: "Q () (f s) \<Longrightarrow> wp (State_Monad.update f) Q s"
  by (simp add: wp_update)

lemma wp_getI: "Q s s \<Longrightarrow> wp State_Monad.get Q s"
  by (simp add: wp_get)

lemma wp_ifI: "(b \<Longrightarrow> wp m Q s) \<Longrightarrow> (\<not> b \<Longrightarrow> wp n Q s) \<Longrightarrow> wp (if b then m else n) Q s"
  by simp

lemma wp_optionI:
  "(x = None \<Longrightarrow> wp m Q s) \<Longrightarrow> (\<And>y. x = Some y \<Longrightarrow> wp (f y) Q s) \<Longrightarrow>
   wp (case x of None \<Rightarrow> m | Some y \<Rightarrow> f y) Q s"
  by (cases x) simp_all

lemma wp_sumI:
  "(\<And>a. x = Inl a \<Longrightarrow> wp (f a) Q s) \<Longrightarrow> (\<And>b. x = Inr b \<Longrightarrow> wp (g b) Q s) \<Longrightarrow>
   wp (case x of Inl a \<Rightarrow> f a | Inr b \<Rightarrow> g b) Q s"
  by (cases x) simp_all

lemma wp_anyI: "(\<And>r s'. Q r s') \<Longrightarrow> wp m Q s"
  by (simp add: wp_def split: prod.split)

lemmas wp_rules = wp_returnI wp_bindI wp_updateI wp_getI wp_ifI wp_optionI wp_sumI

text \<open>A specification that relates the state before to the result and the state after.\<close>

definition satisfies :: "('s, 'a) state \<Rightarrow> ('s \<Rightarrow> 'a \<Rightarrow> 's \<Rightarrow> bool) \<Rightarrow> bool" where
  "satisfies m R \<longleftrightarrow> (\<forall>s. wp m (R s) s)"

lemma satisfiesI: "(\<And>s. wp m (R s) s) \<Longrightarrow> satisfies m R"
  by (simp add: satisfies_def)

lemma satisfies_wp: "satisfies m R \<Longrightarrow> (\<And>r s'. R s r s' \<Longrightarrow> Q r s') \<Longrightarrow> wp m Q s"
  unfolding satisfies_def by (blast intro: wp_mono)

lemma satisfies_run: "satisfies m R \<Longrightarrow> run_state m s = (r, s') \<Longrightarrow> R s r s'"
  unfolding satisfies_def by (blast intro: wp_run)

lemma satisfies_run_iff: "satisfies m R \<longleftrightarrow> (\<forall>s r s'. run_state m s = (r, s') \<longrightarrow> R s r s')"
  by (auto simp: satisfies_def wp_def split: prod.splits)

end
