(* ===== verification/Go_Os.thy ===== *)
theory Go_Os
  imports Go_Strings "HOL-Library.Char_ord" "HOL-Library.List_Lexorder"
begin

text \<open>
  What the code uses of \<open>path/filepath\<close>, \<open>os\<close> and \<open>log/slog\<close>: lexical paths on a system
  whose separator is the slash, the entries of a directory in the order \<open>os.ReadDir\<close> returns
  them, and the levels of a log record.
\<close>

datatype log_level = LogDebug | LogInfo | LogWarn | LogError

subsection \<open>Paths\<close>

text \<open>
  \<open>filepath.Clean\<close>: the elements are read from left to right; empty ones and dots vanish, and
  two dots take back the element before them, if there is one to take back. The elements kept
  are in reverse order here.
\<close>

fun clean_elements :: "bool \<Rightarrow> bytes list \<Rightarrow> bytes list \<Rightarrow> bytes list" where
  "clean_elements rooted kept [] = rev kept"
| "clean_elements rooted kept (e # es) =
     (if e = '''' \<or> e = ''.'' then clean_elements rooted kept es
      else if e = ''..'' then
        (case kept of
           [] \<Rightarrow> clean_elements rooted (if rooted then [] else [e]) es
         | k # ks \<Rightarrow> if k = ''..'' then clean_elements rooted (e # kept) es else clean_elements rooted ks es)
      else clean_elements rooted (e # kept) es)"

definition path_clean :: "bytes \<Rightarrow> bytes" where
  "path_clean p =
     (let rooted = has_prefix p ''/'';
          out = (if rooted then ''/'' else '''') @ join_with CHR ''/'' (clean_elements rooted [] (split_on CHR ''/'' p))
      in if out = '''' then ''.'' else out)"

text \<open>\<open>filepath.Join\<close>: the empty elements in front are left out, the rest is cleaned.\<close>

definition path_join :: "bytes list \<Rightarrow> bytes" where
  "path_join es =
     (case dropWhile (\<lambda>e. e = '''') es of [] \<Rightarrow> '''' | rest \<Rightarrow> path_clean (join_with CHR ''/'' rest))"

definition path_base :: "bytes \<Rightarrow> bytes" where
  "path_base p =
     (if p = '''' then ''.''
      else case rev (takeWhile (\<lambda>c. c \<noteq> CHR ''/'') (dropWhile (\<lambda>c. c = CHR ''/'') (rev p))) of
        [] \<Rightarrow> ''/''
      | base \<Rightarrow> base)"

lemma path_examples:
  "path_clean ''/sys//class/./x/../y/'' = ''/sys/class/y''" "path_clean '''' = ''.''"
  "path_clean ''../../a'' = ''../../a''" "path_clean ''/../a'' = ''/a''" "path_clean ''a/..'' = ''.''"
  "path_join [''/sys'', ''class/infiniband''] = ''/sys/class/infiniband''"
  "path_base ''../../../0000:a1:00.0'' = ''0000:a1:00.0''" "path_base ''/'' = ''/''" "path_base ''a/b//'' = ''b''"
  by (simp_all add: path_clean_def path_join_def path_base_def has_prefix_def)

subsection \<open>Directories\<close>

datatype file_type = FileDir | FileSymlink | FileOther

type_synonym dir_entry = "bytes \<times> file_type"

text \<open>
  A directory is a finite map from names to types, given as an association list;
  \<open>os.ReadDir\<close> lists its entries by name.
\<close>

definition sorted_entries :: "(bytes \<times> file_type) list \<Rightarrow> dir_entry list" where
  "sorted_entries dir = sort_key fst (AList.clearjunk dir)"

lemma sorted_entries_names:
  "sorted (map fst (sorted_entries dir))" "distinct (map fst (sorted_entries dir))"
  "map_of (sorted_entries dir) = map_of dir"
proof -
  have m: "mset (sorted_entries dir) = mset (AList.clearjunk dir)" by (simp add: sorted_entries_def)
  have "mset (map fst (sorted_entries dir)) = mset (map fst (AList.clearjunk dir))" by (simp add: m)
  then show d: "distinct (map fst (sorted_entries dir))"
    using distinct_clearjunk [of dir] by (metis mset_eq_imp_distinct_iff)
  show "sorted (map fst (sorted_entries dir))" by (simp add: sorted_entries_def)
  have "map_of (sorted_entries dir) = map_of (AList.clearjunk dir)"
    using d m distinct_clearjunk [of dir] map_of_inject_set by (metis set_mset_mset)
  then show "map_of (sorted_entries dir) = map_of dir" by (simp add: map_of_clearjunk)
qed

end
