(* ===== verification/Poller.thy ===== *)
theory Poller
  imports Runner State_WP Go_Os
begin

text \<open>
  \<open>internal/mlxlink/poller.go\<close>: the snapshots, the sweep over the discovered devices, the
  collection of one device with its fallbacks, and the loop over the ticks. The poller's
  fields and the world its interfaces act on are one state, threaded by the state monad; what
  it does to counters, stores and logs is also recorded in a trace, in its order.

  \<open>ctx.Err()\<close> is an operation of the world: a signal may arrive between any two steps.
\<close>

subsection \<open>Snapshots\<close>

record 'd snapshot =
  SnapTarget :: target
  SnapData :: 'd
  LastSuccess :: gotime
  LastError :: error_reason
  LastDuration :: int

type_synonym device_snapshot = "port_data snapshot"
type_synonym pcie_eye_snapshot = "pcie_eye snapshot"

text \<open>A published set is immutable; its pointer is nil before the first publish.\<close>

type_synonym 'd snapshot_set = "bytes \<Rightarrow> 'd snapshot option"

definition snapshot_lookup :: "'d snapshot_set option \<Rightarrow> bytes \<Rightarrow> 'd snapshot option" where
  "snapshot_lookup sset device = (case sset of None \<Rightarrow> None | Some by_device \<Rightarrow> by_device device)"

definition zero_target :: target where
  "zero_target = \<lparr> Device = '''', Port = '''', PCIAddr = '''', NetDev = '''' \<rparr>"

definition zero_snapshot :: "'d \<Rightarrow> 'd snapshot" where
  "zero_snapshot zero_data =
     \<lparr> SnapTarget = zero_target, SnapData = zero_data, LastSuccess = zero_time,
       LastError = NoReason, LastDuration = 0 \<rparr>"

text \<open>The snapshot a lookup hands out: the zero value when the device is not there.\<close>

definition lookup_or_zero :: "'d \<Rightarrow> 'd snapshot_set option \<Rightarrow> bytes \<Rightarrow> 'd snapshot" where
  "lookup_or_zero zero_data sset device =
     (case snapshot_lookup sset device of None \<Rightarrow> zero_snapshot zero_data | Some s \<Rightarrow> s)"

subsection \<open>The state and what happens to it\<close>

text \<open>
  The calls the poller makes, in their order: discoveries and queries to the runner with their answers,
  readings of the context and of the clock, counter increments with their label values, publications, and log records (without their
  attributes).
\<close>

datatype event =
  Discovered "go_error + target list"
| Queried query bytes "go_error + bytes"
| CtxSeen "ctx_error option"
| ClockRead gotime
| IncErrors "bytes list"
| IncPCIeEyeErrors "bytes list"
| IncOverlaps
| PublishedDevices "port_data snapshot_set"
| PublishedPCIeEye "pcie_eye snapshot_set"
| ReadySet
| Logged log_level bytes

record 'w poller =
  World :: 'w
  Store :: "port_data snapshot_set option"
  PCIeEyeStore :: "pcie_eye snapshot_set option"
  Ready :: bool
  Trace :: "event list"

text \<open>The interfaces of the poller, as operations on the world, and its configuration.\<close>

record 'w poller_env =
  EnvDiscover :: "'w \<Rightarrow> (go_error + target list) \<times> 'w"
  EnvQuery :: "query \<Rightarrow> bytes \<Rightarrow> 'w \<Rightarrow> (go_error + bytes) \<times> 'w"
  EnvNow :: "'w \<Rightarrow> gotime \<times> 'w"
  EnvCtxErr :: "'w \<Rightarrow> ctx_error option \<times> 'w"
  EnvTryTick :: "'w \<Rightarrow> bool \<times> 'w"
  ShowEye :: bool
  ShowPCIeEye :: bool

definition new_poller :: "'w \<Rightarrow> 'w poller" where
  "new_poller w = \<lparr> World = w, Store = None, PCIeEyeStore = None, Ready = False, Trace = [] \<rparr>"

definition emit :: "event \<Rightarrow> ('w poller, unit) state" where
  "emit ev = State (\<lambda>s. ((), s\<lparr> Trace := Trace s @ [ev] \<rparr>))"

definition in_world :: "('w \<Rightarrow> 'a \<times> 'w) \<Rightarrow> ('w poller, 'a) state" where
  "in_world f = State (\<lambda>s. case f (World s) of (r, w) \<Rightarrow> (r, s\<lparr> World := w \<rparr>))"

definition run_discovery :: "'w poller_env \<Rightarrow> ('w poller, go_error + target list) state" where
  "run_discovery env = do {
     found \<leftarrow> in_world (EnvDiscover env);
     emit (Discovered found);
     State_Monad.return found }"

definition run_query :: "'w poller_env \<Rightarrow> query \<Rightarrow> bytes \<Rightarrow> ('w poller, go_error + bytes) state" where
  "run_query env q device = do {
     answer \<leftarrow> in_world (EnvQuery env q device);
     emit (Queried q device answer);
     State_Monad.return answer }"

definition clock_now :: "'w poller_env \<Rightarrow> ('w poller, gotime) state" where
  "clock_now env = do { now \<leftarrow> in_world (EnvNow env); emit (ClockRead now); State_Monad.return now }"

definition ctx_err :: "'w poller_env \<Rightarrow> ('w poller, ctx_error option) state" where
  "ctx_err env = do { e \<leftarrow> in_world (EnvCtxErr env); emit (CtxSeen e); State_Monad.return e }"

definition log_event :: "log_level \<Rightarrow> bytes \<Rightarrow> ('w poller, unit) state" where
  "log_event level msg = emit (Logged level msg)"

subsection \<open>Counting and recording\<close>

definition count_error :: "target \<Rightarrow> error_reason \<Rightarrow> ('w poller, unit) state" where
  "count_error t reason = emit (IncErrors [Device t, Port t, PCIAddr t, reason_string reason])"

definition count_pcie_eye_error :: "target \<Rightarrow> error_reason \<Rightarrow> ('w poller, unit) state" where
  "count_pcie_eye_error t reason = emit (IncPCIeEyeErrors [Device t, PCIAddr t, reason_string reason])"

definition record_failure :: "device_snapshot \<Rightarrow> error_reason \<Rightarrow> ('w poller, device_snapshot) state" where
  "record_failure snapshot reason = do {
     let snapshot' = snapshot\<lparr> LastError := reason \<rparr>;
     count_error (SnapTarget snapshot') reason;
     log_event LogWarn ''mlxlink collection failed'';
     State_Monad.return snapshot' }"

definition record_pcie_eye_failure :: "pcie_eye_snapshot \<Rightarrow> error_reason \<Rightarrow> ('w poller, pcie_eye_snapshot) state" where
  "record_pcie_eye_failure snapshot reason = do {
     let snapshot' = snapshot\<lparr> LastError := reason \<rparr>;
     count_pcie_eye_error (SnapTarget snapshot') reason;
     log_event LogWarn ''mlxlink PCIe Eye collection failed'';
     State_Monad.return snapshot' }"

definition record_success :: "device_snapshot \<Rightarrow> port_data \<Rightarrow> gotime \<Rightarrow> ('w poller, device_snapshot) state" where
  "record_success snapshot data now = do {
     let snapshot' = snapshot\<lparr> SnapData := data, LastSuccess := now, LastError := NoReason \<rparr>;
     log_event LogDebug ''mlxlink device collected'';
     State_Monad.return snapshot' }"

definition record_combined_fallback :: "target \<Rightarrow> ('w poller, unit) state" where
  "record_combined_fallback t = do {
     count_error t ReasonExitError;
     log_event LogDebug ''mlxlink combined query required baseline fallback'' }"

subsection \<open>Collecting one device\<close>

text \<open>
  None stands for the false that only shutting down returns. Decoding is pure, so it is written
  behind the reading of the context that follows it in the code.
\<close>

definition collect_baseline ::
  "'w poller_env \<Rightarrow> target \<Rightarrow> device_snapshot \<Rightarrow> gotime \<Rightarrow> ('w poller, device_snapshot option) state" where
  "collect_baseline env t snapshot0 start = do {
     e0 \<leftarrow> ctx_err env;
     if e0 \<noteq> None then State_Monad.return None
     else do {
       result \<leftarrow> run_query env QueryRunBaseline (Device t);
       now \<leftarrow> clock_now env;
       let snapshot = snapshot0\<lparr> LastDuration := time_sub now start \<rparr>;
       e1 \<leftarrow> ctx_err env;
       if e1 \<noteq> None then State_Monad.return None
       else (case result of
         Inl err \<Rightarrow> do {
           record_combined_fallback t;
           failed \<leftarrow> record_failure snapshot (reason_from_error err);
           State_Monad.return (Some failed) }
       | Inr raw \<Rightarrow> do {
           e2 \<leftarrow> ctx_err env;
           if e2 \<noteq> None then State_Monad.return None
           else do {
             record_combined_fallback t;
             (case decode raw of
                Inl err \<Rightarrow> do {
                  failed \<leftarrow> record_failure snapshot ReasonInvalidJSON;
                  State_Monad.return (Some failed) }
              | Inr data \<Rightarrow> do {
                  let data' = data\<lparr> PortFECHistogram := [], PortSerDesTX := no_serdes, PortEye := no_eye \<rparr>;
                  log_event LogDebug ''mlxlink device collected with baseline fallback'';
                  State_Monad.return (Some (snapshot\<lparr> SnapData := data', LastSuccess := now, LastError := NoReason \<rparr>)) }) } }) } }"

definition collect_combined ::
  "'w poller_env \<Rightarrow> target \<Rightarrow> device_snapshot \<Rightarrow> gotime \<Rightarrow> ('w poller, device_snapshot option) state" where
  "collect_combined env t snapshot0 start = do {
     result \<leftarrow> run_query env QueryRun (Device t);
     now \<leftarrow> clock_now env;
     let snapshot = snapshot0\<lparr> LastDuration := time_sub now start \<rparr>;
     e1 \<leftarrow> ctx_err env;
     if e1 \<noteq> None then State_Monad.return None
     else (case result of
       Inl err \<Rightarrow>
         if reason_from_error err = ReasonExitError then collect_baseline env t snapshot start
         else do {
           failed \<leftarrow> record_failure snapshot (reason_from_error err);
           State_Monad.return (Some failed) }
     | Inr raw \<Rightarrow> do {
         e2 \<leftarrow> ctx_err env;
         if e2 \<noteq> None then State_Monad.return None
         else (case decode raw of
           Inl err \<Rightarrow> do {
             failed \<leftarrow> record_failure snapshot ReasonInvalidJSON;
             State_Monad.return (Some failed) }
         | Inr data \<Rightarrow> do {
             collected \<leftarrow> record_success snapshot (data\<lparr> PortEye := no_eye \<rparr>) now;
             State_Monad.return (Some collected) }) }) }"

definition collect_with_eye ::
  "'w poller_env \<Rightarrow> target \<Rightarrow> device_snapshot \<Rightarrow> gotime \<Rightarrow> ('w poller, device_snapshot option) state" where
  "collect_with_eye env t snapshot0 start = do {
     result \<leftarrow> run_query env QueryRunWithEye (Device t);
     now \<leftarrow> clock_now env;
     let snapshot = snapshot0\<lparr> LastDuration := time_sub now start \<rparr>;
     e1 \<leftarrow> ctx_err env;
     if e1 \<noteq> None then State_Monad.return None
     else (case result of
       Inl err \<Rightarrow>
         if reason_from_error err = ReasonExitError then do {
           fallback \<leftarrow> collect_combined env t snapshot start;
           (case fallback of
              None \<Rightarrow> State_Monad.return None
            | Some fb \<Rightarrow> do {
                e2 \<leftarrow> ctx_err env;
                if e2 \<noteq> None then State_Monad.return None
                else do {
                  count_error t ReasonExitError;
                  log_event LogDebug ''mlxlink Eye query required combined fallback'';
                  State_Monad.return (Some fb) } }) }
         else do {
           failed \<leftarrow> record_failure snapshot (reason_from_error err);
           State_Monad.return (Some failed) }
     | Inr raw \<Rightarrow> do {
         e2 \<leftarrow> ctx_err env;
         if e2 \<noteq> None then State_Monad.return None
         else (case decode raw of
           Inl err \<Rightarrow> do {
             failed \<leftarrow> record_failure snapshot ReasonInvalidJSON;
             State_Monad.return (Some failed) }
         | Inr data \<Rightarrow> do {
             collected \<leftarrow> record_success snapshot data now;
             State_Monad.return (Some collected) }) }) }"

definition collect ::
  "'w poller_env \<Rightarrow> target \<Rightarrow> port_data snapshot_set option \<Rightarrow> ('w poller, device_snapshot option) state" where
  "collect env t previous = do {
     let snapshot = (lookup_or_zero no_port_data previous (Device t))\<lparr> SnapTarget := t \<rparr>;
     start \<leftarrow> clock_now env;
     if ShowEye env then collect_with_eye env t snapshot start
     else collect_combined env t snapshot start }"

definition collect_pcie_eye ::
  "'w poller_env \<Rightarrow> target \<Rightarrow> pcie_eye snapshot_set option \<Rightarrow> ('w poller, pcie_eye_snapshot option) state" where
  "collect_pcie_eye env t previous = do {
     let snapshot0 = (lookup_or_zero no_pcie_eye previous (Device t))\<lparr> SnapTarget := t \<rparr>;
     start \<leftarrow> clock_now env;
     result \<leftarrow> run_query env QueryRunPCIeEye (Device t);
     now \<leftarrow> clock_now env;
     let snapshot = snapshot0\<lparr> LastDuration := time_sub now start \<rparr>;
     e1 \<leftarrow> ctx_err env;
     if e1 \<noteq> None then State_Monad.return None
     else (case result of
       Inl err \<Rightarrow> do {
         failed \<leftarrow> record_pcie_eye_failure snapshot (reason_from_error err);
         State_Monad.return (Some failed) }
     | Inr raw \<Rightarrow> do {
         e2 \<leftarrow> ctx_err env;
         if e2 \<noteq> None then State_Monad.return None
         else (case decode_pcie_eye raw of
           Inl err \<Rightarrow> do {
             failed \<leftarrow> record_pcie_eye_failure snapshot ReasonInvalidJSON;
             State_Monad.return (Some failed) }
         | Inr data \<Rightarrow> do {
             log_event LogDebug ''mlxlink PCIe Eye collected'';
             State_Monad.return
               (Some (snapshot\<lparr> SnapData := data, LastSuccess := now, LastError := NoReason \<rparr>)) }) }) }"

subsection \<open>One sweep\<close>

text \<open>
  \<open>sweepDevices\<close> over either store: how to read the store, how to publish to it, and what to
  do once a device is visible.
\<close>

record ('w, 'd) sweep_ops =
  LoadStore :: "'w poller \<Rightarrow> 'd snapshot_set option"
  Publish :: "'d snapshot_set \<Rightarrow> ('w poller, unit) state"
  CollectOne :: "target \<Rightarrow> 'd snapshot_set option \<Rightarrow> ('w poller, 'd snapshot option) state"
  OnPublish :: "'d snapshot \<Rightarrow> ('w poller, unit) state"

definition publish_devices :: "port_data snapshot_set \<Rightarrow> ('w poller, unit) state" where
  "publish_devices m = do {
     State_Monad.update (\<lambda>s. s\<lparr> Store := Some m \<rparr>);
     emit (PublishedDevices m) }"

definition publish_pcie_eye :: "pcie_eye snapshot_set \<Rightarrow> ('w poller, unit) state" where
  "publish_pcie_eye m = do {
     State_Monad.update (\<lambda>s. s\<lparr> PCIeEyeStore := Some m \<rparr>);
     emit (PublishedPCIeEye m) }"

definition announce_ready :: "device_snapshot \<Rightarrow> ('w poller, unit) state" where
  "announce_ready snapshot =
     (if LastError snapshot = NoReason then do {
        State_Monad.update (\<lambda>s. s\<lparr> Ready := True \<rparr>);
        emit ReadySet }
      else State_Monad.return ())"

text \<open>The working map: the previous snapshots of the targets there are now.\<close>

fun seed_working :: "'d snapshot_set option \<Rightarrow> target list \<Rightarrow> 'd snapshot_set \<Rightarrow> 'd snapshot_set" where
  "seed_working previous [] working = working"
| "seed_working previous (t # ts) working =
     seed_working previous ts
       (case snapshot_lookup previous (Device t) of
          None \<Rightarrow> working
        | Some s \<Rightarrow> working(Device t \<mapsto> s))"

fun sweep_loop ::
  "('w, 'd) sweep_ops \<Rightarrow> 'd snapshot_set option \<Rightarrow> target list \<Rightarrow> 'd snapshot_set \<Rightarrow> ('w poller, bool) state" where
  "sweep_loop ops previous [] working = State_Monad.return True"
| "sweep_loop ops previous (t # ts) working = do {
     collected \<leftarrow> CollectOne ops t previous;
     (case collected of
        None \<Rightarrow> State_Monad.return False
      | Some snapshot \<Rightarrow> do {
          let working' = working(Device t \<mapsto> snapshot);
          Publish ops working';
          OnPublish ops snapshot;
          sweep_loop ops previous ts working' }) }"

definition sweep_devices :: "('w, 'd) sweep_ops \<Rightarrow> target list \<Rightarrow> ('w poller, bool) state" where
  "sweep_devices ops targets =
     (if targets = [] then do { Publish ops Map.empty; State_Monad.return True }
      else do {
        s \<leftarrow> State_Monad.get;
        let previous = LoadStore ops s;
        sweep_loop ops previous targets (seed_working previous targets Map.empty) })"

definition device_ops :: "'w poller_env \<Rightarrow> ('w, port_data) sweep_ops" where
  "device_ops env =
     \<lparr> LoadStore = Store, Publish = publish_devices, CollectOne = collect env,
       OnPublish = announce_ready \<rparr>"

definition pcie_eye_ops :: "'w poller_env \<Rightarrow> ('w, pcie_eye) sweep_ops" where
  "pcie_eye_ops env =
     \<lparr> LoadStore = PCIeEyeStore, Publish = publish_pcie_eye, CollectOne = collect_pcie_eye env,
       OnPublish = (\<lambda>snapshot. State_Monad.return ()) \<rparr>"

definition sweep :: "'w poller_env \<Rightarrow> ('w poller, unit) state" where
  "sweep env = do {
     discovered \<leftarrow> run_discovery env;
     (case discovered of
        Inl err \<Rightarrow> do {
          e \<leftarrow> ctx_err env;
          if e = None then log_event LogWarn ''mlxlink device discovery failed''
          else State_Monad.return () }
      | Inr targets \<Rightarrow> do {
          completed \<leftarrow> sweep_devices (device_ops env) targets;
          if \<not> completed then State_Monad.return ()
          else if ShowPCIeEye env then do {
            ok \<leftarrow> sweep_devices (pcie_eye_ops env) targets;
            State_Monad.return () }
          else State_Monad.return () }) }"

subsection \<open>The loop over the ticks\<close>

definition drain_ticks :: "'w poller_env \<Rightarrow> ('w poller, unit) state" where
  "drain_ticks env = do {
     pending \<leftarrow> in_world (EnvTryTick env);
     if pending then do {
       e \<leftarrow> ctx_err env;
       if e \<noteq> None then State_Monad.return ()
       else do {
         emit IncOverlaps;
         log_event LogWarn ''mlxlink sweep did not finish before the next tick'' } }
     else State_Monad.return () }"

definition tick_step :: "'w poller_env \<Rightarrow> ('w poller, unit) state" where
  "tick_step env = do { sweep env; drain_ticks env }"

text \<open>
  \<open>Run\<close> as a step relation: it is about to start, blocked in its select, or has returned.
  Before it starts and while it is blocked anything may happen to the world (\<open>idle\<close>); a tick and
  a cancelled context may be ready at the same time, and then either may be taken.
\<close>

datatype run_phase = Starting | Selecting | Returned

inductive run_step ::
  "'w poller_env \<Rightarrow> ('w \<Rightarrow> 'w \<Rightarrow> bool) \<Rightarrow> run_phase \<times> 'w poller \<Rightarrow> run_phase \<times> 'w poller \<Rightarrow> bool"
  for env idle where
  start_cancelled:
    "run_state (ctx_err env) s = (Some e, s') \<Longrightarrow> run_step env idle (Starting, s) (Returned, s')"
| start_sweep:
    "run_state (ctx_err env) s = (None, s1) \<Longrightarrow> run_state (sweep env) s1 = (u, s') \<Longrightarrow>
     run_step env idle (Starting, s) (Selecting, s')"
| waiting:
    "phase \<noteq> Returned \<Longrightarrow> idle (World s) w \<Longrightarrow> run_step env idle (phase, s) (phase, s\<lparr> World := w \<rparr>)"
| tick:
    "EnvTryTick env (World s) = (True, w) \<Longrightarrow>
     run_state (tick_step env) (s\<lparr> World := w \<rparr>) = (u, s') \<Longrightarrow>
     run_step env idle (Selecting, s) (Selecting, s')"
| cancelled:
    "run_state (ctx_err env) s = (Some e, s') \<Longrightarrow> run_step env idle (Selecting, s) (Returned, s')"

inductive run_reachable ::
  "'w poller_env \<Rightarrow> ('w \<Rightarrow> 'w \<Rightarrow> bool) \<Rightarrow> 'w \<Rightarrow> run_phase \<times> 'w poller \<Rightarrow> bool"
  for env idle w0 where
  run_init: "run_reachable env idle w0 (Starting, new_poller w0)"
| run_next: "run_reachable env idle w0 x \<Longrightarrow> run_step env idle x y \<Longrightarrow> run_reachable env idle w0 y"

inductive_cases run_step_startingE: "run_step env idle (Starting, s) y"
inductive_cases run_step_selectingE: "run_step env idle (Selecting, s) y"
inductive_cases run_step_returnedE: "run_step env idle (Returned, s) y"

end
