(* ===== verification/Poller_Collect.thy ===== *)
theory Poller_Collect
  imports Poller "HOL-Library.Multiset"
begin

text \<open>
  What collecting one device does: which queries it makes, what it counts, what the new
  snapshot says, and that it stops at once when the context is done. The specification is over
  the answers of the runner, as the trace records them; the three nested collection functions
  of the poller are shown to implement one chain of queries.
\<close>

subsection \<open>Weakest preconditions of the poller's operations\<close>

lemma wp_emit [wp_simps]: "wp (emit ev) Q s = Q () (s\<lparr> Trace := Trace s @ [ev] \<rparr>)"
  by (simp add: wp_def emit_def)

lemma wp_in_world [wp_simps]:
  "wp (in_world f) Q s = (case f (World s) of (r, w) \<Rightarrow> Q r (s\<lparr> World := w \<rparr>))"
  by (simp add: wp_def in_world_def split: prod.splits)

lemma wp_Let [wp_simps]: "wp (Let x f) Q s = wp (f x) Q s"
  by (simp add: Let_def)

lemmas poller_ops = run_discovery_def run_query_def clock_now_def ctx_err_def log_event_def count_error_def
  count_pcie_eye_error_def record_failure_def record_pcie_eye_failure_def record_success_def
  record_combined_fallback_def

subsection \<open>Reading the trace\<close>

fun dead :: "event \<Rightarrow> bool" where
  "dead (CtxSeen e) \<longleftrightarrow> e \<noteq> None"
| "dead _ \<longleftrightarrow> False"

fun ev_answers :: "event \<Rightarrow> (query \<times> (go_error + bytes)) list" where
  "ev_answers (Queried q d a) = [(q, a)]"
| "ev_answers _ = []"

fun ev_errors :: "event \<Rightarrow> bytes list list" where
  "ev_errors (IncErrors labels) = [labels]"
| "ev_errors _ = []"

fun ev_pcie_errors :: "event \<Rightarrow> bytes list list" where
  "ev_pcie_errors (IncPCIeEyeErrors labels) = [labels]"
| "ev_pcie_errors _ = []"

fun ev_readings :: "event \<Rightarrow> gotime list" where
  "ev_readings (ClockRead now) = [now]"
| "ev_readings _ = []"

definition answers :: "event list \<Rightarrow> (query \<times> (go_error + bytes)) list" where
  "answers evs = concat (map ev_answers evs)"

definition errors_counted :: "event list \<Rightarrow> bytes list list" where
  "errors_counted evs = concat (map ev_errors evs)"

definition pcie_errors_counted :: "event list \<Rightarrow> bytes list list" where
  "pcie_errors_counted evs = concat (map ev_pcie_errors evs)"

definition readings :: "event list \<Rightarrow> gotime list" where
  "readings evs = concat (map ev_readings evs)"

lemma log_append [simp]:
  "answers (a @ b) = answers a @ answers b" "answers [] = []" "answers (e # b) = ev_answers e @ answers b"
  "errors_counted (a @ b) = errors_counted a @ errors_counted b" "errors_counted [] = []"
  "errors_counted (e # b) = ev_errors e @ errors_counted b"
  "pcie_errors_counted (a @ b) = pcie_errors_counted a @ pcie_errors_counted b" "pcie_errors_counted [] = []"
  "pcie_errors_counted (e # b) = ev_pcie_errors e @ pcie_errors_counted b"
  "readings (a @ b) = readings a @ readings b" "readings [] = []" "readings (e # b) = ev_readings e @ readings b"
  by (simp_all add: answers_def errors_counted_def pcie_errors_counted_def readings_def)

text \<open>The events between two states, and that nothing else of the poller changed.\<close>

definition emitted :: "'w poller \<Rightarrow> 'w poller \<Rightarrow> event list" where
  "emitted s s' = drop (length (Trace s)) (Trace s')"

definition framed :: "'w poller \<Rightarrow> 'w poller \<Rightarrow> bool" where
  "framed s s' \<longleftrightarrow> Trace s' = Trace s @ emitted s s' \<and> Store s' = Store s \<and>
     PCIeEyeStore s' = PCIeEyeStore s \<and> Ready s' = Ready s"

lemma framed_trans:
  assumes "framed s s1" and "framed s1 s'"
  shows "framed s s' \<and> emitted s s' = emitted s s1 @ emitted s1 s'"
proof -
  have eq: "Trace s' = Trace s @ emitted s s1 @ emitted s1 s'" using assms by (simp add: framed_def)
  have "emitted s s' = emitted s s1 @ emitted s1 s'" unfolding emitted_def [of s s'] eq by simp
  then show ?thesis using assms eq by (simp add: framed_def)
qed

lemma reason_string_ex [simp]:
  "\<exists>r. ''exit_error'' = reason_string r" "\<exists>r. ''invalid_json'' = reason_string r"
  by (rule exI [of _ ReasonExitError], simp) (rule exI [of _ ReasonInvalidJSON], simp)

text \<open>The events of a collection: queries of its device, its counters, logs and readings of the context.\<close>

fun device_event :: "target \<Rightarrow> event \<Rightarrow> bool" where
  "device_event t (Queried q d a) \<longleftrightarrow> d = Device t \<and> q \<noteq> QueryRunPCIeEye"
| "device_event t (CtxSeen e) \<longleftrightarrow> True"
| "device_event t (ClockRead now) \<longleftrightarrow> True"
| "device_event t (IncErrors labels) \<longleftrightarrow> (\<exists>reason. labels = [Device t, Port t, PCIAddr t, reason_string reason])"
| "device_event t (Logged level msg) \<longleftrightarrow> True"
| "device_event t _ \<longleftrightarrow> False"

fun pcie_event :: "target \<Rightarrow> event \<Rightarrow> bool" where
  "pcie_event t (Queried q d a) \<longleftrightarrow> d = Device t \<and> q = QueryRunPCIeEye"
| "pcie_event t (CtxSeen e) \<longleftrightarrow> True"
| "pcie_event t (ClockRead now) \<longleftrightarrow> True"
| "pcie_event t (IncPCIeEyeErrors labels) \<longleftrightarrow> (\<exists>reason. labels = [Device t, PCIAddr t, reason_string reason])"
| "pcie_event t (Logged level msg) \<longleftrightarrow> True"
| "pcie_event t _ \<longleftrightarrow> False"

subsection \<open>The specification\<close>

text \<open>What an answer means: a reason, or the data of which only what was asked for counts.\<close>

fun restrict_data :: "query \<Rightarrow> port_data \<Rightarrow> port_data" where
  "restrict_data QueryRun p = p\<lparr> PortEye := no_eye \<rparr>"
| "restrict_data QueryRunBaseline p =
     p\<lparr> PortFECHistogram := [], PortSerDesTX := no_serdes, PortEye := no_eye \<rparr>"
| "restrict_data _ p = p"

fun outcome :: "query \<times> (go_error + bytes) \<Rightarrow> error_reason + port_data" where
  "outcome (q, Inl err) = Inl (reason_from_error err)"
| "outcome (q, Inr raw) = (case decode raw of Inl err \<Rightarrow> Inl ReasonInvalidJSON | Inr p \<Rightarrow> Inr (restrict_data q p))"

fun pcie_outcome :: "go_error + bytes \<Rightarrow> error_reason + pcie_eye" where
  "pcie_outcome (Inl err) = Inl (reason_from_error err)"
| "pcie_outcome (Inr raw) = (case decode_pcie_eye raw of Inl err \<Rightarrow> Inl ReasonInvalidJSON | Inr p \<Rightarrow> Inr p)"

definition failures :: "(query \<times> (go_error + bytes)) list \<Rightarrow> error_reason list" where
  "failures as = concat (map (\<lambda>a. case outcome a of Inl reason \<Rightarrow> [reason] | Inr p \<Rightarrow> []) as)"

lemma failures_append [simp]: "failures (as @ bs) = failures as @ failures bs" "failures [] = []"
  "failures (a # as) = (case outcome a of Inl reason \<Rightarrow> [reason] | Inr p \<Rightarrow> []) @ failures as"
  by (simp_all add: failures_def split: sum.splits)

text \<open>A chain of queries is tried in order as long as mlxlink exits with an error.\<close>

definition exited :: "go_error + bytes \<Rightarrow> bool" where
  "exited a \<longleftrightarrow> (case a of Inl err \<Rightarrow> reason_from_error err = ReasonExitError | Inr raw \<Rightarrow> False)"

fun follows_chain :: "query list \<Rightarrow> (query \<times> (go_error + bytes)) list \<Rightarrow> bool" where
  "follows_chain (q # qs) ((q', a) # as) \<longleftrightarrow>
     q' = q \<and> (if exited a \<and> qs \<noteq> [] then follows_chain qs as else as = [])"
| "follows_chain _ _ \<longleftrightarrow> False"

text \<open>The beginning of a chain, as far as the context lets it come.\<close>

fun begins_chain :: "query list \<Rightarrow> (query \<times> (go_error + bytes)) list \<Rightarrow> bool" where
  "begins_chain qs [] \<longleftrightarrow> True"
| "begins_chain (q # qs) ((q', a) # as) \<longleftrightarrow> q' = q \<and> (as = [] \<or> exited a \<and> begins_chain qs as)"
| "begins_chain [] as \<longleftrightarrow> False"

lemma follows_begins: "follows_chain qs as \<Longrightarrow> begins_chain qs as"
  by (induction qs as rule: follows_chain.induct) (auto split: if_splits)

lemma begins_chain_length: "begins_chain qs as \<Longrightarrow> length as \<le> length qs"
  by (induction qs as rule: begins_chain.induct) auto

lemma begins_chain_single: "begins_chain (q # qs) [(q, a)]"
  by simp

definition device_chain :: "bool \<Rightarrow> query list" where
  "device_chain show_eye =
     (if show_eye then [QueryRunWithEye] else []) @ [QueryRun, QueryRunBaseline]"

text \<open>
  The snapshot after an outcome, begun at one reading of the clock and answered at another:
  failures keep the data and its time.
\<close>

definition updated :: "gotime \<Rightarrow> gotime \<Rightarrow> 'd snapshot \<Rightarrow> error_reason + 'd \<Rightarrow> 'd snapshot" where
  "updated start now old out =
     (case out of
        Inl reason \<Rightarrow> old\<lparr> LastError := reason, LastDuration := time_sub now start \<rparr>
      | Inr data \<Rightarrow> old\<lparr> SnapData := data, LastSuccess := now, LastError := NoReason,
          LastDuration := time_sub now start \<rparr>)"

definition error_labels :: "target \<Rightarrow> error_reason \<Rightarrow> bytes list" where
  "error_labels t reason = [Device t, Port t, PCIAddr t, reason_string reason]"

text \<open>Cut short by the context: the last event is the reading that said so, and the first one to do so.\<close>

definition cut_short :: "event list \<Rightarrow> bool" where
  "cut_short evs \<longleftrightarrow> evs \<noteq> [] \<and> dead (last evs) \<and> list_all (\<lambda>ev. \<not> dead ev) (butlast evs)"

text \<open>
  A collection along a chain of queries that begins with failures already owed to the counter
  (those of the queries that fell back to it).
\<close>

definition collected ::
  "query list \<Rightarrow> error_reason list \<Rightarrow> target \<Rightarrow> gotime \<Rightarrow> device_snapshot \<Rightarrow> 'w poller \<Rightarrow>
   device_snapshot option \<Rightarrow> 'w poller \<Rightarrow> bool" where
  "collected chain owed t start old s r s' \<longleftrightarrow>
     framed s s' \<and> list_all (device_event t) (emitted s s') \<and>
     (case r of
        None \<Rightarrow> cut_short (emitted s s') \<and> begins_chain chain (answers (emitted s s')) \<and>
          mset (errors_counted (emitted s s')) \<subseteq>#
            mset (map (error_labels t) (owed @ failures (answers (emitted s s'))))
      | Some new \<Rightarrow>
          list_all (\<lambda>ev. \<not> dead ev) (emitted s s') \<and> follows_chain chain (answers (emitted s s')) \<and>
          mset (errors_counted (emitted s s')) =
            mset (map (error_labels t) (owed @ failures (answers (emitted s s')))) \<and>
          readings (emitted s s') \<noteq> [] \<and>
          new = updated start (last (readings (emitted s s'))) old (outcome (last (answers (emitted s s')))))"

lemma cut_short_append: "list_all (\<lambda>ev. \<not> dead ev) a \<Longrightarrow> cut_short b \<Longrightarrow> cut_short (a @ b)"
  by (auto simp: cut_short_def butlast_append)

lemma cut_short_single [simp]: "cut_short (a @ [ev]) \<longleftrightarrow> dead ev \<and> list_all (\<lambda>ev. \<not> dead ev) a"
  by (auto simp: cut_short_def)

subsection \<open>The collection functions implement it\<close>

lemmas collected_unfold = collected_def framed_def emitted_def exited_def updated_def error_labels_def

lemma baseline_collected:
  assumes "SnapTarget old = t"
  shows "satisfies (collect_baseline env t old start) (collected [QueryRunBaseline] [ReasonExitError] t start old)"
  unfolding collect_baseline_def
  using assms
  by (intro satisfiesI)
    (auto simp: poller_ops wp_simps collected_unfold cut_short_def split: prod.splits option.splits sum.splits if_splits)

lemma updated_duration [simp]: "updated start now (old\<lparr> LastDuration := d \<rparr>) out = updated start now old out"
  by (simp add: updated_def split: sum.splits)

text \<open>A query that exits with an error, and then the rest of the chain.\<close>

lemma collected_after:
  assumes "collected qs (owed @ [ReasonExitError]) t start old s1 r s'" and "qs \<noteq> []"
    and "framed s s1" and "list_all (\<lambda>ev. device_event t ev \<and> \<not> dead ev) (emitted s s1)"
    and "answers (emitted s s1) = [(q, a)]" and "exited a" and "errors_counted (emitted s s1) = []"
  shows "collected (q # qs) owed t start old s r s'"
proof -
  let ?a = "emitted s s1" and ?b = "emitted s1 s'"
  have trace: "framed s s'" "emitted s s' = ?a @ ?b"
    using framed_trans assms(1,3) by (auto simp: collected_def)
  have ev: "list_all (device_event t) ?a" "list_all (\<lambda>ev. \<not> dead ev) ?a"
    using assms(4) by (simp_all add: list_all_iff)
  have out: "failures [(q, a)] = [ReasonExitError]"
    using assms(6) by (cases a) (simp_all add: exited_def)
  show ?thesis
  proof (cases r)
    case None
    then have "cut_short (?a @ ?b)" "begins_chain qs (answers ?b)" "list_all (device_event t) ?b"
      "mset (errors_counted ?b) \<subseteq># mset (map (error_labels t) ((owed @ [ReasonExitError]) @ failures (answers ?b)))"
      using assms(1) ev cut_short_append by (auto simp: collected_def)
    then show ?thesis
      using None trace ev assms(5-7) out by (simp add: collected_def ac_simps)
  next
    case (Some new)
    then have chain: "follows_chain qs (answers ?b)" and live: "answers ?b \<noteq> []"
      using assms(1) by (auto simp: collected_def elim: follows_chain.elims)
    from Some chain live out show ?thesis
      using assms(1,2,5-7) trace ev by (auto simp: collected_def)
  qed
qed

text \<open>What a caller does once the rest of the chain has answered.\<close>

lemma collected_then:
  assumes "collected qs owed t start old s (Some fb) s1" and "framed s1 s'"
    and "list_all (\<lambda>ev. device_event t ev \<and> \<not> dead ev) (emitted s1 s')"
    and "answers (emitted s1 s') = []" and "readings (emitted s1 s') = []"
    and "errors_counted (emitted s1 s') = map (error_labels t) late"
  shows "collected qs (owed @ late) t start old s (Some fb) s'"
  using assms framed_trans [OF _ assms(2), of s]
  by (auto simp: collected_def list_all_iff)

lemma collected_then_cut:
  assumes "collected qs owed t start old s (Some fb) s1" and "framed s1 s'"
    and "list_all (device_event t) (emitted s1 s')" and "cut_short (emitted s1 s')"
    and "answers (emitted s1 s') = []" and "errors_counted (emitted s1 s') = []"
  shows "collected qs (owed @ late) t start old s None s'"
proof -
  have "cut_short (emitted s s1 @ emitted s1 s')" "begins_chain qs (answers (emitted s s1))"
    using assms(1,4) cut_short_append follows_begins by (auto simp: collected_def)
  then show ?thesis
    using assms framed_trans [OF _ assms(2), of s] by (auto simp: collected_def)
qed

lemma collected_none:
  "collected qs owed t start old s None s' \<Longrightarrow> collected qs (owed @ late) t start old s None s'"
proof -
  let ?f = "image_mset (error_labels t)" and ?n = "mset (failures (answers (emitted s s')))"
  have "?f (mset owed) + ?f ?n \<subseteq># ?f (mset owed) + ?f (mset late) + ?f ?n" by simp
  then show "collected qs owed t start old s None s' \<Longrightarrow> collected qs (owed @ late) t start old s None s'"
    unfolding collected_def by (auto elim: subset_mset.order_trans)
qed

lemma collected_duration [simp]:
  "collected qs owed t start (old\<lparr> LastDuration := d \<rparr>) = collected qs owed t start old"
  by (intro ext) (simp add: collected_def split: option.split)

text \<open>One query of the chain, as all the collection functions begin.\<close>

definition exit_seen :: "target \<Rightarrow> query \<Rightarrow> 'w poller \<Rightarrow> 'w poller \<Rightarrow> bool" where
  "exit_seen t q s s1 \<longleftrightarrow> framed s s1 \<and>
     list_all (\<lambda>ev. device_event t ev \<and> \<not> dead ev) (emitted s s1) \<and>
     (\<exists>a. answers (emitted s s1) = [(q, a)] \<and> exited a) \<and> errors_counted (emitted s s1) = []"

lemma collected_rest:
  assumes "satisfies m (collected qs [ReasonExitError] t start old)" and "qs \<noteq> []" and "exit_seen t q s s1"
  shows "wp m (collected (q # qs) [] t start old s) s1"
  using assms collected_after [of qs "[]"]
  by (intro satisfies_wp [OF assms(1)]) (auto simp: exit_seen_def)

lemma combined_collected:
  assumes "SnapTarget old = t"
  shows "satisfies (collect_combined env t old start) (collected [QueryRun, QueryRunBaseline] [] t start old)"
proof (rule satisfiesI)
  fix s
  have tail: "wp (collect_baseline env t (old\<lparr> LastDuration := d \<rparr>) start)
      (collected [QueryRun, QueryRunBaseline] [] t start old s) s1" if "exit_seen t QueryRun s s1" for s1 d
    using collected_rest [OF _ _ that] baseline_collected [of "old\<lparr> LastDuration := d \<rparr>" t env start] assms
    by simp
  show "wp (collect_combined env t old start) (collected [QueryRun, QueryRunBaseline] [] t start old s) s"
    unfolding collect_combined_def
    by (auto intro!: tail
        simp: assms poller_ops wp_simps collected_unfold cut_short_def exit_seen_def
        split: prod.splits option.splits sum.splits if_splits)
qed

text \<open>What the Eye query's fallback does with the answer of the rest of the chain.\<close>

definition eye_rest :: "'w poller_env \<Rightarrow> target \<Rightarrow> device_snapshot option \<Rightarrow> ('w poller, device_snapshot option) state" where
  "eye_rest env t fallback = (case fallback of
      None \<Rightarrow> State_Monad.return None
    | Some fb \<Rightarrow> do {
        e2 \<leftarrow> ctx_err env;
        if e2 \<noteq> None then State_Monad.return None
        else do {
          count_error t ReasonExitError;
          log_event LogDebug ''mlxlink Eye query required combined fallback'';
          State_Monad.return (Some fb) } })"

lemma eye_rest_collected:
  assumes "collected qs [] t start old s r s1"
  shows "wp (eye_rest env t r) (collected qs [ReasonExitError] t start old s) s1"
proof (cases r)
  case None
  then show ?thesis using assms collected_none [of qs "[]", where late = "[ReasonExitError]"]
    by (auto simp: eye_rest_def wp_simps)
next
  case (Some fb)
  show ?thesis
    using collected_then [OF assms [unfolded Some], of _ "[ReasonExitError]"] collected_then_cut [OF assms [unfolded Some], of _ "[ReasonExitError]"]
    by (auto simp: Some eye_rest_def poller_ops wp_simps framed_def emitted_def cut_short_def error_labels_def
        split: prod.splits)
qed

lemma with_eye_collected:
  assumes "SnapTarget old = t"
  shows "satisfies (collect_with_eye env t old start)
           (collected [QueryRunWithEye, QueryRun, QueryRunBaseline] [] t start old)"
proof (rule satisfiesI)
  fix s
  let ?chain = "[QueryRunWithEye, QueryRun, QueryRunBaseline]"
  have tail: "wp (collect_combined env t (old\<lparr> LastDuration := d \<rparr>) start)
      (\<lambda>r. wp (eye_rest env t r) (collected ?chain [] t start old s)) s1"
    if "exit_seen t QueryRunWithEye s s1" for s1 d
  proof -
    have "satisfies (State_Monad.bind (collect_combined env t (old\<lparr> LastDuration := d \<rparr>) start) (eye_rest env t))
        (collected [QueryRun, QueryRunBaseline] [ReasonExitError] t start old)"
      using combined_collected [of "old\<lparr> LastDuration := d \<rparr>" t env start] assms
      by (auto intro!: satisfiesI simp: wp_bind elim!: satisfies_wp intro: eye_rest_collected)
    from collected_rest [OF this _ that] show ?thesis by (simp add: wp_bind)
  qed
  show "wp (collect_with_eye env t old start) (collected ?chain [] t start old s) s"
    unfolding collect_with_eye_def eye_rest_def [symmetric]
    by (auto intro!: tail
        simp: assms poller_ops wp_simps collected_unfold cut_short_def exit_seen_def
        split: prod.splits option.splits sum.splits if_splits)
qed

subsection \<open>Collecting a device, and its PCIe Eye\<close>

text \<open>The previous snapshot, for the target as it is now.\<close>

definition carried :: "'d \<Rightarrow> 'd snapshot_set option \<Rightarrow> target \<Rightarrow> 'd snapshot" where
  "carried zero_data previous t = (lookup_or_zero zero_data previous (Device t))\<lparr> SnapTarget := t \<rparr>"

text \<open>
  The events of the collection of one device, and its result: None when the context cut it
  short, and otherwise the snapshot that the last answer makes of the one carried over.
\<close>

definition device_trace :: "bool \<Rightarrow> target \<Rightarrow> device_snapshot \<Rightarrow> event list \<Rightarrow> device_snapshot option \<Rightarrow> bool" where
  "device_trace show_eye t old evs r \<longleftrightarrow>
     list_all (device_event t) evs \<and>
     (case r of
        None \<Rightarrow> cut_short evs \<and> begins_chain (device_chain show_eye) (answers evs) \<and>
          mset (errors_counted evs) \<subseteq># mset (map (error_labels t) (failures (answers evs)))
      | Some new \<Rightarrow>
          list_all (\<lambda>ev. \<not> dead ev) evs \<and> follows_chain (device_chain show_eye) (answers evs) \<and>
          mset (errors_counted evs) = mset (map (error_labels t) (failures (answers evs))) \<and>
          new = updated (hd (readings evs)) (last (readings evs)) old (outcome (last (answers evs))))"

definition pcie_trace :: "target \<Rightarrow> pcie_eye_snapshot \<Rightarrow> event list \<Rightarrow> pcie_eye_snapshot option \<Rightarrow> bool" where
  "pcie_trace t old evs r \<longleftrightarrow>
     list_all (pcie_event t) evs \<and>
     (case r of
        None \<Rightarrow> cut_short evs \<and> (\<exists>a. answers evs = [(QueryRunPCIeEye, a)]) \<and> pcie_errors_counted evs = []
      | Some new \<Rightarrow>
          list_all (\<lambda>ev. \<not> dead ev) evs \<and>
          (\<exists>a. answers evs = [(QueryRunPCIeEye, a)] \<and>
             pcie_errors_counted evs =
               (case pcie_outcome a of
                  Inl reason \<Rightarrow> [[Device t, PCIAddr t, reason_string reason]]
                | Inr data \<Rightarrow> []) \<and>
             new = updated (hd (readings evs)) (last (readings evs)) old (pcie_outcome a)))"

definition device_collected ::
  "bool \<Rightarrow> target \<Rightarrow> port_data snapshot_set option \<Rightarrow> 'w poller \<Rightarrow> device_snapshot option \<Rightarrow> 'w poller \<Rightarrow> bool" where
  "device_collected show_eye t previous s r s' \<longleftrightarrow>
     framed s s' \<and> device_trace show_eye t (carried no_port_data previous t) (emitted s s') r"

definition pcie_collected ::
  "target \<Rightarrow> pcie_eye snapshot_set option \<Rightarrow> 'w poller \<Rightarrow> pcie_eye_snapshot option \<Rightarrow> 'w poller \<Rightarrow> bool" where
  "pcie_collected t previous s r s' \<longleftrightarrow>
     framed s s' \<and> pcie_trace t (carried no_pcie_eye previous t) (emitted s s') r"

lemma wp_clock [wp_simps]:
  "wp (clock_now env) Q s =
     (case EnvNow env (World s) of (now, w) \<Rightarrow> Q now (s\<lparr> World := w, Trace := Trace s @ [ClockRead now] \<rparr>))"
  by (simp add: clock_now_def wp_simps split: prod.split)

lemma carried_target [simp]: "SnapTarget (carried zero_data previous t) = t"
  by (simp add: carried_def)

lemma device_collected_start:
  assumes "collected (device_chain show_eye) [] t now (carried no_port_data previous t)
      (s\<lparr> World := w, Trace := Trace s @ [ClockRead now] \<rparr>) r s'"
  shows "device_collected show_eye t previous s r s'"
proof -
  let ?s1 = "s\<lparr> World := w, Trace := Trace s @ [ClockRead now] \<rparr>"
  have first: "framed s ?s1" "emitted s ?s1 = [ClockRead now]" by (simp_all add: framed_def emitted_def)
  have "framed s s'" "emitted s s' = ClockRead now # emitted ?s1 s'"
    using framed_trans [OF first(1)] assms by (auto simp: collected_def first(2))
  then show ?thesis
    using assms cut_short_append [of "[ClockRead now]"]
    by (auto simp: collected_def device_collected_def device_trace_def split: option.splits)
qed

lemma collect_satisfies:
  fixes env :: "'w poller_env"
  shows "satisfies (collect env t previous) (device_collected (ShowEye env) t previous)"
proof (rule satisfiesI)
  fix s :: "'w poller"
  have chain: "satisfies (if ShowEye env then collect_with_eye env t (carried no_port_data previous t) now
        else collect_combined env t (carried no_port_data previous t) now)
      (collected (device_chain (ShowEye env)) [] t now (carried no_port_data previous t))" for now
    using with_eye_collected [of "carried no_port_data previous t" t env now]
      combined_collected [of "carried no_port_data previous t" t env now]
    by (simp add: device_chain_def)
  obtain now w where now: "EnvNow env (World s) = (now, w)" by fastforce
  show "wp (collect env t previous) (device_collected (ShowEye env) t previous s) s"
    unfolding collect_def carried_def [symmetric] wp_Let wp_bind wp_clock now prod.case
    by (rule satisfies_wp [OF chain]) (rule device_collected_start)
qed

lemma collect_pcie_eye_satisfies: "satisfies (collect_pcie_eye env t previous) (pcie_collected t previous)"
  unfolding collect_pcie_eye_def carried_def [symmetric]
  by (intro satisfiesI)
    (auto simp: poller_ops wp_simps pcie_collected_def pcie_trace_def framed_def emitted_def updated_def cut_short_def
      split: prod.splits option.splits sum.splits if_splits)

subsection \<open>Properties\<close>

text \<open>
  C4: Collecting a device makes at most three queries, each of the chain Eye, full, baseline
  only after the one before it exited with an error, and counts every failed answer once under
  its reason; the new snapshot is the outcome of the last answer applied to the previous
  snapshot of the device, a failure keeping its data and the time of its last success. When the
  context is seen done the collection ends there without a snapshot, having counted no failure
  twice.
\<close>

theorem collect_correct: "satisfies (collect env t previous) (device_collected (ShowEye env) t previous)"
  by (rule collect_satisfies)

text \<open>
  C25: Collecting a PCIe Eye makes one query, counts a failure on the PCIe counter only, and
  updates the previous PCIe snapshot of the device by its outcome.
\<close>

theorem collect_pcie_eye_correct: "satisfies (collect_pcie_eye env t previous) (pcie_collected t previous)"
  by (rule collect_pcie_eye_satisfies)

end
