(* ===== verification/Poller_Sweep.thy ===== *)
theory Poller_Sweep
  imports Poller_Collect
begin

text \<open>
  What a sweep does. The traces a sweep may leave are described without the state, as a
  grammar over the traces of single collections; the poller's sweep is shown to refine it, its
  stores and its readiness being functions of the trace. Everything else, that no device known
  before disappears while it is still there, that nothing is counted or published once the
  context is done, that the PCIe Eye never touches the network snapshots, is then a property
  of the grammar.
\<close>

subsection \<open>The state as a function of the trace\<close>

fun store_after :: "port_data snapshot_set option \<Rightarrow> event \<Rightarrow> port_data snapshot_set option" where
  "store_after m (PublishedDevices m') = Some m'"
| "store_after m _ = m"

fun pcie_store_after :: "pcie_eye snapshot_set option \<Rightarrow> event \<Rightarrow> pcie_eye snapshot_set option" where
  "pcie_store_after m (PublishedPCIeEye m') = Some m'"
| "pcie_store_after m _ = m"

definition advanced :: "event list \<Rightarrow> 'w poller \<Rightarrow> 'w poller \<Rightarrow> bool" where
  "advanced evs s s' \<longleftrightarrow> Trace s' = Trace s @ evs \<and> Store s' = foldl store_after (Store s) evs \<and>
     PCIeEyeStore s' = foldl pcie_store_after (PCIeEyeStore s) evs \<and>
     Ready s' = (Ready s \<or> ReadySet \<in> set evs)"

lemma advanced_trans: "advanced a s s1 \<Longrightarrow> advanced b s1 s' \<Longrightarrow> advanced (a @ b) s s'"
  by (auto simp: advanced_def)

lemma advanced_world: "advanced [] s (s\<lparr> World := w \<rparr>)"
  by (simp add: advanced_def)

fun publishes :: "event \<Rightarrow> bool" where
  "publishes (PublishedDevices m) \<longleftrightarrow> True"
| "publishes (PublishedPCIeEye m) \<longleftrightarrow> True"
| "publishes ReadySet \<longleftrightarrow> True"
| "publishes _ \<longleftrightarrow> False"

lemma no_publication:
  "list_all (\<lambda>ev. \<not> publishes ev) evs \<Longrightarrow>
   foldl store_after m evs = m \<and> foldl pcie_store_after p evs = p \<and> ReadySet \<notin> set evs"
proof (induction evs)
  case (Cons ev evs)
  then show ?case by (cases ev) auto
qed simp

lemma framed_advanced:
  "framed s s' \<Longrightarrow> list_all (\<lambda>ev. \<not> publishes ev) (emitted s s') \<Longrightarrow> advanced (emitted s s') s s'"
  using no_publication [of "emitted s s'" "Store s" "PCIeEyeStore s"]
  by (simp add: framed_def advanced_def)

lemma device_event_quiet: "device_event t ev \<Longrightarrow> \<not> publishes ev"
  by (cases ev) simp_all

lemma pcie_event_quiet: "pcie_event t ev \<Longrightarrow> \<not> publishes ev"
  by (cases ev) simp_all

subsection \<open>The grammar of the sweeps\<close>

text \<open>
  A walk over targets: the trace of each collection, and after it what making the device
  visible leaves; a collection that was cut short ends the walk.
\<close>

fun swept ::
  "(target \<Rightarrow> event list \<Rightarrow> 'd snapshot option \<Rightarrow> bool) \<Rightarrow> ('d snapshot_set \<Rightarrow> 'd snapshot \<Rightarrow> event list) \<Rightarrow>
   target list \<Rightarrow> 'd snapshot_set \<Rightarrow> event list \<Rightarrow> bool \<Rightarrow> bool" where
  "swept C P [] working evs completed \<longleftrightarrow> evs = [] \<and> completed"
| "swept C P (t # ts) working evs completed \<longleftrightarrow>
     (C t evs None \<and> \<not> completed) \<or>
     (\<exists>a new b. evs = a @ P (working(Device t \<mapsto> new)) new @ b \<and> C t a (Some new) \<and>
        swept C P ts (working(Device t \<mapsto> new)) b completed)"

definition walk ::
  "(target \<Rightarrow> event list \<Rightarrow> 'd snapshot option \<Rightarrow> bool) \<Rightarrow> ('d snapshot_set \<Rightarrow> 'd snapshot \<Rightarrow> event list) \<Rightarrow>
   ('d snapshot_set \<Rightarrow> event) \<Rightarrow> 'd snapshot_set option \<Rightarrow> target list \<Rightarrow> event list \<Rightarrow> bool \<Rightarrow> bool" where
  "walk C P publication previous targets evs completed \<longleftrightarrow>
     (if targets = [] then evs = [publication Map.empty] \<and> completed
      else swept C P targets (\<lambda>d. if d \<in> set (map Device targets) then snapshot_lookup previous d else None)
             evs completed)"

definition device_publication :: "port_data snapshot_set \<Rightarrow> device_snapshot \<Rightarrow> event list" where
  "device_publication m new = PublishedDevices m # (if LastError new = NoReason then [ReadySet] else [])"

definition pcie_publication :: "pcie_eye snapshot_set \<Rightarrow> pcie_eye_snapshot \<Rightarrow> event list" where
  "pcie_publication m new = [PublishedPCIeEye m]"

definition device_walk where
  "device_walk show_eye previous =
     walk (\<lambda>t. device_trace show_eye t (carried no_port_data previous t)) device_publication PublishedDevices previous"

definition pcie_walk where
  "pcie_walk previous =
     walk (\<lambda>t. pcie_trace t (carried no_pcie_eye previous t)) pcie_publication PublishedPCIeEye previous"

text \<open>A whole sweep: the PCIe Eyes come last, and only after a device walk that was completed.\<close>

definition sweep_trace ::
  "bool \<Rightarrow> bool \<Rightarrow> port_data snapshot_set option \<Rightarrow> pcie_eye snapshot_set option \<Rightarrow> event list \<Rightarrow> bool" where
  "sweep_trace show_eye show_pcie previous previous_pcie evs \<longleftrightarrow>
     (\<exists>found rest. evs = Discovered found # rest \<and>
        (case found of
           Inl err \<Rightarrow>
             (\<exists>e. rest = CtxSeen e #
                (if e = None then [Logged LogWarn ''mlxlink device discovery failed''] else []))
         | Inr targets \<Rightarrow>
             (\<exists>a b completed. rest = a @ b \<and> device_walk show_eye previous targets a completed \<and>
                (if completed \<and> show_pcie then \<exists>ok. pcie_walk previous_pcie targets b ok else b = []))))"

subsection \<open>The sweep refines it\<close>

lemma seed_working_eq:
  "seed_working previous ts working d =
     (if d \<in> set (map Device ts) \<and> snapshot_lookup previous d \<noteq> None then snapshot_lookup previous d
      else working d)"
  by (induction ts arbitrary: working) (auto split: option.splits)

lemma seed_working_walk:
  "seed_working previous ts Map.empty =
     (\<lambda>d. if d \<in> set (map Device ts) then snapshot_lookup previous d else None)"
  by (auto simp: seed_working_eq fun_eq_iff)

lemma swept_step:
  "C t a (Some new) \<Longrightarrow> swept C P ts (working(Device t \<mapsto> new)) b completed \<Longrightarrow>
   swept C P (t # ts) working ((a @ P (working(Device t \<mapsto> new)) new) @ b) completed"
  by (fastforce simp del: fun_upd_apply)

definition leaves :: "(event list \<Rightarrow> 'a \<Rightarrow> bool) \<Rightarrow> 'w poller \<Rightarrow> 'a \<Rightarrow> 'w poller \<Rightarrow> bool" where
  "leaves R s r s' \<longleftrightarrow> (\<exists>evs. advanced evs s s' \<and> R evs r)"

lemma leavesE:
  assumes "leaves R s r s'" obtains evs where "advanced evs s s'" "R evs r"
  using assms by (auto simp: leaves_def)

lemma wp_leaves_bind:
  assumes "advanced a s s1" and "satisfies m (leaves R)" and "\<And>b r. R b r \<Longrightarrow> S (a @ b) r"
  shows "wp m (leaves S s) s1"
  using assms advanced_trans by (intro satisfies_wp [OF assms(2)]) (fastforce simp: leaves_def)

lemma sweep_loop_swept:
  assumes collect: "\<And>t. satisfies (CollectOne ops t previous) (leaves (C t))"
    and publish: "\<And>m new. satisfies (State_Monad.bind (Publish ops m) (\<lambda>u. OnPublish ops new))
          (leaves (\<lambda>evs u. evs = P m new))"
  shows "satisfies (sweep_loop ops previous ts working) (leaves (swept C P ts working))"
proof (induction ts arbitrary: working)
  case Nil
  show ?case by (auto intro!: satisfiesI simp: wp_simps leaves_def advanced_def)
next
  case (Cons t ts)
  show ?case
  proof (rule satisfiesI)
    fix s
    have one: "wp (case r of None \<Rightarrow> State_Monad.return False
        | Some new \<Rightarrow> do {
            let working' = working(Device t \<mapsto> new);
            Publish ops working'; OnPublish ops new; sweep_loop ops previous ts working' })
        (leaves (swept C P (t # ts) working) s) s1" if "advanced a s s1" "C t a r" for a r s1
    proof (cases r)
      case None
      then show ?thesis using that by (auto simp: wp_simps leaves_def)
    next
      case (Some new)
      let ?m = "working(Device t \<mapsto> new)"
      have rest: "wp (sweep_loop ops previous ts ?m) (leaves (swept C P (t # ts) working) s) s2"
        if "leaves (\<lambda>evs u. evs = P ?m new) s1 u s2" for u s2
      proof -
        have "advanced (a @ P ?m new) s s2"
          using that advanced_trans [OF \<open>advanced a s s1\<close>] by (auto simp: leaves_def)
        then show ?thesis
          by (rule wp_leaves_bind [OF _ Cons.IH])
            (rule swept_step [where C = C, OF \<open>C t a r\<close> [unfolded Some]])
      qed
      have "wp (State_Monad.bind (State_Monad.bind (Publish ops ?m) (\<lambda>u. OnPublish ops new))
          (\<lambda>u. sweep_loop ops previous ts ?m)) (leaves (swept C P (t # ts) working) s) s1"
        unfolding wp_bind [of "State_Monad.bind _ _"]
        by (rule satisfies_wp [OF publish]) (rule rest)
      then show ?thesis by (simp add: Some wp_simps Let_def)
    qed
    show "wp (sweep_loop ops previous (t # ts) working) (leaves (swept C P (t # ts) working) s) s"
      unfolding sweep_loop.simps wp_bind
      by (rule satisfies_wp [OF collect [of t]]) (erule leavesE, rule one)
  qed
qed

lemma walk_nonempty:
  "targets \<noteq> [] \<Longrightarrow> walk C P publication previous targets =
     swept C P targets (\<lambda>d. if d \<in> set (map Device targets) then snapshot_lookup previous d else None)"
  by (intro ext) (simp add: walk_def)

lemma sweep_devices_walk:
  fixes ops :: "('w, 'd) sweep_ops"
  assumes collect: "\<And>previous t. satisfies (CollectOne ops t previous) (leaves (C previous t))"
    and publish: "\<And>m new. satisfies (State_Monad.bind (Publish ops m) (\<lambda>u. OnPublish ops new))
          (leaves (\<lambda>evs u. evs = P m new))"
    and clear: "satisfies (Publish ops Map.empty) (leaves (\<lambda>evs u. evs = [publication Map.empty]))"
  shows "satisfies (sweep_devices ops targets)
    (\<lambda>s. leaves (walk (C (LoadStore ops s)) P publication (LoadStore ops s) targets) s)"
proof (rule satisfiesI)
  fix s :: "'w poller"
  show "wp (sweep_devices ops targets) (leaves (walk (C (LoadStore ops s)) P publication (LoadStore ops s) targets) s) s"
  proof (cases "targets = []")
    case True
    then show ?thesis
      by (auto simp: sweep_devices_def wp_simps leaves_def walk_def intro!: satisfies_wp [OF clear])
  next
    case False
    have loop: "satisfies (sweep_loop ops (LoadStore ops s) targets (seed_working (LoadStore ops s) targets Map.empty))
        (leaves (walk (C (LoadStore ops s)) P publication (LoadStore ops s) targets))"
      using sweep_loop_swept [where C = "C (LoadStore ops s)" and P = P, OF collect publish] False
      unfolding seed_working_walk by (simp add: walk_nonempty)
    show ?thesis
      using False by (simp add: sweep_devices_def wp_simps satisfies_wp [OF loop])
  qed
qed

lemma collect_leaves:
  "satisfies (collect env t previous) (leaves (device_trace (ShowEye env) t (carried no_port_data previous t)))"
proof (rule satisfiesI, rule satisfies_wp [OF collect_satisfies])
  fix s r s'
  assume "device_collected (ShowEye env) t previous s r s'"
  moreover from this have "list_all (\<lambda>ev. \<not> publishes ev) (emitted s s')"
    using device_event_quiet by (auto simp: device_collected_def device_trace_def list_all_iff)
  ultimately show "leaves (device_trace (ShowEye env) t (carried no_port_data previous t)) s r s'"
    using framed_advanced by (auto simp: leaves_def device_collected_def)
qed

lemma collect_pcie_eye_leaves:
  "satisfies (collect_pcie_eye env t previous) (leaves (pcie_trace t (carried no_pcie_eye previous t)))"
proof (rule satisfiesI, rule satisfies_wp [OF collect_pcie_eye_satisfies])
  fix s r s'
  assume "pcie_collected t previous s r s'"
  moreover from this have "list_all (\<lambda>ev. \<not> publishes ev) (emitted s s')"
    using pcie_event_quiet by (auto simp: pcie_collected_def pcie_trace_def list_all_iff)
  ultimately show "leaves (pcie_trace t (carried no_pcie_eye previous t)) s r s'"
    using framed_advanced by (auto simp: leaves_def pcie_collected_def)
qed

lemma device_publish_leaves:
  "satisfies (State_Monad.bind (publish_devices m) (\<lambda>u. announce_ready new))
     (leaves (\<lambda>evs u. evs = device_publication m new))"
  "satisfies (publish_devices m) (leaves (\<lambda>evs u. evs = [PublishedDevices m]))"
  by (auto simp: publish_devices_def announce_ready_def device_publication_def wp_simps leaves_def
      advanced_def intro!: satisfiesI)

lemma pcie_publish_leaves:
  "satisfies (publish_pcie_eye m) (leaves (\<lambda>evs u. evs = pcie_publication m new))"
  "satisfies (publish_pcie_eye m) (leaves (\<lambda>evs u. evs = [PublishedPCIeEye m]))"
  by (auto simp: publish_pcie_eye_def pcie_publication_def wp_simps leaves_def advanced_def
      intro!: satisfiesI)

lemma device_sweep_walk:
  "satisfies (sweep_devices (device_ops env) targets)
     (\<lambda>s. leaves (device_walk (ShowEye env) (Store s) targets) s)"
  using sweep_devices_walk [of "device_ops env" "\<lambda>previous t. device_trace (ShowEye env) t (carried no_port_data previous t)"
      device_publication PublishedDevices targets]
  by (simp add: device_ops_def device_walk_def collect_leaves device_publish_leaves)

lemma pcie_sweep_walk:
  "satisfies (sweep_devices (pcie_eye_ops env) targets)
     (\<lambda>s. leaves (pcie_walk (PCIeEyeStore s) targets) s)"
  using sweep_devices_walk [of "pcie_eye_ops env" "\<lambda>previous t. pcie_trace t (carried no_pcie_eye previous t)"
      pcie_publication PublishedPCIeEye targets]
  by (simp add: pcie_eye_ops_def pcie_walk_def collect_pcie_eye_leaves pcie_publish_leaves)

text \<open>Which events a walk may leave.\<close>

lemma swept_all:
  "swept C P ts working evs completed \<Longrightarrow> (\<And>t evs r. C t evs r \<Longrightarrow> list_all X evs) \<Longrightarrow>
   (\<And>m new. list_all X (P m new)) \<Longrightarrow> list_all X evs"
  by (induction C P ts working evs completed rule: swept.induct) (fastforce simp del: fun_upd_apply)+

lemma walk_all:
  "walk C P publication previous targets evs completed \<Longrightarrow> (\<And>t evs r. C t evs r \<Longrightarrow> list_all X evs) \<Longrightarrow>
   (\<And>m new. list_all X (P m new)) \<Longrightarrow> X (publication Map.empty) \<Longrightarrow> list_all X evs"
  by (auto simp: walk_def intro: swept_all split: if_splits)

fun network_event :: "event \<Rightarrow> bool" where
  "network_event (PublishedPCIeEye m) \<longleftrightarrow> False"
| "network_event (IncPCIeEyeErrors labels) \<longleftrightarrow> False"
| "network_event (Queried q d a) \<longleftrightarrow> q \<noteq> QueryRunPCIeEye"
| "network_event (Discovered found) \<longleftrightarrow> False"
| "network_event IncOverlaps \<longleftrightarrow> False"
| "network_event _ \<longleftrightarrow> True"

fun pcie_only_event :: "event \<Rightarrow> bool" where
  "pcie_only_event (PublishedDevices m) \<longleftrightarrow> False"
| "pcie_only_event ReadySet \<longleftrightarrow> False"
| "pcie_only_event (IncErrors labels) \<longleftrightarrow> False"
| "pcie_only_event (Queried q d a) \<longleftrightarrow> q = QueryRunPCIeEye"
| "pcie_only_event (Discovered found) \<longleftrightarrow> False"
| "pcie_only_event IncOverlaps \<longleftrightarrow> False"
| "pcie_only_event _ \<longleftrightarrow> True"

lemma device_walk_network: "device_walk show_eye previous targets evs completed \<Longrightarrow> list_all network_event evs"
proof -
  have "network_event ev" if "device_event t ev" for t ev using that by (cases ev) simp_all
  then show "device_walk show_eye previous targets evs completed \<Longrightarrow> list_all network_event evs"
    unfolding device_walk_def
    by (elim walk_all) (auto simp: device_trace_def device_publication_def list_all_iff)
qed

lemma pcie_walk_only: "pcie_walk previous targets evs completed \<Longrightarrow> list_all pcie_only_event evs"
proof -
  have "pcie_only_event ev" if "pcie_event t ev" for t ev using that by (cases ev) simp_all
  then show "pcie_walk previous targets evs completed \<Longrightarrow> list_all pcie_only_event evs"
    unfolding pcie_walk_def
    by (elim walk_all) (auto simp: pcie_trace_def pcie_publication_def list_all_iff)
qed

lemma network_keeps_pcie: "list_all network_event evs \<Longrightarrow> foldl pcie_store_after p evs = p"
proof (induction evs)
  case (Cons ev evs)
  then show ?case by (cases ev) simp_all
qed simp

lemma pcie_keeps_network:
  "list_all pcie_only_event evs \<Longrightarrow> foldl store_after m evs = m \<and> ReadySet \<notin> set evs \<and> errors_counted evs = []"
proof (induction evs)
  case (Cons ev evs)
  then show ?case by (cases ev) simp_all
qed simp

lemma sweep_trace_network:
  assumes "device_walk show_eye previous targets a completed" and "\<not> (completed \<and> show_pcie)"
  shows "sweep_trace show_eye show_pcie previous previous_pcie (Discovered (Inr targets) # a)"
  unfolding sweep_trace_def using assms
  by (intro exI [of _ "Inr targets"] exI [of _ a]) auto

lemma sweep_trace_both:
  assumes "device_walk show_eye previous targets a True" and "pcie_walk previous_pcie targets b ok"
  shows "sweep_trace show_eye True previous previous_pcie (Discovered (Inr targets) # a @ b)"
  unfolding sweep_trace_def using assms
  by (intro exI [of _ "Inr targets"] exI [of _ "a @ b"]) auto

definition sweep_refined :: "'w poller_env \<Rightarrow> 'w poller \<Rightarrow> unit \<Rightarrow> 'w poller \<Rightarrow> bool" where
  "sweep_refined env s =
     leaves (\<lambda>evs u. sweep_trace (ShowEye env) (ShowPCIeEye env) (Store s) (PCIeEyeStore s) evs) s"

lemma sweep_leaves:
  fixes env :: "'w poller_env"
  shows "satisfies (sweep env) (sweep_refined env)"
proof (rule satisfiesI)
  fix s :: "'w poller"
  obtain found w where d: "EnvDiscover env (World s) = (found, w)" by fastforce
  let ?s1 = "s\<lparr> World := w, Trace := Trace s @ [Discovered found] \<rparr>"
  have start: "advanced [Discovered found] s ?s1" by (simp add: advanced_def)
  show "wp (sweep env) (sweep_refined env s) s"
  proof (cases found)
    case (Inl err)
    then show ?thesis
      by (auto simp: sweep_def poller_ops wp_simps d sweep_refined_def leaves_def advanced_def sweep_trace_def
          split: prod.split)
  next
    case (Inr targets)
    let ?rest = "\<lambda>completed. if \<not> completed then State_Monad.return ()
        else if ShowPCIeEye env then do { ok \<leftarrow> sweep_devices (pcie_eye_ops env) targets; State_Monad.return () }
        else State_Monad.return ()"
    have rest: "wp (?rest completed) (sweep_refined env s) s2"
      if "leaves (device_walk (ShowEye env) (Store ?s1) targets) ?s1 completed s2" for completed s2
    proof -
      from that obtain a where a: "advanced a ?s1 s2" "device_walk (ShowEye env) (Store s) targets a completed"
        by (auto simp: leaves_def)
      have s2: "advanced (Discovered found # a) s s2" using advanced_trans [OF start a(1)] by simp
      have same: "PCIeEyeStore s2 = PCIeEyeStore s"
        using s2 network_keeps_pcie [OF device_walk_network [OF a(2)]] by (simp add: advanced_def)
      have stop: "sweep_refined env s () s2" if "\<not> (completed \<and> ShowPCIeEye env)"
        using s2 sweep_trace_network [OF a(2) that] Inr by (auto simp: sweep_refined_def leaves_def)
      have go: "sweep_refined env s () s3"
        if "completed" "ShowPCIeEye env" "leaves (pcie_walk (PCIeEyeStore s2) targets) s2 ok s3" for ok s3
      proof -
        from that(3) same obtain b where b: "advanced b s2 s3" "pcie_walk (PCIeEyeStore s) targets b ok"
          by (auto simp: leaves_def)
        show ?thesis
          using advanced_trans [OF s2 b(1)] sweep_trace_both [of "ShowEye env" _ targets a, OF _ b(2)] a(2) that(1,2) Inr
          by (auto simp: sweep_refined_def leaves_def)
      qed
      show ?thesis
        using stop go by (auto simp: wp_simps intro!: satisfies_wp [OF pcie_sweep_walk])
    qed
    have "wp (sweep_devices (device_ops env) targets) (\<lambda>completed. wp (?rest completed) (sweep_refined env s)) ?s1"
      by (rule satisfies_wp [OF device_sweep_walk]) (rule rest)
    then show ?thesis
      by (simp add: sweep_def poller_ops wp_bind wp_in_world wp_emit wp_return d Inr wp_sum)
  qed
qed

subsection \<open>What the grammar implies\<close>

fun ev_device_sets :: "event \<Rightarrow> port_data snapshot_set list" where
  "ev_device_sets (PublishedDevices m) = [m]"
| "ev_device_sets _ = []"

definition device_sets :: "event list \<Rightarrow> port_data snapshot_set list" where
  "device_sets evs = concat (map ev_device_sets evs)"

lemma device_sets_append [simp]:
  "device_sets (a @ b) = device_sets a @ device_sets b" "device_sets [] = []"
  "device_sets (e # b) = ev_device_sets e @ device_sets b"
  by (simp_all add: device_sets_def)

lemma device_sets_none: "list_all (\<lambda>ev. \<not> publishes ev) evs \<Longrightarrow> device_sets evs = []"
proof (induction evs)
  case (Cons ev evs)
  then show ?case by (cases ev) auto
qed simp

lemma device_trace_quiet: "device_trace show_eye t old evs r \<Longrightarrow> list_all (\<lambda>ev. \<not> publishes ev) evs"
  using device_event_quiet by (auto simp: device_trace_def list_all_iff)

lemma pcie_only_sets: "list_all pcie_only_event evs \<Longrightarrow> device_sets evs = []"
proof (induction evs)
  case (Cons ev evs)
  then show ?case by (cases ev) auto
qed simp

text \<open>
  A set covers the targets when it holds nothing else, and all of them that the previous set
  held: no device disappears while it is still there.
\<close>

definition covers :: "'d snapshot_set option \<Rightarrow> target list \<Rightarrow> 'd snapshot_set \<Rightarrow> bool" where
  "covers previous targets m \<longleftrightarrow>
     dom m \<subseteq> Device ` set targets \<and>
     list_all (\<lambda>t. snapshot_lookup previous (Device t) \<noteq> None \<longrightarrow> m (Device t) \<noteq> None) targets"

lemma swept_sets:
  assumes "swept (\<lambda>t. device_trace show_eye t (old t)) device_publication ts working evs completed"
  shows "list_all (\<lambda>m. dom working \<subseteq> dom m \<and> dom m \<subseteq> dom working \<union> Device ` set ts) (device_sets evs) \<and>
    (completed \<and> ts \<noteq> [] \<longrightarrow> device_sets evs \<noteq> [] \<and> dom (last (device_sets evs)) = dom working \<union> Device ` set ts)"
  using assms
proof (induction ts arbitrary: working evs)
  case (Cons t ts)
  let ?C = "\<lambda>t. device_trace show_eye t (old t)"
  consider "?C t evs None" "\<not> completed"
    | a new b where "evs = a @ device_publication (working(Device t \<mapsto> new)) new @ b" "?C t a (Some new)"
      "swept ?C device_publication ts (working(Device t \<mapsto> new)) b completed"
    using Cons.prems by (auto simp del: fun_upd_apply)
  then show ?case
  proof cases
    case 1
    then show ?thesis using device_sets_none [OF device_trace_quiet] by fastforce
  next
    case 2
    let ?m = "working(Device t \<mapsto> new)"
    have sets: "device_sets evs = ?m # device_sets b"
      using 2(1) device_sets_none [OF device_trace_quiet [OF 2(2)]] by (simp add: device_publication_def)
    have dom: "dom ?m = insert (Device t) (dom working)" by simp
    have empty: "ts = [] \<Longrightarrow> b = []" using 2(3) by simp
    from Cons.IH [OF 2(3)] show ?thesis
      unfolding sets dom
      by (cases "ts = []") (auto simp: empty list_all_iff simp del: fun_upd_apply)
  qed
qed simp

lemma device_walk_covers:
  assumes "device_walk show_eye previous targets evs completed"
  shows "list_all (covers previous targets) (device_sets evs) \<and>
    (completed \<longrightarrow> device_sets evs \<noteq> [] \<and> dom (last (device_sets evs)) = Device ` set targets)"
proof (cases "targets = []")
  case True
  then show ?thesis using assms by (simp add: device_walk_def walk_def covers_def)
next
  case False
  let ?seed = "\<lambda>d. if d \<in> set (map Device targets) then snapshot_lookup previous d else None"
  have seed: "dom ?seed \<subseteq> Device ` set targets" by (auto split: if_splits)
  have "swept (\<lambda>t. device_trace show_eye t (carried no_port_data previous t)) device_publication targets ?seed evs completed"
    using assms False by (simp add: device_walk_def walk_nonempty)
  from swept_sets [OF this]
  have sets: "\<And>m. m \<in> set (device_sets evs) \<Longrightarrow> dom ?seed \<subseteq> dom m \<and> dom m \<subseteq> dom ?seed \<union> Device ` set targets"
    and last: "completed \<longrightarrow> device_sets evs \<noteq> [] \<and> dom (last (device_sets evs)) = dom ?seed \<union> Device ` set targets"
    using False by (simp_all only: list_all_iff) blast+
  have "covers previous targets m" if "m \<in> set (device_sets evs)" for m
  proof -
    have "Device t \<in> dom ?seed" if "t \<in> set targets" "snapshot_lookup previous (Device t) \<noteq> None" for t
      using that by auto
    then have "m (Device t) \<noteq> None" if "t \<in> set targets" "snapshot_lookup previous (Device t) \<noteq> None" for t
      using that sets [OF \<open>m \<in> _\<close>] by blast
    then show ?thesis using sets [OF that] seed unfolding covers_def list_all_iff by blast
  qed
  moreover have "dom ?seed \<union> Device ` set targets = Device ` set targets" using seed by blast
  ultimately show ?thesis using last unfolding list_all_iff by simp
qed

text \<open>Only a walk that was cut short has seen the context done, and then it stopped there.\<close>

definition stops_when_done :: "event list \<Rightarrow> bool" where
  "stops_when_done evs \<longleftrightarrow> list_all (\<lambda>ev. \<not> dead ev) (butlast evs)"

lemma stops_append: "list_all (\<lambda>ev. \<not> dead ev) a \<Longrightarrow> stops_when_done b \<Longrightarrow> stops_when_done (a @ b)"
  by (auto simp: stops_when_done_def butlast_append list_all_iff dest: in_set_butlastD)

lemma swept_stops:
  assumes "swept C P ts working evs completed"
    and "\<And>t evs. C t evs None \<Longrightarrow> cut_short evs"
    and "\<And>t evs new. C t evs (Some new) \<Longrightarrow> list_all (\<lambda>ev. \<not> dead ev) evs"
    and "\<And>m new. list_all (\<lambda>ev. \<not> dead ev) (P m new)"
  shows "if completed then list_all (\<lambda>ev. \<not> dead ev) evs else cut_short evs"
  using assms
proof (induction C P ts working evs completed rule: swept.induct)
  case (2 C P t ts working evs completed)
  from "2.prems"(1) consider "C t evs None" "\<not> completed"
    | a new b where "evs = a @ P (working(Device t \<mapsto> new)) new @ b" "C t a (Some new)"
      "swept C P ts (working(Device t \<mapsto> new)) b completed"
    by (auto simp del: fun_upd_apply)
  then show ?case
  proof cases
    case 1
    then show ?thesis using "2.prems"(2) by simp
  next
    case (2 a new b)
    let ?m = "working(Device t \<mapsto> new)"
    have "list_all (\<lambda>ev. \<not> dead ev) (a @ P ?m new)"
      using "2.prems"(3) [OF 2(2)] "2.prems"(4) by simp
    moreover have "if completed then list_all (\<lambda>ev. \<not> dead ev) b else cut_short b"
      using "2.IH" [OF 2(3)] "2.prems"(2-4) by blast
    ultimately show ?thesis
      using 2(1) cut_short_append [of "a @ P ?m new" b] by (auto split: if_splits simp del: fun_upd_apply)
  qed
qed simp

lemma walk_stops:
  assumes w: "walk C P publication previous targets evs completed"
    and "\<And>t evs. C t evs None \<Longrightarrow> cut_short evs"
    and "\<And>t evs new. C t evs (Some new) \<Longrightarrow> list_all (\<lambda>ev. \<not> dead ev) evs"
    and "\<And>m new. list_all (\<lambda>ev. \<not> dead ev) (P m new)" and "\<not> dead (publication Map.empty)"
  shows "if completed then list_all (\<lambda>ev. \<not> dead ev) evs else cut_short evs"
proof (cases "targets = []")
  case False
  show ?thesis by (rule swept_stops [OF w [unfolded walk_nonempty [OF False]] assms(2-4)])
qed (use assms(1,5) in \<open>simp add: walk_def\<close>)

lemma device_walk_stops:
  assumes "device_walk show_eye previous targets evs completed"
  shows "if completed then list_all (\<lambda>ev. \<not> dead ev) evs else cut_short evs"
  by (rule walk_stops [OF assms [unfolded device_walk_def]]) (auto simp: device_trace_def device_publication_def)

lemma pcie_walk_stops:
  assumes "pcie_walk previous targets evs completed"
  shows "if completed then list_all (\<lambda>ev. \<not> dead ev) evs else cut_short evs"
  by (rule walk_stops [OF assms [unfolded pcie_walk_def]]) (auto simp: pcie_trace_def pcie_publication_def)

lemma stops_intro: "(if completed then list_all (\<lambda>ev. \<not> dead ev) evs else cut_short evs) \<Longrightarrow> stops_when_done evs"
  by (auto simp: stops_when_done_def cut_short_def list_all_iff dest: in_set_butlastD split: if_splits)

text \<open>The two shapes of a sweep's trace.\<close>

lemma sweep_traceE [consumes 1, case_names failed network both]:
  assumes "sweep_trace show_eye show_pcie previous previous_pcie evs"
  obtains (failed) err e where "evs = [Discovered (Inl err), CtxSeen e] @
      (if e = None then [Logged LogWarn ''mlxlink device discovery failed''] else [])"
  | (network) targets a completed where "evs = Discovered (Inr targets) # a"
      "device_walk show_eye previous targets a completed" "\<not> (completed \<and> show_pcie)"
  | (both) targets a b ok where "evs = Discovered (Inr targets) # a @ b"
      "device_walk show_eye previous targets a True" "show_pcie" "pcie_walk previous_pcie targets b ok"
proof -
  from assms obtain found rest where evs: "evs = Discovered found # rest"
    and r: "case found of
        Inl err \<Rightarrow> (\<exists>e. rest = CtxSeen e #
          (if e = None then [Logged LogWarn ''mlxlink device discovery failed''] else []))
      | Inr targets \<Rightarrow> (\<exists>a b completed. rest = a @ b \<and> device_walk show_eye previous targets a completed \<and>
          (if completed \<and> show_pcie then \<exists>ok. pcie_walk previous_pcie targets b ok else b = []))"
    unfolding sweep_trace_def by blast
  show thesis
  proof (cases found)
    case (Inl err)
    with r evs show thesis by (auto intro: failed)
  next
    case (Inr targets)
    with r obtain a b completed where ab: "rest = a @ b" "device_walk show_eye previous targets a completed"
      "if completed \<and> show_pcie then \<exists>ok. pcie_walk previous_pcie targets b ok else b = []" by auto
    show thesis
    proof (cases "completed \<and> show_pcie")
      case True
      with ab evs Inr show thesis by (auto intro: both)
    next
      case False
      with ab evs Inr show thesis by (auto intro: network)
    qed
  qed
qed

lemma sweep_trace_stops:
  assumes "sweep_trace show_eye show_pcie previous previous_pcie evs"
  shows "stops_when_done evs"
  using assms
proof (cases rule: sweep_traceE)
  case (failed err e)
  then show ?thesis by (simp add: stops_when_done_def)
next
  case (network targets a completed)
  then show ?thesis
    using stops_append [of "[Discovered (Inr targets)]" a] stops_intro [OF device_walk_stops [OF network(2)]] by simp
next
  case (both targets a b ok)
  then show ?thesis
    using stops_append [of "Discovered (Inr targets) # a" b] device_walk_stops [OF both(2)]
      stops_intro [OF pcie_walk_stops [OF both(4)]] by simp
qed

text \<open>
  What the sets published by a sweep hold. A sweep that has not seen the context done ends with
  a set of exactly the discovered devices.
\<close>

definition sweep_covers :: "port_data snapshot_set option \<Rightarrow> event list \<Rightarrow> bool" where
  "sweep_covers previous evs \<longleftrightarrow>
     (case hd evs of
        Discovered (Inr targets) \<Rightarrow>
          list_all (covers previous targets) (device_sets evs) \<and>
          (list_all (\<lambda>ev. \<not> dead ev) evs \<longrightarrow>
             device_sets evs \<noteq> [] \<and> dom (last (device_sets evs)) = Device ` set targets)
      | _ \<Rightarrow> device_sets evs = [])"

lemma sweep_trace_covers:
  assumes "sweep_trace show_eye show_pcie previous previous_pcie evs"
  shows "sweep_covers previous evs"
  using assms
proof (cases rule: sweep_traceE)
  case (failed err e)
  then show ?thesis by (simp add: sweep_covers_def)
next
  case (network targets a completed)
  have "completed" if "list_all (\<lambda>ev. \<not> dead ev) a"
    using device_walk_stops [OF network(2)] that by (auto simp: cut_short_def list_all_iff split: if_splits)
  then show ?thesis using device_walk_covers [OF network(2)] network(1) by (simp add: sweep_covers_def)
next
  case (both targets a b ok)
  then show ?thesis
    using device_walk_covers [OF both(2)] pcie_only_sets [OF pcie_walk_only [OF both(4)]]
    by (simp add: sweep_covers_def)
qed

lemma satisfies_leaves_mono:
  "satisfies m (\<lambda>s. leaves (R s) s) \<Longrightarrow> (\<And>s evs r. R s evs r \<Longrightarrow> R' s evs r) \<Longrightarrow>
   satisfies m (\<lambda>s. leaves (R' s) s)"
  unfolding satisfies_def leaves_def by (blast intro: wp_mono)

lemma network_config:
  "device_ops (env\<lparr> ShowPCIeEye := b \<rparr>) = device_ops env"
proof -
  have "collect (env\<lparr> ShowPCIeEye := b \<rparr>) = collect env"
    by (intro ext) (simp add: collect_def collect_with_eye_def collect_combined_def collect_baseline_def
        poller_ops cong: if_cong option.case_cong sum.case_cong)
  then show ?thesis by (simp add: device_ops_def)
qed

definition same_network :: "'w poller \<Rightarrow> 'w poller \<Rightarrow> bool" where
  "same_network s1 s2 \<longleftrightarrow> Store s1 = Store s2 \<and> Ready s1 = Ready s2 \<and>
     errors_counted (Trace s1) = errors_counted (Trace s2)"

lemma pcie_sweep_network: "satisfies (sweep_devices (pcie_eye_ops env) targets) (\<lambda>s ok s'. same_network s' s)"
proof (rule satisfiesI, rule satisfies_wp [OF pcie_sweep_walk], erule leavesE)
  fix s s' :: "'a poller" and evs ok
  assume evs: "advanced evs s s'" "pcie_walk (PCIeEyeStore s) targets evs ok"
  then show "same_network s' s"
    using pcie_keeps_network [OF pcie_walk_only [OF evs(2)]] by (simp add: advanced_def same_network_def)
qed

lemma sweep_isolated:
  assumes "run_state (sweep env) s = (u, s1)" and "run_state (sweep (env\<lparr> ShowPCIeEye := False \<rparr>)) s = (v, s2)"
  shows "same_network s1 s2"
proof -
  obtain found w where d: "EnvDiscover env (World s) = (found, w)" by fastforce
  have refl: "same_network x x" for x :: "'a poller" by (simp add: same_network_def)
  have "wp (sweep env) (\<lambda>u s1. wp (sweep (env\<lparr> ShowPCIeEye := False \<rparr>)) (\<lambda>v s2. same_network s1 s2) s) s"
  proof (cases found)
    case (Inl err)
    then show ?thesis by (auto simp: sweep_def poller_ops wp_simps d refl split: prod.split)
  next
    case (Inr targets)
    let ?s = "s\<lparr> World := w, Trace := Trace s @ [Discovered found] \<rparr>"
    obtain completed s2 where net: "run_state (sweep_devices (device_ops env) targets) ?s = (completed, s2)"
      by fastforce
    have run: "wp (sweep_devices (device_ops env) targets) Q ?s = Q completed s2" for Q
      by (simp add: wp_def net)
    have "wp (sweep_devices (pcie_eye_ops env) targets)
        (\<lambda>r. wp (State_Monad.return ()) (\<lambda>u s1. same_network s1 s2)) s2"
      by (rule satisfies_wp [OF pcie_sweep_network]) (simp add: wp_return)
    with run show ?thesis
      by (simp add: sweep_def poller_ops wp_simps d Inr network_config refl)
  qed
  then show ?thesis using assms by (simp add: wp_def)
qed

lemmas sweep_satisfies = sweep_leaves [unfolded sweep_refined_def]

subsection \<open>How much a sweep costs\<close>

fun found_targets :: "event list \<Rightarrow> target list" where
  "found_targets (Discovered (Inr ts) # evs) = ts"
| "found_targets _ = []"

definition queries_per_device :: "'w poller_env \<Rightarrow> nat" where
  "queries_per_device env = (if ShowEye env then 3 else 2) + (if ShowPCIeEye env then 1 else 0)"

lemma swept_cost:
  assumes "\<And>t evs r. C t evs r \<Longrightarrow> length (answers evs) \<le> n" and "\<And>m new. answers (P m new) = []"
  shows "swept C P ts working evs completed \<Longrightarrow> length (answers evs) \<le> n * length ts"
proof (induction ts arbitrary: working evs)
  case (Cons t ts)
  from Cons.prems consider "C t evs None"
    | a new b where "evs = a @ P (working(Device t \<mapsto> new)) new @ b" "C t a (Some new)"
        "swept C P ts (working(Device t \<mapsto> new)) b completed"
    by (auto simp del: fun_upd_apply)
  then show ?case
  proof cases
    case 1
    then show ?thesis using assms(1) [of t evs None] by simp
  next
    case 2
    then show ?thesis using assms(1) [OF 2(2)] Cons.IH [OF 2(3)] assms(2) by simp
  qed
qed simp

lemma device_walk_cost:
  assumes "device_walk show_eye previous targets evs completed"
  shows "length (answers evs) \<le> (if show_eye then 3 else 2) * length targets"
proof (cases "targets = []")
  case False
  have "length (answers as) \<le> (if show_eye then 3 else 2)" if "device_trace show_eye t old as r" for t old as r
    using that begins_chain_length [of "device_chain show_eye" "answers as"] follows_begins [of "device_chain show_eye"]
    by (auto simp: device_trace_def device_chain_def split: option.splits)
  from swept_cost [OF this _ assms [unfolded device_walk_def walk_nonempty [OF False]]]
  show ?thesis by (simp add: device_publication_def)
qed (use assms in \<open>simp add: device_walk_def walk_def\<close>)

lemma pcie_walk_cost:
  assumes "pcie_walk previous targets evs completed"
  shows "length (answers evs) \<le> length targets"
proof (cases "targets = []")
  case False
  have "length (answers as) \<le> 1" if "pcie_trace t old as r" for t old as r
    using that by (auto simp: pcie_trace_def split: option.splits)
  from swept_cost [OF this _ assms [unfolded pcie_walk_def walk_nonempty [OF False]]]
  show ?thesis by (simp add: pcie_publication_def)
qed (use assms in \<open>simp add: pcie_walk_def walk_def\<close>)

lemma sweep_trace_cost:
  assumes "sweep_trace (ShowEye env) (ShowPCIeEye env) previous previous_pcie evs"
  shows "length (answers evs) \<le> queries_per_device env * length (found_targets evs)"
  using assms
proof (cases rule: sweep_traceE)
  case (network targets a completed)
  then show ?thesis using device_walk_cost [OF network(2)] by (auto simp: queries_per_device_def)
next
  case (both targets a b ok)
  then show ?thesis
    using device_walk_cost [OF both(2)] pcie_walk_cost [OF both(4)] by (simp add: queries_per_device_def)
qed simp

subsection \<open>Properties\<close>

text \<open>
  C3: A sweep refines its grammar: one discovery; then the network queries of each device along
  its chain, each device visible before the next is begun; then, only after a completed walk,
  the PCIe Eyes; the stores and the readiness are what the trace says.
\<close>

theorem sweep_refines: "satisfies (sweep env) (sweep_refined env)"
  by (rule sweep_leaves)

text \<open>
  C6: Every set a sweep publishes holds only discovered devices and all those of them that were
  published before, so no device disappears while it is still there; a sweep that has not seen
  the context done ends with exactly the discovered devices, and a failed discovery publishes
  nothing.
\<close>

theorem sweep_keeps_devices:
  "satisfies (sweep env) (\<lambda>s. leaves (\<lambda>evs u. sweep_covers (Store s) evs) s)"
  by (rule satisfies_leaves_mono [OF sweep_satisfies]) (rule sweep_trace_covers)

text \<open>
  C19: Every sweep comes to its end: it makes at most two queries for each device it discovered,
  a third with the network Eye, and one more for the PCIe Eye, whatever the answers are.
\<close>

theorem sweep_query_bound:
  "satisfies (sweep env)
     (\<lambda>s. leaves (\<lambda>evs u. length (answers evs) \<le> queries_per_device env * length (found_targets evs)) s)"
  by (rule satisfies_leaves_mono [OF sweep_satisfies]) (rule sweep_trace_cost)

text \<open>
  C24: The PCIe Eye never affects the network side: with it and without it a sweep leaves the
  same network snapshots, the same readiness and the same error counts, whatever the PCIe
  queries answer.
\<close>

theorem sweep_pcie_isolated:
  "(let s1 = snd (run_state (sweep env) s); s2 = snd (run_state (sweep (env\<lparr> ShowPCIeEye := False \<rparr>)) s) in
    Store s1 = Store s2 \<and> Ready s1 = Ready s2 \<and> errors_counted (Trace s1) = errors_counted (Trace s2))"
  unfolding Let_def same_network_def [symmetric] by (rule sweep_isolated) (rule prod.collapse [symmetric])+

end
