(* ===== verification/Poller_Trace.thy ===== *)
theory Poller_Trace
  imports Poller_Sweep
begin

text \<open>
  Languages of traces. A set of event sequences that is closed under concatenation, and has what
  the poller's own operations leave, has the traces of the whole of its programs: that is proved
  once, in a locale. Its instances are that every event comes from the environment, and
  that every query is followed by a look at the context.
\<close>

definition leaving :: "(event list \<Rightarrow> bool) \<Rightarrow> ('w poller, 'a) state \<Rightarrow> bool" where
  "leaving L m \<longleftrightarrow> satisfies m (\<lambda>s r s'. \<exists>evs. Trace s' = Trace s @ evs \<and> L evs)"

lemma leaving_run:
  "leaving L m \<Longrightarrow> run_state m s = (r, s') \<Longrightarrow> Trace s' = Trace s @ evs \<Longrightarrow> L evs"
  unfolding leaving_def by (drule (1) satisfies_run) auto

text \<open>The answers of the environment; everything else is a record of the poller's own.\<close>

fun is_answer :: "event \<Rightarrow> bool" where
  "is_answer (Discovered found) \<longleftrightarrow> True"
| "is_answer (Queried q d a) \<longleftrightarrow> True"
| "is_answer _ \<longleftrightarrow> False"

locale trace_language =
  fixes env :: "'w poller_env" and L :: "event list \<Rightarrow> bool"
  assumes empty: "L []" and append: "L evs \<Longrightarrow> L evs' \<Longrightarrow> L (evs @ evs')"
    and recorded: "\<not> is_answer ev \<Longrightarrow> L [ev]"
    and discovered: "EnvDiscover env w = (found, w') \<Longrightarrow> L [Discovered found]"
    and asked: "EnvQuery env q d w = (a, w') \<Longrightarrow> L [Queried q d a, ClockRead now, CtxSeen e]"
begin

lemma leaving_basic:
  "leaving L (State_Monad.return x)" "leaving L State_Monad.get"
  "(\<And>s. Trace (f s) = Trace s) \<Longrightarrow> leaving L (State_Monad.update f)" "leaving L (in_world g)"
  using empty by (auto intro!: satisfiesI simp: leaving_def wp_simps split: prod.split)

lemma leaving_after:
  assumes "leaving L m" and "L a" and "Trace s1 = Trace s @ a"
  shows "wp m (\<lambda>r s'. \<exists>evs. Trace s' = Trace s @ evs \<and> L evs) s1"
  by (rule satisfies_wp [OF assms(1) [unfolded leaving_def]])
    (use assms(2,3) append in \<open>metis append.assoc\<close>)

lemma leaving_bind:
  assumes "leaving L m" and "\<And>x. leaving L (f x)"
  shows "leaving L (State_Monad.bind m f)"
  unfolding leaving_def
  by (rule satisfiesI, unfold wp_bind, rule satisfies_wp [OF assms(1) [unfolded leaving_def]])
    (use leaving_after [OF assms(2)] in blast)

lemma leaving_emit: "\<not> is_answer ev \<Longrightarrow> leaving L (emit ev)"
  using recorded by (auto intro!: satisfiesI simp: leaving_def wp_simps)

lemma leaving_discovery: "leaving L (run_discovery env)"
  using discovered by (auto intro!: satisfiesI simp: leaving_def run_discovery_def wp_simps split: prod.split)

lemma leaving_readings: "leaving L (ctx_err env)" "leaving L (clock_now env)"
  unfolding ctx_err_def clock_now_def
  by (intro leaving_bind leaving_basic leaving_emit; simp)+

text \<open>A query, and what always comes after it.\<close>

lemma leaving_asked:
  assumes "\<And>a now e. leaving L (f a now e)"
  shows "leaving L (State_Monad.bind (run_query env q d)
    (\<lambda>a. State_Monad.bind (clock_now env) (\<lambda>now. State_Monad.bind (ctx_err env) (f a now))))"
  unfolding leaving_def
proof (rule satisfiesI)
  fix s :: "'w poller"
  obtain a w1 where q: "EnvQuery env q d (World s) = (a, w1)" by fastforce
  obtain now w2 where c: "EnvNow env w1 = (now, w2)" by fastforce
  obtain e w3 where x: "EnvCtxErr env w2 = (e, w3)" by fastforce
  show "wp (State_Monad.bind (run_query env q d)
      (\<lambda>a. State_Monad.bind (clock_now env) (\<lambda>now. State_Monad.bind (ctx_err env) (f a now))))
    (\<lambda>r s'. \<exists>evs. Trace s' = Trace s @ evs \<and> L evs) s"
    by (simp add: run_query_def clock_now_def ctx_err_def wp_simps q c x)
      (rule leaving_after [OF assms asked [OF q]], simp)
qed

lemma leaving_cases:
  "(b \<Longrightarrow> leaving L m) \<Longrightarrow> (\<not> b \<Longrightarrow> leaving L n) \<Longrightarrow> leaving L (if b then m else n)"
  "leaving L m \<Longrightarrow> (\<And>y. leaving L (f y)) \<Longrightarrow> leaving L (case opt of None \<Rightarrow> m | Some y \<Rightarrow> f y)"
  "(\<And>err. leaving L (g err)) \<Longrightarrow> (\<And>y. leaving L (h y)) \<Longrightarrow> leaving L (case res of Inl err \<Rightarrow> g err | Inr y \<Rightarrow> h y)"
  by (auto split: option.split sum.split)

lemmas leaving_parts = leaving_cases leaving_bind leaving_basic leaving_readings leaving_discovery

lemma leaving_records:
  "leaving L (log_event level msg)" "leaving L (count_error t reason)" "leaving L (count_pcie_eye_error t reason)"
  "leaving L (record_failure snap reason)" "leaving L (record_pcie_eye_failure psnap reason)"
  "leaving L (record_success snap data now)" "leaving L (record_combined_fallback t)"
  unfolding log_event_def count_error_def count_pcie_eye_error_def record_failure_def record_pcie_eye_failure_def
    record_success_def record_combined_fallback_def Let_def
  by (intro leaving_parts leaving_emit; simp)+

lemma leaving_baseline: "leaving L (collect_baseline env t old start)"
  unfolding collect_baseline_def Let_def
  by (rule leaving_asked leaving_parts leaving_records | assumption)+

lemma leaving_combined: "leaving L (collect_combined env t old start)"
  unfolding collect_combined_def Let_def
  by (rule leaving_asked leaving_baseline leaving_parts leaving_records | assumption)+

lemma leaving_with_eye: "leaving L (collect_with_eye env t old start)"
  unfolding collect_with_eye_def Let_def
  by (rule leaving_asked leaving_combined leaving_parts leaving_records | assumption)+

lemma leaving_collect: "leaving L (collect env t previous)" "leaving L (collect_pcie_eye env t previous')"
  unfolding collect_def collect_pcie_eye_def Let_def
  by (rule leaving_asked leaving_combined leaving_with_eye leaving_parts leaving_records | assumption)+

lemma leaving_publications:
  "leaving L (publish_devices m)" "leaving L (publish_pcie_eye p)" "leaving L (announce_ready new)"
  unfolding publish_devices_def publish_pcie_eye_def announce_ready_def
  by (intro leaving_parts leaving_emit; simp)+

lemma leaving_sweep_devices:
  assumes "\<And>t previous. leaving L (CollectOne ops t previous)" and "\<And>m. leaving L (Publish ops m)"
    and "\<And>new. leaving L (OnPublish ops new)"
  shows "leaving L (sweep_devices ops targets)"
proof -
  have "leaving L (sweep_loop ops previous ts working)" for previous ts working
    by (induction ts arbitrary: working) (auto intro!: leaving_parts assms simp: Let_def)
  then show ?thesis unfolding sweep_devices_def Let_def by (intro leaving_parts assms)
qed

lemma leaving_sweep: "leaving L (sweep env)"
  unfolding sweep_def
  by (intro leaving_parts leaving_records leaving_sweep_devices)
    (simp_all add: device_ops_def pcie_eye_ops_def leaving_collect leaving_publications leaving_basic)

lemma leaving_drain: "leaving L (drain_ticks env)"
  unfolding drain_ticks_def by (intro leaving_parts leaving_records leaving_emit) simp_all

end

subsection \<open>Every event comes from the environment\<close>

fun event_from :: "'w poller_env \<Rightarrow> event \<Rightarrow> bool" where
  "event_from env (Discovered found) \<longleftrightarrow> (\<exists>w w'. EnvDiscover env w = (found, w'))"
| "event_from env (Queried q d a) \<longleftrightarrow> (\<exists>w w'. EnvQuery env q d w = (a, w'))"
| "event_from env _ \<longleftrightarrow> True"

lemma event_from_recorded: "\<not> is_answer ev \<Longrightarrow> event_from env ev"
  by (cases ev) simp_all

interpretation from_env: trace_language env "list_all (event_from env)" for env :: "'w poller_env"
  by unfold_locales (auto simp: event_from_recorded)

subsection \<open>Every query is followed by a look at the context\<close>

fun looked :: "event list \<Rightarrow> bool" where
  "looked (ClockRead now # CtxSeen e # evs) = True"
| "looked evs = False"

fun queries_checked :: "event list \<Rightarrow> bool" where
  "queries_checked [] = True"
| "queries_checked (ev # evs) = ((case ev of Queried q d a \<Rightarrow> looked evs | _ \<Rightarrow> True) \<and> queries_checked evs)"

lemma looked_append: "looked a \<Longrightarrow> looked (a @ b)"
  by (cases a rule: looked.cases) simp_all

lemma queries_checked_append: "queries_checked a \<Longrightarrow> queries_checked b \<Longrightarrow> queries_checked (a @ b)"
  by (induction a) (auto simp: looked_append split: event.split)

interpretation checked: trace_language env queries_checked for env :: "'w poller_env"
proof
  show "queries_checked [ev]" if "\<not> is_answer ev" for ev using that by (cases ev) simp_all
qed (simp_all add: queries_checked_append)

subsection \<open>Properties\<close>

text \<open>
  C18: A sweep stops promptly: the first reading that shows the context done is its last event,
  so nothing is queried, counted or published after it; and each query is followed at once by
  such a reading, so at most the one query that is under way is still waited for.
\<close>

theorem sweep_stops:
  "satisfies (sweep env) (\<lambda>s. leaves (\<lambda>evs u. stops_when_done evs \<and> queries_checked evs) s)"
proof (rule satisfiesI, rule wpI)
  fix s :: "'a poller" and u s'
  assume run: "run_state (sweep env) s = (u, s')"
  obtain evs where adv: "advanced evs s s'"
    and tr: "sweep_trace (ShowEye env) (ShowPCIeEye env) (Store s) (PCIeEyeStore s) evs"
    using satisfies_run [OF sweep_satisfies run] by (rule leavesE)
  have "queries_checked evs"
    using leaving_run [OF checked.leaving_sweep run] adv by (simp add: advanced_def)
  with adv sweep_trace_stops [OF tr]
  show "leaves (\<lambda>evs u. stops_when_done evs \<and> queries_checked evs) s u s'" by (auto simp: leaves_def)
qed

end
