(* ===== verification/Discovery.thy ===== *)
theory Discovery
  imports Poller
begin

text \<open>
  \<open>internal/mlxlink/discovery.go\<close>: the walk over the infiniband class directory. The file
  system is a parameter, as operations of the world; what the discovery keeps itself, the
  devices it has warned about, is threaded with it, and so are its log records. The lemmas say
  which devices are found and with which labels, and that the targets of one walk are told apart
  by their names and carry only labels that Prometheus accepts.
\<close>

subsection \<open>The file system\<close>

text \<open>
  \<open>HostStat\<close> says whether a path, its links followed, is a directory; \<open>HostLstat\<close> only whether
  there is something at the path.
\<close>

record 'w host =
  HostDir :: "bytes \<Rightarrow> 'w \<Rightarrow> (go_error + (bytes \<times> file_type) list) \<times> 'w"
  HostStat :: "bytes \<Rightarrow> 'w \<Rightarrow> (go_error + bool) \<times> 'w"
  HostReadlink :: "bytes \<Rightarrow> 'w \<Rightarrow> (go_error + bytes) \<times> 'w"
  HostLstat :: "bytes \<Rightarrow> 'w \<Rightarrow> go_error option \<times> 'w"
  HostReadFile :: "bytes \<Rightarrow> 'w \<Rightarrow> (go_error + bytes) \<times> 'w"
  HostCtxErr :: "'w \<Rightarrow> ctx_error option \<times> 'w"

record 'w discovering =
  HostWorld :: 'w
  WarnedMultiPort :: "bytes set"
  DiscoveryLog :: "(log_level \<times> bytes \<times> bytes) list"

record sysfs_discovery =
  DiscoveryRoot :: bytes
  DiscoveryExclude :: "bytes set"

definition new_sysfs_discovery :: "bytes \<Rightarrow> bytes list \<Rightarrow> sysfs_discovery" where
  "new_sysfs_discovery sysfs_root exclude =
     \<lparr> DiscoveryRoot = path_clean (if sysfs_root = '''' then ''/sys'' else sysfs_root),
       DiscoveryExclude = set exclude \<rparr>"

definition on_host :: "('w \<Rightarrow> 'a \<times> 'w) \<Rightarrow> ('w discovering, 'a) state" where
  "on_host f = State (\<lambda>s. case f (HostWorld s) of (r, w) \<Rightarrow> (r, s\<lparr> HostWorld := w \<rparr>))"

definition log_device :: "log_level \<Rightarrow> bytes \<Rightarrow> bytes \<Rightarrow> ('w discovering, unit) state" where
  "log_device level msg device =
     State_Monad.update (\<lambda>s. s\<lparr> DiscoveryLog := DiscoveryLog s @ [(level, msg, device)] \<rparr>)"

text \<open>\<open>os.ReadDir\<close>: all callers ignore the entries when there is an error.\<close>

definition read_dir :: "'w host \<Rightarrow> bytes \<Rightarrow> ('w discovering, go_error + dir_entry list) state" where
  "read_dir host path = do {
     r \<leftarrow> on_host (HostDir host path);
     State_Monad.return (map_sum id sorted_entries r) }"

subsection \<open>One device\<close>

definition is_device_dir :: "'w host \<Rightarrow> bytes \<Rightarrow> dir_entry \<Rightarrow> ('w discovering, bool) state" where
  "is_device_dir host class_dir entry =
     (if snd entry = FileDir then State_Monad.return True
      else if snd entry \<noteq> FileSymlink then State_Monad.return False
      else do {
        info \<leftarrow> on_host (HostStat host (path_join [class_dir, fst entry]));
        State_Monad.return (info = Inr True) })"

definition read_pci_info :: "'w host \<Rightarrow> bytes \<Rightarrow> ('w discovering, bytes \<times> bool) state" where
  "read_pci_info host device_path = do {
     link \<leftarrow> on_host (HostReadlink host device_path);
     let pci_addr = (case link of
         Inl err \<Rightarrow> ''''
       | Inr l \<Rightarrow> if valid_utf8 (path_base l) then path_base l else '''');
     missing \<leftarrow> on_host (HostLstat host (path_join [device_path, ''physfn'']));
     State_Monad.return (pci_addr, missing = None) }"

text \<open>The lowest port so far and the number of ports, over the entries.\<close>

fun lowest_of :: "int \<Rightarrow> nat \<Rightarrow> dir_entry list \<Rightarrow> int \<times> nat" where
  "lowest_of port ports [] = (port, ports)"
| "lowest_of port ports (entry # es) =
     (if snd entry \<noteq> FileDir then lowest_of port ports es
      else case atoi (fst entry) of
        Inl err \<Rightarrow> lowest_of port ports es
      | Inr n \<Rightarrow> lowest_of (if ports = 0 \<or> n < port then n else port) (Suc ports) es)"

definition lowest_port :: "'w host \<Rightarrow> bytes \<Rightarrow> ('w discovering, int \<times> nat) state" where
  "lowest_port host dir = do {
     entries \<leftarrow> read_dir host dir;
     State_Monad.return (case entries of Inl err \<Rightarrow> (0, 0) | Inr es \<Rightarrow> lowest_of 0 0 es) }"

fun first_net_dev :: "'w host \<Rightarrow> bytes \<Rightarrow> dir_entry list \<Rightarrow> ('w discovering, bytes) state" where
  "first_net_dev host ndevs_path [] = State_Monad.return ''''"
| "first_net_dev host ndevs_path (entry # es) =
     (if snd entry = FileDir then first_net_dev host ndevs_path es
      else do {
        data \<leftarrow> on_host (HostReadFile host (path_join [ndevs_path, fst entry]));
        (case data of
           Inl err \<Rightarrow> first_net_dev host ndevs_path es
         | Inr text \<Rightarrow>
             if trim_space text \<noteq> '''' then State_Monad.return (trim_space text)
             else first_net_dev host ndevs_path es) })"

definition read_port_net_dev :: "'w host \<Rightarrow> bytes \<Rightarrow> ('w discovering, bytes) state" where
  "read_port_net_dev host port_dir = do {
     let ndevs_path = path_join [port_dir, ''gid_attrs'', ''ndevs''];
     entries \<leftarrow> read_dir host ndevs_path;
     (case entries of Inl err \<Rightarrow> State_Monad.return '''' | Inr es \<Rightarrow> first_net_dev host ndevs_path es) }"

definition warn_multi_port :: "bytes \<Rightarrow> ('w discovering, unit) state" where
  "warn_multi_port device = do {
     s \<leftarrow> State_Monad.get;
     let warned = device \<in> WarnedMultiPort s;
     State_Monad.update (\<lambda>s. s\<lparr> WarnedMultiPort := insert device (WarnedMultiPort s) \<rparr>);
     if warned then State_Monad.return ()
     else log_device LogWarn ''device exposes multiple ports; collecting the lowest one only'' device }"

definition target_for :: "'w host \<Rightarrow> sysfs_discovery \<Rightarrow> bytes \<Rightarrow> dir_entry \<Rightarrow> ('w discovering, target option) state" where
  "target_for host d class_dir entry = do {
     let name = fst entry;
     if name \<in> DiscoveryExclude d then State_Monad.return None
     else do {
       is_dir \<leftarrow> is_device_dir host class_dir entry;
       if \<not> is_dir then State_Monad.return None
       else if \<not> valid_utf8 name then do {
         log_device LogWarn ''skipping device whose name is not valid UTF-8'' name;
         State_Monad.return None }
       else do {
         pci \<leftarrow> read_pci_info host (path_join [class_dir, name, ''device'']);
         if snd pci then do {
           log_device LogDebug ''skipping SR-IOV virtual function'' name;
           State_Monad.return None }
         else do {
           ports \<leftarrow> lowest_port host (path_join [class_dir, name, ''ports'']);
           if snd ports = 0 then do {
             log_device LogWarn ''skipping device without ports'' name;
             State_Monad.return None }
           else do {
             (if 1 < snd ports then warn_multi_port name else State_Monad.return ());
             net_dev \<leftarrow> read_port_net_dev host (path_join [class_dir, name, ''ports'', itoa (fst ports)]);
             State_Monad.return (Some \<lparr> Device = name, Port = itoa (fst ports), PCIAddr = fst pci,
               NetDev = net_dev \<rparr>) } } } } }"

subsection \<open>The walk\<close>

fun discover_entries ::
  "'w host \<Rightarrow> sysfs_discovery \<Rightarrow> bytes \<Rightarrow> dir_entry list \<Rightarrow> target list \<Rightarrow> ('w discovering, go_error + target list) state" where
  "discover_entries host d class_dir [] targets = State_Monad.return (Inr targets)"
| "discover_entries host d class_dir (entry # es) targets = do {
     e \<leftarrow> on_host (HostCtxErr host);
     (case e of
        Some err \<Rightarrow> State_Monad.return (Inl (CtxError err))
      | None \<Rightarrow> do {
          found \<leftarrow> target_for host d class_dir entry;
          discover_entries host d class_dir es
            (case found of None \<Rightarrow> targets | Some t \<Rightarrow> targets @ [t]) }) }"

definition discover :: "'w host \<Rightarrow> sysfs_discovery \<Rightarrow> ('w discovering, go_error + target list) state" where
  "discover host d = do {
     e \<leftarrow> on_host (HostCtxErr host);
     (case e of
        Some err \<Rightarrow> State_Monad.return (Inl (CtxError err))
      | None \<Rightarrow> do {
          let class_dir = path_join [DiscoveryRoot d, ''class/infiniband''];
          entries \<leftarrow> read_dir host class_dir;
          (case entries of
             Inl err \<Rightarrow>
               State_Monad.return (if error_is err (Sentinel ErrNotExist) then Inr [] else Inl err)
           | Inr es \<Rightarrow> discover_entries host d class_dir es []) }) }"

lemma wp_on_host [wp_simps]:
  "wp (on_host f) Q s = (case f (HostWorld s) of (r, w) \<Rightarrow> Q r (s\<lparr> HostWorld := w \<rparr>))"
  by (simp add: wp_def on_host_def split: prod.splits)

lemma wp_log_device [wp_simps]:
  "wp (log_device level msg device) Q s = Q () (s\<lparr> DiscoveryLog := DiscoveryLog s @ [(level, msg, device)] \<rparr>)"
  by (simp add: log_device_def wp_simps)

definition multi_port_log :: "log_level \<times> bytes" where
  "multi_port_log = (LogWarn, ''device exposes multiple ports; collecting the lowest one only'')"

lemma wp_warn_multi_port [wp_simps]:
  "wp (warn_multi_port device) Q s =
     Q () (s\<lparr> WarnedMultiPort := insert device (WarnedMultiPort s),
         DiscoveryLog := DiscoveryLog s @
           (if device \<in> WarnedMultiPort s then []
            else [(fst multi_port_log, snd multi_port_log, device)]) \<rparr>)"
  by (auto simp: warn_multi_port_def wp_simps Let_def multi_port_log_def)

subsection \<open>What a target carries\<close>

text \<open>The labels of a target are valid UTF-8, and its port is a number in decimal.\<close>

definition target_ok :: "target \<Rightarrow> bool" where
  "target_ok t \<longleftrightarrow> list_all valid_utf8 [Device t, Port t, PCIAddr t] \<and> (\<exists>p. Port t = itoa p)"

definition found_for :: "sysfs_discovery \<Rightarrow> bytes \<Rightarrow> target option \<Rightarrow> bool" where
  "found_for d name r \<longleftrightarrow>
     (case r of None \<Rightarrow> True
      | Some t \<Rightarrow> Device t = name \<and> target_ok t \<and> name \<notin> DiscoveryExclude d)"

lemma read_pci_info_valid: "satisfies (read_pci_info host path) (\<lambda>s r s'. valid_utf8 (fst r))"
  by (auto intro!: satisfiesI simp: read_pci_info_def wp_simps Let_def split: prod.splits sum.splits)

lemma target_for_found: "satisfies (target_for host d dir entry) (\<lambda>s r s'. found_for d (fst entry) r)"
proof (rule satisfiesI)
  fix s
  let ?Q = "\<lambda>r s'. found_for d (fst entry) r"
  have none: "found_for d (fst entry) None" by (simp add: found_for_def)
  have pci: "wp (read_pci_info host p) Q s" if "\<And>r s'. valid_utf8 (fst r) \<Longrightarrow> Q r s'" for p Q s
    using that by (rule satisfies_wp [OF read_pci_info_valid])
  show "wp (target_for host d dir entry) ?Q s"
    unfolding target_for_def Let_def
    by (rule wp_rules pci wp_anyI none | simp add: found_for_def target_ok_def)+
qed

definition entries_found :: "sysfs_discovery \<Rightarrow> bytes list \<Rightarrow> target list \<Rightarrow> bool" where
  "entries_found d names ts \<longleftrightarrow>
     subseq (map Device ts) names \<and> list_all (\<lambda>t. target_ok t \<and> Device t \<notin> DiscoveryExclude d) ts"

lemma entries_found_step:
  assumes "found_for d name r" and "entries_found d names new"
  shows "entries_found d (name # names) (case r of None \<Rightarrow> new | Some t \<Rightarrow> t # new)"
  using assms by (auto simp: found_for_def entries_found_def split: option.splits)

lemma discover_entries_found:
  "satisfies (discover_entries host d dir es targets)
     (\<lambda>s r s'. case r of
        Inl err \<Rightarrow> \<exists>c. err = CtxError c
      | Inr out \<Rightarrow> \<exists>new. out = targets @ new \<and> entries_found d (map fst es) new)"
proof (induction es arbitrary: targets)
  case Nil
  show ?case by (auto intro!: satisfiesI simp: wp_simps entries_found_def)
next
  case (Cons entry es)
  let ?Q = "\<lambda>r s'. case r of
        Inl err \<Rightarrow> \<exists>c. err = CtxError c
      | Inr out \<Rightarrow> \<exists>new. out = targets @ new \<and> entries_found d (map fst (entry # es)) new"
  have rest: "wp (discover_entries host d dir es (case found of None \<Rightarrow> targets | Some t \<Rightarrow> targets @ [t])) ?Q s"
    if "found_for d (fst entry) found" for found s
    by (rule satisfies_wp [OF Cons.IH])
      (use entries_found_step [OF that] in \<open>fastforce split: sum.splits option.splits\<close>)
  have found: "wp (target_for host d dir entry) Q s" if "\<And>r s'. found_for d (fst entry) r \<Longrightarrow> Q r s'" for Q s
    using that by (rule satisfies_wp [OF target_for_found])
  show ?case
    unfolding discover_entries.simps
    by (rule satisfiesI) (rule wp_rules wp_anyI found rest | simp)+
qed

text \<open>What a whole walk returns: targets in the order of their names, or an error.\<close>

definition discovered_ok :: "sysfs_discovery \<Rightarrow> target list \<Rightarrow> bool" where
  "discovered_ok d ts \<longleftrightarrow> sorted (map Device ts) \<and> distinct (map Device ts) \<and>
     list_all (\<lambda>t. target_ok t \<and> Device t \<notin> DiscoveryExclude d) ts"

lemma entries_found_ok:
  assumes "entries_found d (map fst (sorted_entries dir)) ts"
  shows "discovered_ok d ts"
proof -
  obtain N where "map Device ts = nths (map fst (sorted_entries dir)) N"
    using assms by (auto simp: entries_found_def subseq_conv_nths)
  then have "sorted (map Device ts)" "distinct (map Device ts)"
    using sorted_entries_names [of dir] by (simp_all add: sorted_nths distinct_nthsI)
  then show ?thesis using assms by (simp add: entries_found_def discovered_ok_def)
qed

lemma discover_found:
  "satisfies (discover host d)
     (\<lambda>s r s'. case r of
        Inl err \<Rightarrow> \<not> error_is err (Sentinel ErrNotExist)
      | Inr ts \<Rightarrow> discovered_ok d ts)"
proof -
  let ?Q = "\<lambda>r s'. case r of
        Inl err \<Rightarrow> \<not> error_is err (Sentinel ErrNotExist)
      | Inr ts \<Rightarrow> discovered_ok d ts"
  have walk: "wp (discover_entries host d dir (sorted_entries es) []) ?Q s" for dir es s
    by (rule satisfies_wp [OF discover_entries_found]) (auto split: sum.splits dest: entries_found_ok)
  show ?thesis
    unfolding discover_def read_dir_def Let_def
    by (rule satisfiesI)
      (auto simp: wp_simps walk discovered_ok_def map_sum_def split: prod.split option.split sum.split)
qed

subsection \<open>One walk over a file system that does not change\<close>

text \<open>A file system as a pure function of paths, and the world it is.\<close>

record static_fs =
  FsDir :: "bytes \<Rightarrow> go_error + (bytes \<times> file_type) list"
  FsIsDir :: "bytes \<Rightarrow> bool"
  FsReadlink :: "bytes \<Rightarrow> go_error + bytes"
  FsExists :: "bytes \<Rightarrow> bool"
  FsReadFile :: "bytes \<Rightarrow> go_error + bytes"

definition static_host :: "static_fs \<Rightarrow> 'w host" where
  "static_host fs =
     \<lparr> HostDir = (\<lambda>p w. (FsDir fs p, w)), HostStat = (\<lambda>p w. (Inr (FsIsDir fs p), w)),
       HostReadlink = (\<lambda>p w. (FsReadlink fs p, w)),
       HostLstat = (\<lambda>p w. (if FsExists fs p then None else Some (Sentinel ErrNotExist), w)),
       HostReadFile = (\<lambda>p w. (FsReadFile fs p, w)), HostCtxErr = (\<lambda>w. (None, w)) \<rparr>"

text \<open>What is meant to be found, without states: the entries that qualify, each with its labels.\<close>

definition entry_port :: "dir_entry \<Rightarrow> int option" where
  "entry_port entry =
     (if snd entry = FileDir then (case atoi (fst entry) of Inl err \<Rightarrow> None | Inr n \<Rightarrow> Some n) else None)"

definition dir_of :: "static_fs \<Rightarrow> bytes \<Rightarrow> dir_entry list" where
  "dir_of fs path = (case FsDir fs path of Inl err \<Rightarrow> [] | Inr es \<Rightarrow> sorted_entries es)"

definition ports_of :: "static_fs \<Rightarrow> bytes \<Rightarrow> int list" where
  "ports_of fs path = List.map_filter entry_port (dir_of fs path)"

definition net_dev_of :: "static_fs \<Rightarrow> bytes \<Rightarrow> bytes" where
  "net_dev_of fs ndevs =
     (case List.map_filter (\<lambda>entry.
         if snd entry = FileDir then None
         else case FsReadFile fs (path_join [ndevs, fst entry]) of
             Inl err \<Rightarrow> None
           | Inr content \<Rightarrow> if trim_space content = '''' then None else Some (trim_space content)) (dir_of fs ndevs) of
        [] \<Rightarrow> ''''
      | name # names \<Rightarrow> name)"

definition pci_addr_of :: "static_fs \<Rightarrow> bytes \<Rightarrow> bytes" where
  "pci_addr_of fs path =
     (case FsReadlink fs path of
        Inl err \<Rightarrow> ''''
      | Inr l \<Rightarrow> if valid_utf8 (path_base l) then path_base l else '''')"

definition target_of :: "static_fs \<Rightarrow> sysfs_discovery \<Rightarrow> bytes \<Rightarrow> dir_entry \<Rightarrow> target option" where
  "target_of fs d class_dir entry =
     (let name = fst entry; ports = ports_of fs (path_join [class_dir, name, ''ports'']) in
      if name \<notin> DiscoveryExclude d \<and>
         (snd entry = FileDir \<or> snd entry = FileSymlink \<and> FsIsDir fs (path_join [class_dir, name])) \<and>
         valid_utf8 name \<and>
         \<not> FsExists fs (path_join [path_join [class_dir, name, ''device''], ''physfn'']) \<and> ports \<noteq> []
      then Some
        \<lparr> Device = name, Port = itoa (Min (set ports)),
          PCIAddr = pci_addr_of fs (path_join [class_dir, name, ''device'']),
          NetDev = net_dev_of fs (path_join
            [path_join [class_dir, name, ''ports'', itoa (Min (set ports))], ''gid_attrs'', ''ndevs'']) \<rparr>
      else None)"

definition targets_of :: "static_fs \<Rightarrow> sysfs_discovery \<Rightarrow> go_error + target list" where
  "targets_of fs d =
     (let class_dir = path_join [DiscoveryRoot d, ''class/infiniband''] in
      case FsDir fs class_dir of
        Inl err \<Rightarrow> if error_is err (Sentinel ErrNotExist) then Inr [] else Inl err
      | Inr es \<Rightarrow> Inr (List.map_filter (target_of fs d class_dir) (sorted_entries es)))"

text \<open>Walking it returns that, whatever has been warned about before.\<close>

lemma lowest_of_ports:
  "lowest_of port n es =
     (let ports = List.map_filter entry_port es in
      (if ports = [] then port
       else if n = 0 then Min (set ports) else min port (Min (set ports)), n + length ports))"
proof (induction es arbitrary: port n)
  case (Cons entry es)
  show ?case
    by (auto simp: Cons.IH List.map_filter_simps entry_port_def Let_def min_def split: sum.split)
qed (simp add: List.map_filter_simps)

lemma static_read_dir:
  "wp (read_dir (static_host fs) path) Q s = Q (map_sum id sorted_entries (FsDir fs path)) s"
  by (simp add: read_dir_def wp_simps static_host_def)

lemma static_lowest_port:
  "wp (lowest_port (static_host fs) path) Q s =
     Q (if ports_of fs path = [] then 0 else Min (set (ports_of fs path)), length (ports_of fs path)) s"
  by (cases "FsDir fs path")
    (simp_all add: lowest_port_def wp_simps static_read_dir lowest_of_ports ports_of_def dir_of_def Let_def
      List.map_filter_simps)

lemma static_first_net_dev:
  "wp (first_net_dev (static_host fs) ndevs es) Q s =
     Q (case List.map_filter (\<lambda>entry.
         if snd entry = FileDir then None
         else case FsReadFile fs (path_join [ndevs, fst entry]) of
             Inl err \<Rightarrow> None
           | Inr content \<Rightarrow> if trim_space content = '''' then None else Some (trim_space content)) es of
        [] \<Rightarrow> ''''
      | name # names \<Rightarrow> name) s"
  by (induction es) (auto simp: wp_simps static_host_def List.map_filter_simps split: sum.split)

lemma static_net_dev:
  "wp (read_port_net_dev (static_host fs) dir) Q s =
     Q (net_dev_of fs (path_join [dir, ''gid_attrs'', ''ndevs''])) s"
  by (cases "FsDir fs (path_join [dir, ''gid_attrs'', ''ndevs''])")
    (simp_all add: read_port_net_dev_def wp_simps Let_def static_read_dir static_first_net_dev net_dev_of_def
      dir_of_def List.map_filter_simps)

lemma static_pci_info:
  "wp (read_pci_info (static_host fs) path) Q s =
     Q (pci_addr_of fs path, FsExists fs (path_join [path, ''physfn''])) s"
  by (auto simp: read_pci_info_def wp_simps static_host_def Let_def pci_addr_of_def split: sum.split)

lemma static_device_dir:
  "wp (is_device_dir (static_host fs) dir entry) Q s =
     Q (snd entry = FileDir \<or> snd entry = FileSymlink \<and> FsIsDir fs (path_join [dir, fst entry])) s"
  by (auto simp: is_device_dir_def wp_simps static_host_def)

lemma static_target:
  "wp (target_for (static_host fs) d dir entry) (\<lambda>r s'. Q r) s = Q (target_of fs d dir entry)"
  by (auto simp: target_for_def Let_def wp_simps static_device_dir static_pci_info static_lowest_port
      static_net_dev target_of_def)

lemma static_entries:
  fixes s :: "'w discovering"
  shows "wp (discover_entries (static_host fs) d dir es targets) (\<lambda>r s'. Q r) s =
     Q (Inr (targets @ List.map_filter (target_of fs d dir) es))"
proof (induction es arbitrary: targets s)
  case Nil
  show ?case by (simp add: wp_simps List.map_filter_simps)
next
  case (Cons entry es)
  have alive: "HostCtxErr (static_host fs) w = (None, w)" for w :: 'w by (simp add: static_host_def)
  have rest: "wp (discover_entries (static_host fs) d dir es ts) (\<lambda>r s'. Q r) =
      (\<lambda>s' :: 'w discovering. Q (Inr (ts @ List.map_filter (target_of fs d dir) es)))" for ts
    by (rule ext) (rule Cons.IH)
  show ?case
    by (simp add: wp_simps alive rest static_target List.map_filter_simps split: option.split)
qed

lemma discover_static_wp:
  fixes s :: "'w discovering"
  shows "wp (discover (static_host fs) d) (\<lambda>r s'. Q r) s = Q (targets_of fs d)"
proof -
  have alive: "HostCtxErr (static_host fs) w = (None, w)" for w :: 'w by (simp add: static_host_def)
  show ?thesis
    by (cases "FsDir fs (path_join [DiscoveryRoot d, ''class/infiniband''])")
      (simp_all add: discover_def wp_simps alive Let_def static_read_dir static_entries targets_of_def)
qed

subsection \<open>Repeated walks\<close>

text \<open>
  The devices a walk warns about have not been warned about before: over any number of walks
  there is one warning for each device.
\<close>

definition multi_port_warnings :: "(log_level \<times> bytes \<times> bytes) list \<Rightarrow> bytes list" where
  "multi_port_warnings records =
     map (snd \<circ> snd) (filter (\<lambda>(level, msg, device). (level, msg) = multi_port_log) records)"

lemma multi_port_warnings_simps [simp]:
  "multi_port_warnings [] = []"
  "multi_port_warnings (a @ b) = multi_port_warnings a @ multi_port_warnings b"
  "multi_port_warnings [(level, msg, device)] = (if (level, msg) = multi_port_log then [device] else [])"
  by (simp_all add: multi_port_warnings_def)

definition warned_once :: "'w discovering \<Rightarrow> bool" where
  "warned_once s \<longleftrightarrow> distinct (multi_port_warnings (DiscoveryLog s)) \<and>
     set (multi_port_warnings (DiscoveryLog s)) = WarnedMultiPort s"

definition new_discovering :: "'w \<Rightarrow> 'w discovering" where
  "new_discovering w = \<lparr> HostWorld = w, WarnedMultiPort = {}, DiscoveryLog = [] \<rparr>"

fun discover_times :: "'w host \<Rightarrow> sysfs_discovery \<Rightarrow> nat \<Rightarrow> ('w discovering, unit) state" where
  "discover_times host d 0 = State_Monad.return ()"
| "discover_times host d (Suc n) = do { ts \<leftarrow> discover host d; discover_times host d n }"

text \<open>Programs that keep it, composed.\<close>

definition keeps_warned :: "('w discovering, 'a) state \<Rightarrow> bool" where
  "keeps_warned m \<longleftrightarrow> (\<forall>s. warned_once s \<longrightarrow> wp m (\<lambda>r s'. warned_once s') s)"

named_theorems keeps_intros "programs that warn once"

lemma keepsI: "(\<And>s. warned_once s \<Longrightarrow> wp m (\<lambda>r s'. warned_once s') s) \<Longrightarrow> keeps_warned m"
  by (simp add: keeps_warned_def)

lemma keeps_return [keeps_intros]: "keeps_warned (State_Monad.return x)"
  by (auto intro!: keepsI simp: wp_simps)

lemma keeps_bind [keeps_intros]:
  "keeps_warned m \<Longrightarrow> (\<And>x. keeps_warned (f x)) \<Longrightarrow> keeps_warned (State_Monad.bind m f)"
  unfolding keeps_warned_def wp_bind by (blast intro: wp_mono)

lemma keeps_if [keeps_intros]: "keeps_warned m \<Longrightarrow> keeps_warned n \<Longrightarrow> keeps_warned (if b then m else n)"
  by simp

lemma keeps_option [keeps_intros]:
  "keeps_warned m \<Longrightarrow> (\<And>y. keeps_warned (f y)) \<Longrightarrow> keeps_warned (case x of None \<Rightarrow> m | Some y \<Rightarrow> f y)"
  by (cases x) simp_all

lemma keeps_sum [keeps_intros]:
  "(\<And>a. keeps_warned (f a)) \<Longrightarrow> (\<And>b. keeps_warned (g b)) \<Longrightarrow>
   keeps_warned (case x of Inl a \<Rightarrow> f a | Inr b \<Rightarrow> g b)"
  by (cases x) simp_all

lemma keeps_on_host [keeps_intros]: "keeps_warned (on_host f)"
  by (auto intro!: keepsI simp: wp_simps warned_once_def split: prod.split)

lemma keeps_log_device [keeps_intros]:
  "(level, msg) \<noteq> multi_port_log \<Longrightarrow> keeps_warned (log_device level msg device)"
  by (auto intro!: keepsI simp: wp_simps warned_once_def)

lemma keeps_warn [keeps_intros]: "keeps_warned (warn_multi_port device)"
  by (auto intro!: keepsI simp: wp_simps warned_once_def)

lemma keeps_first_net_dev [keeps_intros]: "keeps_warned (first_net_dev host path es)"
  by (induction es) (auto intro!: keeps_intros)

lemma keeps_target_for [keeps_intros]: "keeps_warned (target_for host d dir entry)"
  unfolding target_for_def Let_def is_device_dir_def read_pci_info_def lowest_port_def read_port_net_dev_def
    read_dir_def
  by (intro keeps_intros) (simp_all add: multi_port_log_def)

lemma keeps_entries [keeps_intros]: "keeps_warned (discover_entries host d dir es targets)"
  by (induction es arbitrary: targets) (auto intro!: keeps_intros)

lemma keeps_discover [keeps_intros]: "keeps_warned (discover host d)"
  unfolding discover_def Let_def read_dir_def by (intro keeps_intros)

lemma keeps_times: "keeps_warned (discover_times host d n)"
  by (induction n) (auto intro!: keeps_intros)

subsection \<open>Which devices are warned about\<close>

text \<open>Of the devices that are found, those with more than one port.\<close>

definition has_ports :: "static_fs \<Rightarrow> sysfs_discovery \<Rightarrow> bytes \<Rightarrow> dir_entry \<Rightarrow> bool" where
  "has_ports fs d class_dir entry \<longleftrightarrow>
     target_of fs d class_dir entry \<noteq> None \<and> 1 < length (ports_of fs (path_join [class_dir, fst entry, ''ports'']))"

definition multi_port_devices :: "static_fs \<Rightarrow> sysfs_discovery \<Rightarrow> bytes list" where
  "multi_port_devices fs d =
     (let class_dir = path_join [DiscoveryRoot d, ''class/infiniband''] in
      map fst (filter (has_ports fs d class_dir) (dir_of fs class_dir)))"

text \<open>A program that warns about the devices of a list that have not been warned about yet.\<close>

definition warns :: "bytes list \<Rightarrow> 'w discovering \<Rightarrow> 'w discovering \<Rightarrow> bool" where
  "warns names s s' \<longleftrightarrow>
     multi_port_warnings (DiscoveryLog s') =
       multi_port_warnings (DiscoveryLog s) @ filter (\<lambda>n. n \<notin> WarnedMultiPort s) names \<and>
     WarnedMultiPort s' = WarnedMultiPort s \<union> set names"

lemma warns_trans: "warns a s s' \<Longrightarrow> warns b s' s'' \<Longrightarrow> set a \<inter> set b = {} \<Longrightarrow> warns (a @ b) s s''"
  by (auto simp: warns_def intro!: filter_cong)

lemma warns_none: "warns [] s s' \<longleftrightarrow> multi_port_warnings (DiscoveryLog s') = multi_port_warnings (DiscoveryLog s) \<and>
    WarnedMultiPort s' = WarnedMultiPort s"
  by (simp add: warns_def)

lemma target_warns:
  "wp (target_for (static_host fs) d dir entry)
     (\<lambda>r s'. warns (if has_ports fs d dir entry then [fst entry] else []) s s') s"
  by (auto simp: target_for_def Let_def wp_simps static_device_dir static_pci_info static_lowest_port
      static_net_dev has_ports_def target_of_def warns_def multi_port_log_def)

lemma entries_warn:
  fixes s :: "'w discovering"
  assumes "distinct (map fst es)"
  shows "wp (discover_entries (static_host fs) d dir es targets)
     (\<lambda>r s'. warns (map fst (filter (has_ports fs d dir) es)) s s') s"
  using assms
proof (induction es arbitrary: targets s)
  case Nil
  show ?case by (simp add: wp_simps warns_none)
next
  case (Cons entry es)
  have alive: "HostCtxErr (static_host fs) w = (None, w)" for w :: 'w by (simp add: static_host_def)
  let ?first = "if has_ports fs d dir entry then [fst entry] else []"
  have rest: "wp (discover_entries (static_host fs) d dir es ts)
      (\<lambda>r s''. warns (map fst (filter (has_ports fs d dir) (entry # es))) s s'') s'"
    if "warns ?first s s'" for ts s'
  proof (rule wp_mono [OF Cons.IH])
    fix r s''
    assume "warns (map fst (filter (has_ports fs d dir) es)) s' s''"
    moreover have "fst entry \<notin> fst ` set (filter (has_ports fs d dir) es)"
      using Cons.prems filter_is_subset [of "has_ports fs d dir" es] by (metis distinct.simps(2) image_mono list.set_map list.simps(9) subsetD)
    then have "set ?first \<inter> set (map fst (filter (has_ports fs d dir) es)) = {}"
      by (cases "has_ports fs d dir entry") (simp_all del: set_filter)
    ultimately have "warns (?first @ map fst (filter (has_ports fs d dir) es)) s s''" using that by (blast intro: warns_trans)
    then show "warns (map fst (filter (has_ports fs d dir) (entry # es))) s s''" by (auto split: if_splits)
  qed (use Cons.prems in simp)
  have "wp (target_for (static_host fs) d dir entry)
      (\<lambda>r. wp (discover_entries (static_host fs) d dir es (case r of None \<Rightarrow> targets | Some t \<Rightarrow> targets @ [t]))
        (\<lambda>r s''. warns (map fst (filter (has_ports fs d dir) (entry # es))) s s'')) s"
    by (rule wp_mono [OF target_warns]) (rule rest)
  then show ?case by (simp add: wp_simps alive del: filter.simps)
qed

lemma discover_warns:
  fixes s :: "'w discovering"
  shows "wp (discover (static_host fs) d) (\<lambda>r s'. warns (multi_port_devices fs d) s s') s"
proof -
  have alive: "HostCtxErr (static_host fs) w = (None, w)" for w :: 'w by (simp add: static_host_def)
  show ?thesis
    by (cases "FsDir fs (path_join [DiscoveryRoot d, ''class/infiniband''])")
      (simp_all add: discover_def wp_simps alive Let_def static_read_dir multi_port_devices_def dir_of_def warns_none
        entries_warn sorted_entries_names)
qed

lemma warned_times:
  assumes "distinct (multi_port_devices fs d)" and "n > 0"
  shows "wp (discover_times (static_host fs) d n) (\<lambda>r s'. warns (multi_port_devices fs d) s s') s"
  using assms(2)
proof (induction n arbitrary: s)
  case (Suc n)
  let ?ms = "multi_port_devices fs d"
  have again: "warns ?ms s s''" if "warns ?ms s s'" "warns ?ms s' s''" for s' s''
    using that by (auto simp: warns_def filter_empty_conv)
  show ?case
    unfolding discover_times.simps wp_bind
  proof (rule wp_mono [OF discover_warns])
    fix r s'
    assume "warns ?ms s s'"
    then show "wp (discover_times (static_host fs) d n) (\<lambda>r s''. warns ?ms s s'') s'"
      using again by (cases "n = 0") (auto simp: wp_simps intro: wp_mono [OF Suc.IH])
  qed
qed simp

lemma multi_port_devices_distinct: "distinct (multi_port_devices fs d)"
  by (cases "FsDir fs (path_join [DiscoveryRoot d, ''class/infiniband''])")
    (simp_all add: multi_port_devices_def dir_of_def Let_def distinct_map_filter sorted_entries_names)

subsection \<open>The interface to the poller\<close>

text \<open>
  What the poller relies on: the targets of one walk differ in their names, which key the
  snapshots, and their labels are valid UTF-8, without which counting an error would panic.
\<close>

locale discoverer =
  fixes walk_devices :: "'w \<Rightarrow> (go_error + target list) \<times> 'w"
  assumes walked: "walk_devices w = (Inr ts, w') \<Longrightarrow> distinct (map Device ts) \<and> list_all target_ok ts"

interpretation sysfs: discoverer "run_state (discover host d)"
  for host :: "'w host" and d
proof
  fix w ts w'
  assume "run_state (discover host d) w = (Inr ts, w')"
  from satisfies_run [OF discover_found this] show "distinct (map Device ts) \<and> list_all target_ok ts"
    by (simp add: discovered_ok_def list_all_iff)
qed

subsection \<open>Properties\<close>

text \<open>
  C32: What a walk returns, whatever the file system answers: targets in the order of their
  names, no name twice, none excluded, all labels valid UTF-8; and a class directory that does
  not exist is never an error.
\<close>

theorem discover_well_formed:
  "satisfies (discover host d)
     (\<lambda>s r s'. case r of
        Inl err \<Rightarrow> \<not> error_is err (Sentinel ErrNotExist)
      | Inr ts \<Rightarrow> discovered_ok d ts)"
  by (rule discover_found)

text \<open>
  C15: Over a file system that does not change a walk finds exactly the directories that are not
  excluded, not virtual functions and have a port, each with its lowest port, the base name of
  its device link when that is valid UTF-8, and the first network device of the port that has
  a name.
\<close>

theorem discover_exact: "fst (run_state (discover (static_host fs) d) s) = targets_of fs d"
  using discover_static_wp [of fs d "\<lambda>r. r = targets_of fs d" s]
  by (simp add: wp_def split: prod.splits)

text \<open>
  C33: However often the devices are walked, and whatever the file system answers, a device is
  warned about at most once for its ports; and over a file system that does not change the
  warnings are exactly the devices that are found and have several ports, each of them once,
  from the first walk on.
\<close>

theorem multi_port_warned_once:
  "distinct (multi_port_warnings (DiscoveryLog (snd (run_state (discover_times host d n) (new_discovering w))))) \<and>
   multi_port_warnings (DiscoveryLog (snd (run_state (discover_times (static_host fs) d n) (new_discovering w)))) =
     (if n = 0 then [] else multi_port_devices fs d)"
proof
  have "warned_once (new_discovering w)"
    by (simp add: warned_once_def new_discovering_def)
  then have "wp (discover_times host d n) (\<lambda>r s'. warned_once s') (new_discovering w)"
    using keeps_times [of host d n] by (simp add: keeps_warned_def)
  then show "distinct (multi_port_warnings (DiscoveryLog (snd (run_state (discover_times host d n) (new_discovering w)))))"
    by (simp add: wp_def warned_once_def case_prod_unfold)
next
  have new: "multi_port_warnings (DiscoveryLog (new_discovering w)) = []" "WarnedMultiPort (new_discovering w) = {}"
    by (simp_all add: new_discovering_def)
  show "multi_port_warnings (DiscoveryLog (snd (run_state (discover_times (static_host fs) d n) (new_discovering w)))) =
     (if n = 0 then [] else multi_port_devices fs d)"
  proof (cases "n = 0")
    case False
    then have "wp (discover_times (static_host fs) d n) (\<lambda>r s'. warns (multi_port_devices fs d) (new_discovering w) s')
        (new_discovering w)"
      using warned_times [OF multi_port_devices_distinct] by blast
    then show ?thesis using False new by (simp add: wp_def warns_def case_prod_unfold)
  qed (simp add: new_discovering_def)
qed

text \<open>A host with one device of two ports and one of a single port.\<close>

definition two_port_fs :: static_fs where
  "two_port_fs =
     \<lparr> FsDir = (\<lambda>p. if p = ''/sys/class/infiniband'' then Inr [(''mlx5_1'', FileDir), (''mlx5_0'', FileDir)]
         else if p = ''/sys/class/infiniband/mlx5_0/ports'' then Inr [(''2'', FileDir), (''1'', FileDir)]
         else if p = ''/sys/class/infiniband/mlx5_1/ports'' then Inr [(''1'', FileDir)]
         else Inl (Sentinel ErrNotExist)),
       FsIsDir = (\<lambda>p. False), FsReadlink = (\<lambda>p. Inl (Sentinel ErrNotExist)), FsExists = (\<lambda>p. False),
       FsReadFile = (\<lambda>p. Inl (Sentinel ErrNotExist)) \<rparr>"

lemma multi_port_warned_once_witness:
  "multi_port_warnings (DiscoveryLog (snd (run_state
     (discover_times (static_host two_port_fs) (new_sysfs_discovery '''' []) 3) (new_discovering ())))) = [''mlx5_0'']"
proof -
  have paths: "path_join [''/sys'', ''class/infiniband''] = ''/sys/class/infiniband''" "path_clean ''/sys'' = ''/sys''"
    "path_join [''/sys/class/infiniband'', ''mlx5_0'', ''ports''] = ''/sys/class/infiniband/mlx5_0/ports''"
    "path_join [''/sys/class/infiniband'', ''mlx5_1'', ''ports''] = ''/sys/class/infiniband/mlx5_1/ports''"
    by (simp_all add: path_join_def path_clean_def has_prefix_def)
  have sorted: "sorted_entries [(''mlx5_1'', FileDir), (''mlx5_0'', FileDir)] = [(''mlx5_0'', FileDir), (''mlx5_1'', FileDir)]"
    "sorted_entries [(''2'', FileDir), (''1'', FileDir)] = [(''1'', FileDir), (''2'', FileDir)]"
    by code_simp+
  have utf8: "valid_utf8 ''mlx5_0''" "valid_utf8 ''mlx5_1''" by code_simp+
  have "itoa 1 = ''1''" "itoa 2 = ''2''" by code_simp+
  then have numbers: "atoi ''1'' = Inr 1" "atoi ''2'' = Inr 2" using atoi_itoa [of 1] atoi_itoa [of 2] by simp_all
  have ports: "ports_of two_port_fs ''/sys/class/infiniband/mlx5_0/ports'' = [1, 2]"
    "length (ports_of two_port_fs ''/sys/class/infiniband/mlx5_1/ports'') = 1"
    by (simp_all add: ports_of_def dir_of_def two_port_fs_def sorted List.map_filter_simps entry_port_def numbers,
      simp add: sorted_entries_def List.map_filter_simps entry_port_def numbers)
  have "dir_of two_port_fs ''/sys/class/infiniband'' = [(''mlx5_0'', FileDir), (''mlx5_1'', FileDir)]"
    by (simp add: dir_of_def two_port_fs_def sorted)
  moreover have "FsExists two_port_fs p = False" for p by (simp add: two_port_fs_def)
  ultimately have "multi_port_devices two_port_fs (new_sysfs_discovery '''' []) = [''mlx5_0'']"
    by (simp add: multi_port_devices_def new_sysfs_discovery_def paths Let_def has_ports_def target_of_def ports utf8)
  then show ?thesis
    using multi_port_warned_once [where host = "static_host two_port_fs" and fs = two_port_fs and n = 3 and w = "()"
      and d = "new_sysfs_discovery '''' []"] by simp
qed

end
