(* ===== verification/Poller_Run.thy ===== *)
theory Poller_Run
  imports Poller_Trace Discovery
begin

text \<open>
  The poller over its whole life. Every event of its trace is a call of its environment, so the
  promises of the runner and of the discovery, stated as their interfaces, hold of the trace;
  the invariant of the reachable states then says where each published snapshot comes from, what
  readiness means, and what the counters are incremented with.
\<close>

subsection \<open>Promises of the environment, on the trace\<close>

fun lawful :: "event \<Rightarrow> bool" where
  "lawful (Discovered (Inr ts)) \<longleftrightarrow> distinct (map Device ts) \<and> list_all target_ok ts"
| "lawful (Queried q d (Inl err)) \<longleftrightarrow> reason_from_error err \<noteq> NoReason"
| "lawful _ \<longleftrightarrow> True"

text \<open>
  Where data comes from: the answer to a query of that same device's network port, of which only
  what was asked for is kept. An answer about the PCIe link is no source of it.
\<close>

definition answered :: "event set \<Rightarrow> bytes \<Rightarrow> port_data \<Rightarrow> bool" where
  "answered G d data \<longleftrightarrow>
     (\<exists>q raw p. q \<noteq> QueryRunPCIeEye \<and> Queried q d (Inr raw) \<in> G \<and> decode raw = Inr p \<and> data = restrict_data q p)"

definition pcie_answered :: "event set \<Rightarrow> bytes \<Rightarrow> pcie_eye \<Rightarrow> bool" where
  "pcie_answered G d data \<longleftrightarrow>
     (\<exists>raw. Queried QueryRunPCIeEye d (Inr raw) \<in> G \<and> decode_pcie_eye raw = Inr data)"

text \<open>
  A snapshot of a device: it is of that device, with labels that may be exported, and its data
  is an answer, or the zero data of a device that only ever failed.
\<close>

definition genuine :: "(bytes \<Rightarrow> 'd \<Rightarrow> bool) \<Rightarrow> 'd \<Rightarrow> bytes \<Rightarrow> 'd snapshot \<Rightarrow> bool" where
  "genuine A zero_data d s \<longleftrightarrow>
     Device (SnapTarget s) = d \<and> target_ok (SnapTarget s) \<and> int64 (LastDuration s) \<and>
     (A d (SnapData s) \<or> SnapData s = zero_data \<and> LastError s \<noteq> NoReason)"

definition all_genuine :: "(bytes \<Rightarrow> 'd \<Rightarrow> bool) \<Rightarrow> 'd \<Rightarrow> 'd snapshot_set \<Rightarrow> bool" where
  "all_genuine A zero_data m \<longleftrightarrow> (\<forall>d s. m d = Some s \<longrightarrow> genuine A zero_data d s)"

definition exported_label :: "bytes \<Rightarrow> bool" where
  "exported_label l \<longleftrightarrow> (\<exists>reason \<in> exported_reasons. l = reason_string reason)"

fun event_ok :: "event set \<Rightarrow> event \<Rightarrow> bool" where
  "event_ok G (PublishedDevices m) \<longleftrightarrow> all_genuine (answered G) no_port_data m"
| "event_ok G (PublishedPCIeEye m) \<longleftrightarrow> all_genuine (pcie_answered G) no_pcie_eye m"
| "event_ok G (IncErrors labels) \<longleftrightarrow>
     length labels = 4 \<and> list_all valid_utf8 labels \<and> exported_label (last labels)"
| "event_ok G (IncPCIeEyeErrors labels) \<longleftrightarrow>
     length labels = 3 \<and> list_all valid_utf8 labels \<and> exported_label (last labels)"
| "event_ok G _ \<longleftrightarrow> True"

lemma answers_in: "(q, a) \<in> set (answers evs) \<Longrightarrow> \<exists>d. Queried q d a \<in> set evs"
proof (induction evs)
  case (Cons ev evs)
  then show ?case by (cases ev) auto
qed simp

lemma errors_in: "IncErrors labels \<in> set evs \<Longrightarrow> labels \<in> set (errors_counted evs)"
proof (induction evs)
  case (Cons ev evs)
  then show ?case by (cases ev) auto
qed simp

lemma pcie_errors_in: "IncPCIeEyeErrors labels \<in> set evs \<Longrightarrow> labels \<in> set (pcie_errors_counted evs)"
proof (induction evs)
  case (Cons ev evs)
  then show ?case by (cases ev) auto
qed simp

lemma follows_chain_queries: "follows_chain chain as \<Longrightarrow> fst ` set as \<subseteq> set chain"
  by (induction chain as rule: follows_chain.induct) (auto split: if_splits)

lemma follows_chain_nonempty: "follows_chain chain as \<Longrightarrow> as \<noteq> []"
  by (cases as; cases chain) simp_all

lemma decode_ok: "decode raw = Inr p \<Longrightarrow> port_data_ok p"
  by (cases "decode_output raw") (auto simp: decode_def decode_port_ok dest: decode_output_valid)

lemma decode_pcie_ok: "decode_pcie_eye raw = Inr e \<Longrightarrow> pcie_eye_ok e"
  by (cases "decode_output raw") (auto simp: decode_pcie_eye_def decode_eye_both_ok)

lemma restrict_data_ok: "port_data_ok p \<Longrightarrow> port_data_ok (restrict_data q p)"
  by (cases q) (simp_all add: port_data_ok_def fec_ok_def zero_values_ok)

lemma answered_ok: "answered G d data \<Longrightarrow> port_data_ok data"
  by (auto simp: answered_def intro: restrict_data_ok decode_ok)

lemma outcome_reason:
  "outcome (q, a) = Inl reason \<Longrightarrow> lawful (Queried q d a) \<Longrightarrow> reason \<noteq> NoReason"
  by (cases a) (auto split: sum.splits)

lemma pcie_outcome_reason:
  "pcie_outcome a = Inl reason \<Longrightarrow> lawful (Queried q d a) \<Longrightarrow> reason \<noteq> NoReason"
  by (cases a) (auto split: sum.splits)

text \<open>A collection makes a genuine snapshot of a genuine one, or of none.\<close>

lemma device_trace_genuine:
  assumes tr: "device_trace show_eye t old evs (Some new)" and law: "list_all lawful evs"
    and sub: "set evs \<subseteq> G" and t: "target_ok t" "SnapTarget old = t"
    and old: "answered G (Device t) (SnapData old) \<or> SnapData old = no_port_data"
  shows "genuine (answered G) no_port_data (Device t) new"
proof -
  obtain q a where last: "last (answers evs) = (q, a)" by fastforce
  have "answers evs \<noteq> []" using tr follows_chain_nonempty by (auto simp: device_trace_def)
  then have "(q, a) \<in> set (answers evs)" using last by (metis last_in_set)
  moreover have "fst ` set (answers evs) \<subseteq> set (device_chain show_eye)"
    using tr follows_chain_queries by (auto simp: device_trace_def)
  ultimately have q: "q \<noteq> QueryRunPCIeEye" by (force simp: device_chain_def split: if_splits)
  obtain d where d: "Queried q d a \<in> set evs" using answers_in \<open>(q, a) \<in> set (answers evs)\<close> by blast
  then have ev: "d = Device t" "lawful (Queried q d a)" "Queried q d a \<in> G"
    using tr law sub by (auto simp: device_trace_def list_all_iff)
  obtain start now where new: "new = updated start now old (outcome (q, a))"
    using tr last by (auto simp: device_trace_def)
  show ?thesis
  proof (cases "outcome (q, a)")
    case (Inl reason)
    then show ?thesis
      using old t ev outcome_reason [OF Inl] by (auto simp: new genuine_def updated_def)
  next
    case (Inr data)
    then obtain raw p where "a = Inr raw" "decode raw = Inr p" "data = restrict_data q p"
      by (cases a) (auto split: sum.splits)
    then have "answered G (Device t) data" using ev q by (auto simp: answered_def)
    then show ?thesis using Inr t by (simp add: new genuine_def updated_def)
  qed
qed

lemma pcie_trace_genuine:
  assumes tr: "pcie_trace t old evs (Some new)" and law: "list_all lawful evs"
    and sub: "set evs \<subseteq> G" and t: "target_ok t" "SnapTarget old = t"
    and old: "pcie_answered G (Device t) (SnapData old) \<or> SnapData old = no_pcie_eye"
  shows "genuine (pcie_answered G) no_pcie_eye (Device t) new"
proof -
  obtain a start now where a: "answers evs = [(QueryRunPCIeEye, a)]" "new = updated start now old (pcie_outcome a)"
    using tr by (auto simp: pcie_trace_def)
  then obtain d where d: "Queried QueryRunPCIeEye d a \<in> set evs" using answers_in by fastforce
  then have ev: "d = Device t" "lawful (Queried QueryRunPCIeEye d a)" "Queried QueryRunPCIeEye d a \<in> G"
    using tr law sub by (auto simp: pcie_trace_def list_all_iff)
  show ?thesis
  proof (cases "pcie_outcome a")
    case (Inl reason)
    then show ?thesis
      using old t ev pcie_outcome_reason [OF Inl] by (auto simp: a(2) genuine_def updated_def)
  next
    case (Inr data)
    then obtain raw where "a = Inr raw" "decode_pcie_eye raw = Inr data"
      by (cases a) (auto split: sum.splits)
    then have "pcie_answered G (Device t) data" using ev by (auto simp: pcie_answered_def)
    then show ?thesis using Inr t by (simp add: a(2) genuine_def updated_def)
  qed
qed

lemma failure_reasons: "reason \<in> set (failures as) \<Longrightarrow> \<exists>a \<in> set as. outcome a = Inl reason"
  by (auto simp: failures_def split: sum.splits)

lemma device_trace_events:
  assumes tr: "device_trace show_eye t old evs r" and law: "list_all lawful evs" and t: "target_ok t"
  shows "list_all (event_ok G) evs"
  unfolding list_all_iff
proof
  fix ev
  assume ev: "ev \<in> set evs"
  then have dev: "device_event t ev" using tr by (auto simp: device_trace_def list_all_iff)
  have label: "\<exists>reason. labels = error_labels t reason \<and> reason \<noteq> NoReason" if "ev = IncErrors labels" for labels
  proof -
    have "labels \<in># mset (errors_counted evs)" using errors_in ev that by simp
    moreover have "mset (errors_counted evs) \<subseteq># mset (map (error_labels t) (failures (answers evs)))"
      using tr by (auto simp: device_trace_def split: option.splits)
    ultimately have "labels \<in># mset (map (error_labels t) (failures (answers evs)))"
      by (rule mset_subset_eqD [rotated])
    then obtain reason q a where ra: "labels = error_labels t reason" "(q, a) \<in> set (answers evs)"
      "outcome (q, a) = Inl reason"
      using failure_reasons by fastforce
    then obtain d where "Queried q d a \<in> set evs" using answers_in by blast
    then show ?thesis using ra law outcome_reason [OF ra(3)] by (auto simp: list_all_iff)
  qed
  show "event_ok G ev"
  proof (cases ev)
    case (IncErrors labels)
    with label obtain reason where "labels = error_labels t reason" "reason \<noteq> NoReason" by blast
    then show ?thesis
      using t IncErrors by (auto simp: error_labels_def target_ok_def exported_label_def exported_reasons_iff)
  qed (use dev in auto)
qed

lemma pcie_trace_events:
  assumes tr: "pcie_trace t old evs r" and law: "list_all lawful evs" and t: "target_ok t"
  shows "list_all (event_ok G) evs"
  unfolding list_all_iff
proof
  fix ev
  assume ev: "ev \<in> set evs"
  then have dev: "pcie_event t ev" using tr by (auto simp: pcie_trace_def list_all_iff)
  have label: "\<exists>reason. labels = [Device t, PCIAddr t, reason_string reason] \<and> reason \<noteq> NoReason"
    if "ev = IncPCIeEyeErrors labels" for labels
  proof -
    have l: "labels \<in> set (pcie_errors_counted evs)" using pcie_errors_in ev that by simp
    then obtain a where a: "answers evs = [(QueryRunPCIeEye, a)]"
      "pcie_errors_counted evs = (case pcie_outcome a of
         Inl reason \<Rightarrow> [[Device t, PCIAddr t, reason_string reason]] | Inr data \<Rightarrow> [])"
      using tr by (auto simp: pcie_trace_def split: option.splits)
    then obtain reason where r: "pcie_outcome a = Inl reason" "labels = [Device t, PCIAddr t, reason_string reason]"
      using l by (auto split: sum.splits)
    obtain d where "Queried QueryRunPCIeEye d a \<in> set evs" using a(1) answers_in by fastforce
    then show ?thesis using r law pcie_outcome_reason [OF r(1)] by (auto simp: list_all_iff)
  qed
  show "event_ok G ev"
  proof (cases ev)
    case (IncPCIeEyeErrors labels)
    with label obtain reason where "labels = [Device t, PCIAddr t, reason_string reason]" "reason \<noteq> NoReason" by blast
    then show ?thesis
      using t IncPCIeEyeErrors by (auto simp: target_ok_def exported_label_def exported_reasons_iff)
  qed (use dev in auto)
qed

lemma all_genuine_update:
  "all_genuine A z m \<Longrightarrow> genuine A z d s \<Longrightarrow> all_genuine A z (m(d \<mapsto> s))"
  by (auto simp: all_genuine_def)

lemma swept_ok:
  assumes "swept C P ts working evs completed"
    and "\<And>t evs r. t \<in> set ts \<Longrightarrow> C t evs r \<Longrightarrow> list_all lawful evs \<Longrightarrow> list_all (event_ok G) evs"
    and "\<And>t evs new. t \<in> set ts \<Longrightarrow> C t evs (Some new) \<Longrightarrow> list_all lawful evs \<Longrightarrow> set evs \<subseteq> G \<Longrightarrow>
      genuine A z (Device t) new"
    and "\<And>m new. all_genuine A z m \<Longrightarrow> list_all (event_ok G) (P m new)"
    and "all_genuine A z working" and "list_all lawful evs" and "set evs \<subseteq> G"
  shows "list_all (event_ok G) evs"
  using assms
proof (induction C P ts working evs completed rule: swept.induct)
  case (2 C P t ts working evs completed)
  from "2.prems"(1) consider "C t evs None"
    | a new b where "evs = a @ P (working(Device t \<mapsto> new)) new @ b" "C t a (Some new)"
      "swept C P ts (working(Device t \<mapsto> new)) b completed"
    by (auto simp del: fun_upd_apply)
  then show ?case
  proof cases
    case 1
    then show ?thesis using "2.prems"(2) "2.prems"(6) by (meson list.set_intros(1))
  next
    case (2 a new b)
    let ?m = "working(Device t \<mapsto> new)"
    have parts: "list_all lawful a" "list_all lawful b" "set a \<subseteq> G" "set b \<subseteq> G"
      using "2.prems"(6,7) 2(1) by (auto simp: list_all_iff)
    have a: "list_all (event_ok G) a"
      by (rule "2.prems"(2) [OF _ 2(2) parts(1)]) simp
    have "genuine A z (Device t) new"
      by (rule "2.prems"(3) [OF _ 2(2) parts(1,3)]) simp
    then have m: "all_genuine A z ?m" by (rule all_genuine_update [OF "2.prems"(5)])
    have "list_all (event_ok G) b"
      by (rule "2.IH" [OF 2(3) "2.prems"(2,3,4) m parts(2,4)]) simp_all
    then show ?thesis using a "2.prems"(4) [OF m] 2(1) by (simp del: fun_upd_apply)
  qed
qed simp

definition store_genuine :: "(bytes \<Rightarrow> 'd \<Rightarrow> bool) \<Rightarrow> 'd \<Rightarrow> 'd snapshot_set option \<Rightarrow> bool" where
  "store_genuine A zero_data store \<longleftrightarrow> (\<forall>m. store = Some m \<longrightarrow> all_genuine A zero_data m)"

lemma store_genuine_simps [simp]:
  "store_genuine A z None" "store_genuine A z (Some m) = all_genuine A z m"
  by (simp_all add: store_genuine_def)

lemma carried_data:
  "store_genuine A z previous \<Longrightarrow> A (Device t) (SnapData (carried z previous t)) \<or> SnapData (carried z previous t) = z"
  by (auto simp: store_genuine_def all_genuine_def genuine_def carried_def lookup_or_zero_def
      snapshot_lookup_def zero_snapshot_def split: option.splits)

lemma walk_ok:
  assumes w: "walk C P publication previous targets evs completed"
    and "\<And>t evs r. t \<in> set targets \<Longrightarrow> C t evs r \<Longrightarrow> list_all lawful evs \<Longrightarrow> list_all (event_ok G) evs"
    and "\<And>t evs new. t \<in> set targets \<Longrightarrow> C t evs (Some new) \<Longrightarrow> list_all lawful evs \<Longrightarrow> set evs \<subseteq> G \<Longrightarrow>
      genuine A z (Device t) new"
    and "\<And>m new. all_genuine A z m \<Longrightarrow> list_all (event_ok G) (P m new)" and "event_ok G (publication Map.empty)"
    and "store_genuine A z previous" and "list_all lawful evs" and "set evs \<subseteq> G"
  shows "list_all (event_ok G) evs"
proof (cases "targets = []")
  case False
  have seed: "all_genuine A z (\<lambda>d. if d \<in> set (map Device targets) then snapshot_lookup previous d else None)"
    using assms(6) by (auto simp: store_genuine_def all_genuine_def snapshot_lookup_def split: option.splits)
  show ?thesis
    by (rule swept_ok [OF w [unfolded walk_nonempty [OF False]] _ _ _ seed assms(7,8)]) (fact assms(2-4))+
qed (use assms(1,5) in \<open>simp add: walk_def\<close>)

lemma device_walk_ok:
  assumes "device_walk show_eye previous targets evs completed" and "list_all target_ok targets"
    and "store_genuine (answered G) no_port_data previous" and "list_all lawful evs" and "set evs \<subseteq> G"
  shows "list_all (event_ok G) evs"
proof (rule walk_ok [OF assms(1) [unfolded device_walk_def] _ _ _ _ assms(3-5)])
  fix t evs r
  assume t: "t \<in> set targets" "device_trace show_eye t (carried no_port_data previous t) evs r" "list_all lawful evs"
  then show "list_all (event_ok G) evs" using device_trace_events assms(2) by (auto simp: list_all_iff)
next
  fix t evs new
  assume t: "t \<in> set targets" "device_trace show_eye t (carried no_port_data previous t) evs (Some new)"
    "list_all lawful evs" "set evs \<subseteq> G"
  then show "genuine (answered G) no_port_data (Device t) new"
    using device_trace_genuine [OF t(2-4)] carried_data [OF assms(3)] assms(2) by (auto simp: list_all_iff)
qed (simp_all add: device_publication_def all_genuine_def)

lemma pcie_walk_ok:
  assumes "pcie_walk previous targets evs completed" and "list_all target_ok targets"
    and "store_genuine (pcie_answered G) no_pcie_eye previous" and "list_all lawful evs" and "set evs \<subseteq> G"
  shows "list_all (event_ok G) evs"
proof (rule walk_ok [OF assms(1) [unfolded pcie_walk_def] _ _ _ _ assms(3-5)])
  fix t evs r
  assume t: "t \<in> set targets" "pcie_trace t (carried no_pcie_eye previous t) evs r" "list_all lawful evs"
  then show "list_all (event_ok G) evs" using pcie_trace_events assms(2) by (auto simp: list_all_iff)
next
  fix t evs new
  assume t: "t \<in> set targets" "pcie_trace t (carried no_pcie_eye previous t) evs (Some new)"
    "list_all lawful evs" "set evs \<subseteq> G"
  then show "genuine (pcie_answered G) no_pcie_eye (Device t) new"
    using pcie_trace_genuine [OF t(2-4)] carried_data [OF assms(3)] assms(2) by (auto simp: list_all_iff)
qed (simp_all add: pcie_publication_def all_genuine_def)

lemma sweep_trace_ok:
  assumes tr: "sweep_trace show_eye show_pcie previous previous_pcie evs"
    and stores: "store_genuine (answered G) no_port_data previous" "store_genuine (pcie_answered G) no_pcie_eye previous_pcie"
    and law: "list_all lawful evs" and sub: "set evs \<subseteq> G"
  shows "list_all (event_ok G) evs"
  using tr
proof (cases rule: sweep_traceE)
  case (failed err e)
  then show ?thesis by simp
next
  case (network targets a completed)
  then show ?thesis using device_walk_ok [OF network(2) _ stores(1)] law sub by simp
next
  case (both targets a b ok)
  then show ?thesis using device_walk_ok [OF both(2) _ stores(1)] pcie_walk_ok [OF both(4) _ stores(2)] law sub
    by simp
qed

lemma store_genuine_after:
  "list_all (event_ok G) evs \<Longrightarrow> store_genuine (answered G) no_port_data m \<Longrightarrow>
   store_genuine (answered G) no_port_data (foldl store_after m evs)"
proof (induction evs arbitrary: m)
  case (Cons ev evs)
  then show ?case by (cases ev) simp_all
qed simp

lemma pcie_store_genuine_after:
  "list_all (event_ok G) evs \<Longrightarrow> store_genuine (pcie_answered G) no_pcie_eye m \<Longrightarrow>
   store_genuine (pcie_answered G) no_pcie_eye (foldl pcie_store_after m evs)"
proof (induction evs arbitrary: m)
  case (Cons ev evs)
  then show ?case by (cases ev) simp_all
qed simp

lemma event_ok_mono: "event_ok G ev \<Longrightarrow> G \<subseteq> G' \<Longrightarrow> event_ok G' ev"
  by (cases ev) (fastforce simp: all_genuine_def genuine_def answered_def pcie_answered_def)+

subsection \<open>Readiness\<close>

definition succeeded :: "port_data snapshot_set \<Rightarrow> bool" where
  "succeeded m \<longleftrightarrow> (\<exists>d s. m d = Some s \<and> LastError s = NoReason)"

lemma store_after_sets:
  "foldl store_after m evs = (if device_sets evs = [] then m else Some (last (device_sets evs)))"
proof (induction evs arbitrary: m)
  case (Cons ev evs)
  then show ?case by (cases ev) auto
qed simp

text \<open>Readiness is announced exactly when a published set shows a success.\<close>

lemma swept_ready:
  assumes "swept (\<lambda>t. device_trace show_eye t (old t)) device_publication ts working evs completed"
    and "succeeded working \<longrightarrow> R"
  shows "(R \<or> ReadySet \<in> set evs) = (R \<or> list_ex succeeded (device_sets evs))"
  using assms
proof (induction ts arbitrary: working evs R)
  case (Cons t ts)
  let ?C = "\<lambda>t. device_trace show_eye t (old t)"
  from Cons.prems(1) consider "?C t evs None"
    | a new b where "evs = a @ device_publication (working(Device t \<mapsto> new)) new @ b" "?C t a (Some new)"
      "swept ?C device_publication ts (working(Device t \<mapsto> new)) b completed"
    by (auto simp del: fun_upd_apply)
  then show ?case
  proof cases
    case 1
    then show ?thesis
      using no_publication [OF device_trace_quiet [OF 1]] device_sets_none [OF device_trace_quiet [OF 1]] by simp
  next
    case (2 a new b)
    let ?m = "working(Device t \<mapsto> new)" and ?R = "R \<or> LastError new = NoReason"
    have m: "succeeded ?m \<longrightarrow> ?R" "LastError new = NoReason \<longrightarrow> succeeded ?m"
      using Cons.prems(2) by (auto simp: succeeded_def split: if_splits)
    have a: "ReadySet \<notin> set a" "device_sets a = []"
      using no_publication [OF device_trace_quiet [OF 2(2)]] device_sets_none [OF device_trace_quiet [OF 2(2)]]
      by simp_all
    show ?thesis
      using Cons.IH [OF 2(3) m(1)] m a 2(1) by (auto simp: device_publication_def simp del: fun_upd_apply)
  qed
qed simp

lemma device_walk_ready:
  assumes w: "device_walk show_eye previous targets evs completed"
    and "\<forall>m. previous = Some m \<longrightarrow> succeeded m \<longrightarrow> R"
  shows "(R \<or> ReadySet \<in> set evs) = (R \<or> list_ex succeeded (device_sets evs))"
proof (cases "targets = []")
  case True
  then show ?thesis using w by (simp add: device_walk_def walk_def succeeded_def)
next
  case False
  have "succeeded (\<lambda>d. if d \<in> set (map Device targets) then snapshot_lookup previous d else None) \<longrightarrow> R"
    using assms(2) by (auto simp: succeeded_def snapshot_lookup_def split: option.splits if_splits)
  then show ?thesis by (rule swept_ready [OF w [unfolded device_walk_def walk_nonempty [OF False]]])
qed

lemma sweep_trace_ready:
  assumes "sweep_trace show_eye show_pcie previous previous_pcie evs"
    and "\<forall>m. previous = Some m \<longrightarrow> succeeded m \<longrightarrow> R"
  shows "(R \<or> ReadySet \<in> set evs) = (R \<or> list_ex succeeded (device_sets evs))"
  using assms(1)
proof (cases rule: sweep_traceE)
  case (failed err e)
  then show ?thesis by simp
next
  case (network targets a completed)
  then show ?thesis using device_walk_ready [OF network(2) assms(2)] by simp
next
  case (both targets a b ok)
  then show ?thesis
    using device_walk_ready [OF both(2) assms(2)] pcie_keeps_network [OF pcie_walk_only [OF both(4)]]
      pcie_only_sets [OF pcie_walk_only [OF both(4)]] by simp
qed

subsection \<open>Sweeps and overlaps\<close>

definition sweeps_begun :: "event list \<Rightarrow> nat" where
  "sweeps_begun evs = length (filter (\<lambda>ev. case ev of Discovered found \<Rightarrow> True | _ \<Rightarrow> False) evs)"

definition overlaps_counted :: "event list \<Rightarrow> nat" where
  "overlaps_counted evs = length (filter (\<lambda>ev. ev = IncOverlaps) evs)"

lemma tally_append [simp]:
  "sweeps_begun (a @ b) = sweeps_begun a + sweeps_begun b"
  "overlaps_counted (a @ b) = overlaps_counted a + overlaps_counted b"
  by (simp_all add: sweeps_begun_def overlaps_counted_def)

lemma seen_tally [simp]:
  "sweeps_begun [] = 0" "overlaps_counted [] = 0"
  "sweeps_begun (CtxSeen e # evs) = sweeps_begun evs" "overlaps_counted (CtxSeen e # evs) = overlaps_counted evs"
  by (simp_all add: sweeps_begun_def overlaps_counted_def)

lemma walks_tally:
  "list_all network_event evs \<Longrightarrow> sweeps_begun evs = 0 \<and> overlaps_counted evs = 0"
  "list_all pcie_only_event evs \<Longrightarrow> sweeps_begun evs = 0 \<and> overlaps_counted evs = 0"
  by (induction evs) (auto simp: sweeps_begun_def overlaps_counted_def split: event.splits)

lemma sweep_trace_tally:
  assumes "sweep_trace show_eye show_pcie previous previous_pcie evs"
  shows "sweeps_begun evs = 1 \<and> overlaps_counted evs = 0"
proof -
  have start: "sweeps_begun (Discovered found # evs) = Suc (sweeps_begun evs)"
    "overlaps_counted (Discovered found # evs) = overlaps_counted evs" for found evs
    by (simp_all add: sweeps_begun_def overlaps_counted_def)
  from assms show ?thesis
  proof (cases rule: sweep_traceE)
    case (failed err e)
    then show ?thesis by (simp add: sweeps_begun_def overlaps_counted_def)
  next
    case (network targets a completed)
    then show ?thesis using walks_tally(1) [OF device_walk_network [OF network(2)]] by (simp add: start)
  next
    case (both targets a b ok)
    then show ?thesis
      using walks_tally(1) [OF device_walk_network [OF both(2)]] walks_tally(2) [OF pcie_walk_only [OF both(4)]]
      by (simp add: start)
  qed
qed

subsection \<open>The invariant\<close>

text \<open>The state follows the trace, and the trace is sound.\<close>

definition sound :: "'w poller \<Rightarrow> bool" where
  "sound s \<longleftrightarrow> advanced (Trace s) (new_poller (World s)) s \<and> list_all lawful (Trace s) \<and>
     list_all (event_ok (set (Trace s))) (Trace s) \<and>
     (ReadySet \<in> set (Trace s)) = list_ex succeeded (device_sets (Trace s))"

lemma sound_world [simp]: "sound (s\<lparr> World := w \<rparr>) = sound s"
  by (simp add: sound_def advanced_def new_poller_def)

lemma sound_init: "sound (new_poller w)"
  by (simp add: sound_def advanced_def new_poller_def)

lemma sound_extend:
  assumes s: "sound s" and adv: "advanced evs s s'" and law: "list_all lawful evs"
    and ok: "list_all (event_ok (set (Trace s'))) evs"
    and ready: "\<And>R. (\<forall>m. Store s = Some m \<longrightarrow> succeeded m \<longrightarrow> R) \<Longrightarrow>
      (R \<or> ReadySet \<in> set evs) = (R \<or> list_ex succeeded (device_sets evs))"
  shows "sound s'"
proof -
  have tr: "Trace s' = Trace s @ evs" using adv by (simp add: advanced_def)
  have adv': "advanced (Trace s') (new_poller (World s')) s'"
    using s adv by (auto simp: sound_def advanced_def new_poller_def)
  have old: "list_all (event_ok (set (Trace s'))) (Trace s)"
    using s tr event_ok_mono [of "set (Trace s)" _ "set (Trace s')"] by (auto simp: sound_def list_all_iff)
  have "succeeded m \<longrightarrow> list_ex succeeded (device_sets (Trace s))" if "Store s = Some m" for m
    using s that by (auto simp: sound_def advanced_def new_poller_def store_after_sets list_ex_iff split: if_splits)
  from ready [of "list_ex succeeded (device_sets (Trace s))"] this
  show ?thesis using adv' old ok s law tr by (auto simp: sound_def)
qed

text \<open>Events that leave the stores alone.\<close>

fun plain :: "event \<Rightarrow> bool" where
  "plain (CtxSeen e) \<longleftrightarrow> True"
| "plain IncOverlaps \<longleftrightarrow> True"
| "plain (Logged level msg) \<longleftrightarrow> True"
| "plain _ \<longleftrightarrow> False"

lemma plain_events:
  "list_all plain evs \<Longrightarrow> list_all (\<lambda>ev. \<not> publishes ev) evs \<and> list_all lawful evs \<and> list_all (event_ok G) evs"
proof (induction evs)
  case (Cons ev evs)
  then show ?case by (cases ev) auto
qed simp

lemma sound_plain:
  assumes s: "sound s" and adv: "advanced evs s s'" and p: "list_all plain evs"
  shows "sound s'"
  using plain_events [OF p] no_publication [of evs] device_sets_none [of evs]
  by (intro sound_extend [OF s adv]) simp_all

lemma ctx_err_leaves: "satisfies (ctx_err env) (leaves (\<lambda>evs e. evs = [CtxSeen e]))"
  by (auto intro!: satisfiesI simp: ctx_err_def wp_simps leaves_def advanced_def split: prod.split)

lemma drain_leaves:
  "satisfies (drain_ticks env)
     (leaves (\<lambda>evs u. list_all plain evs \<and> sweeps_begun evs = 0 \<and> overlaps_counted evs \<le> 1))"
  by (auto intro!: satisfiesI
      simp: drain_ticks_def poller_ops wp_simps leaves_def advanced_def sweeps_begun_def overlaps_counted_def
      split: prod.split)

locale poller_client =
  command_runner "EnvQuery env" + discoverer "EnvDiscover env" for env :: "'w poller_env"
begin

lemma event_lawful: "event_from env ev \<Longrightarrow> lawful ev"
  by (cases ev rule: lawful.cases) (auto dest: failure_reason walked)

lemma sweep_lawful:
  assumes "run_state (sweep env) s = (u, s')" and "Trace s' = Trace s @ evs"
  shows "list_all lawful evs"
  using leaving_run [OF from_env.leaving_sweep assms] event_lawful by (auto simp: list_all_iff)

lemma sweep_sound:
  assumes s: "sound s" and run: "run_state (sweep env) s = (u, s')"
  obtains evs where "advanced evs s s'" "sound s'" "sweeps_begun evs = 1" "overlaps_counted evs = 0"
proof -
  obtain evs where adv: "advanced evs s s'"
    and tr: "sweep_trace (ShowEye env) (ShowPCIeEye env) (Store s) (PCIeEyeStore s) evs"
    using satisfies_run [OF sweep_leaves run] by (auto simp: sweep_refined_def leaves_def)
  have law: "list_all lawful evs"
    using sweep_lawful [OF run] adv by (simp add: advanced_def)
  have sub: "set evs \<subseteq> set (Trace s')" using adv by (auto simp: advanced_def)
  have old: "list_all (event_ok (set (Trace s'))) (Trace s)"
    using s adv event_ok_mono [of "set (Trace s)" _ "set (Trace s')"]
    by (auto simp: sound_def advanced_def list_all_iff)
  have st: "Store s = foldl store_after None (Trace s)" "PCIeEyeStore s = foldl pcie_store_after None (Trace s)"
    using s by (simp_all add: sound_def advanced_def new_poller_def)
  have stores: "store_genuine (answered (set (Trace s'))) no_port_data (Store s)"
    "store_genuine (pcie_answered (set (Trace s'))) no_pcie_eye (PCIeEyeStore s)"
    unfolding st using store_genuine_after [OF old] pcie_store_genuine_after [OF old] by simp_all
  have "sound s'"
    using sound_extend [OF s adv law sweep_trace_ok [OF tr stores law sub]] sweep_trace_ready [OF tr] by blast
  with adv sweep_trace_tally [OF tr] show ?thesis using that by blast
qed

lemma tick_sound:
  assumes s: "sound s" and run: "run_state (tick_step env) s = (u, s')"
  obtains evs where "advanced evs s s'" "sound s'" "sweeps_begun evs = 1" "overlaps_counted evs \<le> 1"
proof -
  obtain s1 where s1: "run_state (sweep env) s = ((), s1)" "run_state (drain_ticks env) s1 = (u, s')"
    using run by (auto simp: tick_step_def run_state_bind split: prod.splits)
  obtain a where a: "advanced a s s1" "sound s1" "sweeps_begun a = 1" "overlaps_counted a = 0"
    using sweep_sound [OF s s1(1)] by blast
  obtain b where b: "advanced b s1 s'" "list_all plain b" "sweeps_begun b = 0" "overlaps_counted b \<le> 1"
    using satisfies_run [OF drain_leaves s1(2)] by (auto simp: leaves_def)
  show ?thesis
    using that [OF advanced_trans [OF a(1) b(1)] sound_plain [OF a(2) b(1,2)]] a b by simp
qed

end

subsection \<open>The reachable states\<close>

fun run_inv :: "run_phase \<times> 'w poller \<Rightarrow> bool" where
  "run_inv (Starting, s) \<longleftrightarrow> sound s \<and> Trace s = []"
| "run_inv (Selecting, s) \<longleftrightarrow> sound s \<and> overlaps_counted (Trace s) < sweeps_begun (Trace s)"
| "run_inv (Returned, s) \<longleftrightarrow> sound s \<and> Trace s \<noteq> [] \<and> dead (last (Trace s)) \<and>
     overlaps_counted (Trace s) \<le> sweeps_begun (Trace s)"

context poller_client begin

lemma ctx_sound:
  assumes "sound s" and "run_state (ctx_err env) s = (e, s')"
  shows "sound s' \<and> Trace s' = Trace s @ [CtxSeen e]"
proof -
  have adv: "advanced [CtxSeen e] s s'"
    using satisfies_run [OF ctx_err_leaves assms(2)] by (auto simp: leaves_def)
  then show ?thesis using sound_plain [OF assms(1) adv] by (simp add: advanced_def)
qed

lemma run_step_inv:
  assumes "run_step env idle x y" and "run_inv x"
  shows "run_inv y"
  using assms
proof (cases rule: run_step.cases)
  case (start_cancelled s e s')
  then show ?thesis using assms(2) ctx_sound [of s "Some e" s'] by simp
next
  case (start_sweep s s1 u s')
  then have s1: "sound s1" "Trace s1 = [CtxSeen None]" using assms(2) ctx_sound [of s None s1] by simp_all
  obtain evs where "advanced evs s1 s'" "sound s'" "sweeps_begun evs = 1" "overlaps_counted evs = 0"
    by (rule sweep_sound [OF s1(1) start_sweep(4)])
  then show ?thesis using start_sweep s1(2) by (simp add: advanced_def)
next
  case (waiting phase s w)
  then show ?thesis using assms(2) by (cases phase) simp_all
next
  case (tick s w u s')
  then have s: "sound (s\<lparr> World := w \<rparr>)" using assms(2) by simp
  obtain evs where "advanced evs (s\<lparr> World := w \<rparr>) s'" "sound s'" "sweeps_begun evs = 1" "overlaps_counted evs \<le> 1"
    by (rule tick_sound [OF s tick(4)])
  then show ?thesis using tick assms(2) by (simp add: advanced_def)
next
  case (cancelled s e s')
  then show ?thesis using assms(2) ctx_sound [of s "Some e" s'] by simp
qed

lemma run_invariant: "run_reachable env idle w0 x \<Longrightarrow> run_inv x"
proof (induction rule: run_reachable.induct)
  case run_init
  show ?case using sound_init by (simp add: new_poller_def)
qed (rule run_step_inv)

lemma reachable_sound: "run_reachable env idle w0 (ph, s) \<Longrightarrow> sound s"
  using run_invariant by (cases ph) fastforce+

lemma reachable_ready: "run_reachable env idle w0 (ph, s) \<Longrightarrow> Ready s = list_ex succeeded (device_sets (Trace s))"
  using reachable_sound by (fastforce simp: sound_def advanced_def new_poller_def)

text \<open>The stores as they were after the first events of the trace, and so at any moment.\<close>

lemma reachable_stores:
  assumes "run_reachable env idle w0 (ph, s)"
  shows "store_genuine (answered (set (Trace s))) no_port_data (foldl store_after None (take n (Trace s)))"
    "store_genuine (pcie_answered (set (Trace s))) no_pcie_eye (foldl pcie_store_after None (take n (Trace s)))"
proof -
  have "list_all (event_ok (set (Trace s))) (take n (Trace s))"
    using reachable_sound [OF assms] by (auto simp: sound_def list_all_iff dest: in_set_takeD)
  then show "store_genuine (answered (set (Trace s))) no_port_data (foldl store_after None (take n (Trace s)))"
    "store_genuine (pcie_answered (set (Trace s))) no_pcie_eye (foldl pcie_store_after None (take n (Trace s)))"
    using store_genuine_after pcie_store_genuine_after by simp_all
qed

lemma reachable_replays:
  "run_reachable env idle w0 (ph, s) \<Longrightarrow>
   foldl store_after None (Trace s) = Store s \<and> foldl pcie_store_after None (Trace s) = PCIeEyeStore s"
  using reachable_sound [of idle w0 ph s] by (simp add: sound_def advanced_def new_poller_def)

lemma reachable_event: "run_reachable env idle w0 (ph, s) \<Longrightarrow> ev \<in> set (Trace s) \<Longrightarrow> event_ok (set (Trace s)) ev"
  using reachable_sound [of idle w0 ph s] by (simp add: sound_def list_all_iff)

lemma reachable_overlaps: "run_reachable env idle w0 (ph, s) \<Longrightarrow> overlaps_counted (Trace s) \<le> sweeps_begun (Trace s)"
  using run_invariant [of idle w0 "(ph, s)"] by (cases ph) (simp_all add: overlaps_counted_def)

end

end
