(* ===== verification/Collector.thy ===== *)
theory Collector
  imports Poller
begin

text \<open>
  \<open>internal/mlxlink/collector.go\<close> and \<open>internal/mlxlink/pcie_eye_collector.go\<close>: what a scrape
  makes of the published snapshots. A collector sends metrics into a channel; here it returns
  them in the order they are sent, each with the arguments it is constructed from. The Prometheus
  library that constructs them is not modelled: what it demands of its callers (as many label
  values as the descriptor has names, valid UTF-8, no series twice) is what the lemmas show.
  The help texts of the descriptors are left out.
\<close>

subsection \<open>Descriptors\<close>

datatype value_type = CounterValue | GaugeValue

record desc =
  DescName :: bytes
  DescLabels :: "bytes list"

record metric =
  MetricDesc :: desc
  MetricType :: value_type
  MetricValue :: float64
  MetricLabels :: "bytes list"

definition const_metric :: "desc \<Rightarrow> value_type \<Rightarrow> float64 \<Rightarrow> bytes list \<Rightarrow> metric" where
  "const_metric d ty v labels = \<lparr> MetricDesc = d, MetricType = ty, MetricValue = v, MetricLabels = labels \<rparr>"

text \<open>The descriptor fields of \<open>Collector\<close>, and what \<open>NewCollector\<close> puts into them.\<close>

datatype network_metric =
  LinkInfoMetric
| EffectivePhysicalErrorsMetric | RawPhysicalErrorsLaneMetric | LinkDownMetric | LinkErrorRecoveryMetric
| EffectiveBERMetric | RawBERMetric | RawBERLaneMetric
| RxFECCodewordsMetric | SerDesTXFIRMetric | SerDesTXDriveMetric | EyeFOMMetric | EyeGradeMetric
| ModuleTemperatureMetric | ModuleVoltageMetric | ModuleBiasCurrentMetric | ModuleRxPowerMetric | ModuleTxPowerMetric
| ModuleFWFaultMetric | DatapathFWFaultMetric
| TxFaultMetric | TxLOSMetric | RxLOSMetric | TxCDRLossOfLockMetric | RxCDRLossOfLockMetric | DatapathActiveMetric
| ModuleInfoMetric
| UpMetric | CollectionDurationMetric | LastSuccessMetric

definition base_labels :: "bytes list" where
  "base_labels = [''device'', ''port'', ''pci_addr'']"

definition lane_labels :: "bytes list" where
  "lane_labels = [''device'', ''port'', ''pci_addr'', ''lane'']"

fun network_desc :: "network_metric \<Rightarrow> desc" where
  "network_desc LinkInfoMetric = \<lparr> DescName = ''mlxlink_link_info'',
     DescLabels = base_labels @ [''state'', ''physical_state'', ''speed'', ''width'', ''fec'', ''auto_negotiation''] \<rparr>"
| "network_desc EffectivePhysicalErrorsMetric =
     \<lparr> DescName = ''mlxlink_effective_physical_errors_total'', DescLabels = base_labels \<rparr>"
| "network_desc RawPhysicalErrorsLaneMetric =
     \<lparr> DescName = ''mlxlink_raw_physical_errors_total'', DescLabels = lane_labels \<rparr>"
| "network_desc LinkDownMetric = \<lparr> DescName = ''mlxlink_link_down_total'', DescLabels = base_labels \<rparr>"
| "network_desc LinkErrorRecoveryMetric =
     \<lparr> DescName = ''mlxlink_link_error_recovery_total'', DescLabels = base_labels \<rparr>"
| "network_desc EffectiveBERMetric = \<lparr> DescName = ''mlxlink_effective_physical_ber'', DescLabels = base_labels \<rparr>"
| "network_desc RawBERMetric = \<lparr> DescName = ''mlxlink_raw_physical_ber'', DescLabels = base_labels \<rparr>"
| "network_desc RawBERLaneMetric = \<lparr> DescName = ''mlxlink_raw_physical_ber_lane'', DescLabels = lane_labels \<rparr>"
| "network_desc RxFECCodewordsMetric = \<lparr> DescName = ''mlxlink_rx_fec_codewords_total'',
     DescLabels = base_labels @ [''bin'', ''error_count_min'', ''error_count_max''] \<rparr>"
| "network_desc SerDesTXFIRMetric =
     \<lparr> DescName = ''mlxlink_serdes_tx_fir_coefficient'', DescLabels = lane_labels @ [''tap''] \<rparr>"
| "network_desc SerDesTXDriveMetric =
     \<lparr> DescName = ''mlxlink_serdes_tx_drive_amplitude'', DescLabels = lane_labels \<rparr>"
| "network_desc EyeFOMMetric = \<lparr> DescName = ''mlxlink_eye_fom'', DescLabels = lane_labels @ [''stage''] \<rparr>"
| "network_desc EyeGradeMetric = \<lparr> DescName = ''mlxlink_eye_grade'', DescLabels = lane_labels @ [''position''] \<rparr>"
| "network_desc ModuleTemperatureMetric =
     \<lparr> DescName = ''mlxlink_module_temperature_celsius'', DescLabels = base_labels \<rparr>"
| "network_desc ModuleVoltageMetric = \<lparr> DescName = ''mlxlink_module_voltage_volts'', DescLabels = base_labels \<rparr>"
| "network_desc ModuleBiasCurrentMetric =
     \<lparr> DescName = ''mlxlink_module_bias_current_amperes'', DescLabels = lane_labels \<rparr>"
| "network_desc ModuleRxPowerMetric = \<lparr> DescName = ''mlxlink_module_rx_power_dbm'', DescLabels = lane_labels \<rparr>"
| "network_desc ModuleTxPowerMetric = \<lparr> DescName = ''mlxlink_module_tx_power_dbm'', DescLabels = lane_labels \<rparr>"
| "network_desc ModuleFWFaultMetric = \<lparr> DescName = ''mlxlink_module_fw_fault'', DescLabels = base_labels \<rparr>"
| "network_desc DatapathFWFaultMetric = \<lparr> DescName = ''mlxlink_datapath_fw_fault'', DescLabels = base_labels \<rparr>"
| "network_desc TxFaultMetric = \<lparr> DescName = ''mlxlink_tx_fault'', DescLabels = lane_labels \<rparr>"
| "network_desc TxLOSMetric = \<lparr> DescName = ''mlxlink_tx_los'', DescLabels = lane_labels \<rparr>"
| "network_desc RxLOSMetric = \<lparr> DescName = ''mlxlink_rx_los'', DescLabels = lane_labels \<rparr>"
| "network_desc TxCDRLossOfLockMetric = \<lparr> DescName = ''mlxlink_tx_cdr_loss_of_lock'', DescLabels = lane_labels \<rparr>"
| "network_desc RxCDRLossOfLockMetric = \<lparr> DescName = ''mlxlink_rx_cdr_loss_of_lock'', DescLabels = lane_labels \<rparr>"
| "network_desc DatapathActiveMetric = \<lparr> DescName = ''mlxlink_datapath_active'', DescLabels = lane_labels \<rparr>"
| "network_desc ModuleInfoMetric = \<lparr> DescName = ''mlxlink_module_info'',
     DescLabels = base_labels @ [''identifier'', ''vendor'', ''part_number'', ''serial_number'', ''revision'',
       ''firmware_version'', ''active_host_compliance'', ''active_media_compliance'', ''cable_type''] \<rparr>"
| "network_desc UpMetric = \<lparr> DescName = ''mlxlink_collector_up'', DescLabels = base_labels \<rparr>"
| "network_desc CollectionDurationMetric =
     \<lparr> DescName = ''mlxlink_collection_duration_seconds'', DescLabels = base_labels \<rparr>"
| "network_desc LastSuccessMetric =
     \<lparr> DescName = ''mlxlink_collection_last_success_timestamp_seconds'', DescLabels = base_labels \<rparr>"

text \<open>\<open>Describe\<close> sends the descriptors in the order they were created.\<close>

definition network_metrics :: "network_metric list" where
  "network_metrics =
     [LinkInfoMetric, EffectivePhysicalErrorsMetric, RawPhysicalErrorsLaneMetric, LinkDownMetric,
      LinkErrorRecoveryMetric, EffectiveBERMetric, RawBERMetric, RawBERLaneMetric, RxFECCodewordsMetric,
      SerDesTXFIRMetric, SerDesTXDriveMetric, EyeFOMMetric, EyeGradeMetric, ModuleTemperatureMetric,
      ModuleVoltageMetric, ModuleBiasCurrentMetric, ModuleRxPowerMetric, ModuleTxPowerMetric,
      ModuleFWFaultMetric, DatapathFWFaultMetric, TxFaultMetric, TxLOSMetric, RxLOSMetric,
      TxCDRLossOfLockMetric, RxCDRLossOfLockMetric, DatapathActiveMetric, ModuleInfoMetric, UpMetric,
      CollectionDurationMetric, LastSuccessMetric]"

definition describe :: "desc list" where
  "describe = map network_desc network_metrics"

datatype pcie_metric = PCIeFOMMetric | PCIeUpMetric | PCIeDurationMetric | PCIeLastSuccessMetric

definition pcie_base_labels :: "bytes list" where
  "pcie_base_labels = [''device'', ''pci_addr'']"

fun pcie_desc :: "pcie_metric \<Rightarrow> desc" where
  "pcie_desc PCIeFOMMetric = \<lparr> DescName = ''mlxlink_pcie_eye_fom'', DescLabels = pcie_base_labels @ [''lane'', ''stage''] \<rparr>"
| "pcie_desc PCIeUpMetric = \<lparr> DescName = ''mlxlink_pcie_eye_collector_up'', DescLabels = pcie_base_labels \<rparr>"
| "pcie_desc PCIeDurationMetric =
     \<lparr> DescName = ''mlxlink_pcie_eye_collection_duration_seconds'', DescLabels = pcie_base_labels \<rparr>"
| "pcie_desc PCIeLastSuccessMetric =
     \<lparr> DescName = ''mlxlink_pcie_eye_collection_last_success_timestamp_seconds'', DescLabels = pcie_base_labels \<rparr>"

definition pcie_describe :: "desc list" where
  "pcie_describe = map pcie_desc [PCIeFOMMetric, PCIeUpMetric, PCIeDurationMetric, PCIeLastSuccessMetric]"

subsection \<open>Sending samples\<close>

text \<open>The labels of a target, and the labels of a sample: a fresh slice in the code, a list here.\<close>

definition concat_labels :: "bytes list \<Rightarrow> bytes list \<Rightarrow> bytes list" where
  "concat_labels base extra = base @ extra"

definition any_non_empty :: "bytes list \<Rightarrow> bool" where
  "any_non_empty values = list_ex (\<lambda>v. v \<noteq> '''') values"

definition send_value :: "desc \<Rightarrow> value_type \<Rightarrow> float_value \<Rightarrow> bytes list \<Rightarrow> metric list" where
  "send_value d ty v labels = (if \<not> Valid v then [] else [const_metric d ty (Float v) labels])"

definition send_lanes :: "desc \<Rightarrow> value_type \<Rightarrow> lane_value list \<Rightarrow> bytes list \<Rightarrow> metric list" where
  "send_lanes d ty lanes labels =
     map (\<lambda>v. const_metric d ty (LaneFloat v) (concat_labels labels [itoa (Lane v)])) lanes"

definition send_lanes_with_label :: "desc \<Rightarrow> lane_value list \<Rightarrow> bytes list \<Rightarrow> bytes \<Rightarrow> metric list" where
  "send_lanes_with_label d lanes labels extra =
     map (\<lambda>v. const_metric d GaugeValue (LaneFloat v) (concat_labels labels [itoa (Lane v), extra])) lanes"

subsection \<open>The network collector\<close>

definition collect_link :: "link_info \<Rightarrow> bytes list \<Rightarrow> metric list" where
  "collect_link link labels =
     (let values = [LinkState link, LinkPhysicalState link, LinkSpeed link, LinkWidth link, LinkFEC link,
        LinkAutoNegotiation link] in
      if \<not> any_non_empty values then []
      else [const_metric (network_desc LinkInfoMetric) GaugeValue (f_of_nat 1) (concat_labels labels values)])"

definition collect_counters :: "counters \<Rightarrow> bytes list \<Rightarrow> metric list" where
  "collect_counters c labels =
     send_value (network_desc EffectivePhysicalErrorsMetric) CounterValue (EffectivePhysicalErrors c) labels @
     send_value (network_desc LinkDownMetric) CounterValue (LinkDown c) labels @
     send_value (network_desc LinkErrorRecoveryMetric) CounterValue (LinkErrorRecovery c) labels @
     send_value (network_desc EffectiveBERMetric) GaugeValue (EffectiveBER c) labels @
     send_value (network_desc RawBERMetric) GaugeValue (RawBER c) labels @
     send_lanes (network_desc RawPhysicalErrorsLaneMetric) CounterValue (RawPhysicalErrorsLane c) labels @
     send_lanes (network_desc RawBERLaneMetric) GaugeValue (RawBERLane c) labels"

definition collect_module :: "module_data \<Rightarrow> bytes list \<Rightarrow> metric list" where
  "collect_module m labels =
     send_value (network_desc ModuleTemperatureMetric) GaugeValue (TemperatureCelsius m) labels @
     send_value (network_desc ModuleVoltageMetric) GaugeValue (VoltageVolts m) labels @
     send_value (network_desc ModuleFWFaultMetric) GaugeValue (ModuleFWFault m) labels @
     send_value (network_desc DatapathFWFaultMetric) GaugeValue (DatapathFWFault m) labels @
     send_lanes (network_desc ModuleBiasCurrentMetric) GaugeValue (BiasCurrentAmperes m) labels @
     send_lanes (network_desc ModuleRxPowerMetric) GaugeValue (RxPowerDBm m) labels @
     send_lanes (network_desc ModuleTxPowerMetric) GaugeValue (TxPowerDBm m) labels @
     send_lanes (network_desc TxFaultMetric) GaugeValue (TxFault m) labels @
     send_lanes (network_desc TxLOSMetric) GaugeValue (TxLOS m) labels @
     send_lanes (network_desc RxLOSMetric) GaugeValue (RxLOS m) labels @
     send_lanes (network_desc TxCDRLossOfLockMetric) GaugeValue (TxCDRLOL m) labels @
     send_lanes (network_desc RxCDRLossOfLockMetric) GaugeValue (RxCDRLOL m) labels @
     send_lanes (network_desc DatapathActiveMetric) GaugeValue (DatapathActive m) labels @
     (let info = ModuleInventory m;
          values = [Identifier info, Vendor info, PartNumber info, SerialNumber info, Revision info,
            FirmwareVersion info, ActiveHostCompliance info, ActiveMediaCompliance info, CableType info] in
      if \<not> any_non_empty values then []
      else [const_metric (network_desc ModuleInfoMetric) GaugeValue (f_of_nat 1) (concat_labels labels values)])"

definition collect_fec_histogram :: "fec_bin list \<Rightarrow> bytes list \<Rightarrow> metric list" where
  "collect_fec_histogram bins labels =
     map (\<lambda>bin. const_metric (network_desc RxFECCodewordsMetric) CounterValue (f_of_nat (unat (Occurrences bin)))
       (concat_labels labels [itoa (Bin bin), dec (unat (ErrorCountMin bin)), dec (unat (ErrorCountMax bin))])) bins"

definition collect_serdes_tx :: "serdes_tx \<Rightarrow> bytes list \<Rightarrow> metric list" where
  "collect_serdes_tx serdes labels =
     map (\<lambda>c. const_metric (network_desc SerDesTXFIRMetric) GaugeValue (FIRValue c)
       (concat_labels labels [itoa (FIRLane c), FIRTap c])) (FIRCoefficients serdes) @
     send_lanes (network_desc SerDesTXDriveMetric) GaugeValue (DriveAmplitude serdes) labels"

definition collect_eye :: "eye \<Rightarrow> bytes list \<Rightarrow> metric list" where
  "collect_eye e labels =
     send_lanes_with_label (network_desc EyeFOMMetric) (EyeInitialFOM e) labels ''initial'' @
     send_lanes_with_label (network_desc EyeFOMMetric) (EyeLastFOM e) labels ''last'' @
     send_lanes_with_label (network_desc EyeGradeMetric) (EyeUpperGrade e) labels ''upper'' @
     send_lanes_with_label (network_desc EyeGradeMetric) (EyeMidGrade e) labels ''mid'' @
     send_lanes_with_label (network_desc EyeGradeMetric) (EyeLowerGrade e) labels ''lower''"

text \<open>Staleness, by the horizon of the collector.\<close>

definition is_stale :: "int \<Rightarrow> 'd snapshot \<Rightarrow> gotime \<Rightarrow> bool" where
  "is_stale stale_after s now = (is_zero_time (LastSuccess s) \<or> stale_after < time_sub now (LastSuccess s))"

definition up_value :: "'d snapshot \<Rightarrow> float64" where
  "up_value s = (if LastError s = NoReason \<and> \<not> is_zero_time (LastSuccess s) then f_of_nat 1 else f_of_nat 0)"

definition last_success_seconds :: "'d snapshot \<Rightarrow> float64" where
  "last_success_seconds s = f_div (f_of_int (unix_nano (LastSuccess s))) f_giga"

definition device_labels :: "target \<Rightarrow> bytes list" where
  "device_labels t = [Device t, Port t, PCIAddr t]"

definition self_metrics :: "device_snapshot \<Rightarrow> metric list" where
  "self_metrics s =
     (let labels = device_labels (SnapTarget s) in
      [const_metric (network_desc UpMetric) GaugeValue (up_value s) labels,
       const_metric (network_desc CollectionDurationMetric) GaugeValue (duration_seconds (LastDuration s)) labels] @
      (if \<not> is_zero_time (LastSuccess s)
       then [const_metric (network_desc LastSuccessMetric) GaugeValue (last_success_seconds s) labels] else []))"

definition data_metrics :: "port_data \<Rightarrow> bytes list \<Rightarrow> metric list" where
  "data_metrics p labels =
     collect_link (PortLink p) labels @ collect_counters (PortCounters p) labels @
     collect_module (PortModule p) labels @ collect_fec_histogram (PortFECHistogram p) labels @
     collect_serdes_tx (PortSerDesTX p) labels @ collect_eye (PortEye p) labels"

definition collect_device :: "int \<Rightarrow> device_snapshot \<Rightarrow> gotime \<Rightarrow> metric list" where
  "collect_device stale_after s now =
     self_metrics s @
     (if is_stale stale_after s now then [] else data_metrics (SnapData s) (device_labels (SnapTarget s)))"

text \<open>
  A scrape: the devices of the published set in an order of the map's choosing; a nil set sends
  nothing.
\<close>

definition scrape_set :: "('d snapshot \<Rightarrow> metric list) \<Rightarrow> 'd snapshot_set option \<Rightarrow> bytes list \<Rightarrow> metric list" where
  "scrape_set device_metrics sset order =
     (case sset of
        None \<Rightarrow> []
      | Some m \<Rightarrow> concat (map (\<lambda>d. case m d of None \<Rightarrow> [] | Some s \<Rightarrow> device_metrics s) order))"

definition collect_all :: "int \<Rightarrow> port_data snapshot_set option \<Rightarrow> bytes list \<Rightarrow> gotime \<Rightarrow> metric list" where
  "collect_all stale_after sset order now = scrape_set (\<lambda>s. collect_device stale_after s now) sset order"

subsection \<open>The PCIe Eye collector\<close>

definition pcie_labels :: "target \<Rightarrow> bytes list" where
  "pcie_labels t = [Device t, PCIAddr t]"

definition collect_fom :: "lane_value list \<Rightarrow> bytes list \<Rightarrow> bytes \<Rightarrow> metric list" where
  "collect_fom lanes labels stage =
     map (\<lambda>v. const_metric (pcie_desc PCIeFOMMetric) GaugeValue (LaneFloat v)
       (concat_labels labels [itoa (Lane v), stage])) lanes"

definition collect_pcie_device :: "int \<Rightarrow> pcie_eye_snapshot \<Rightarrow> gotime \<Rightarrow> metric list" where
  "collect_pcie_device stale_after s now =
     (let labels = pcie_labels (SnapTarget s) in
      [const_metric (pcie_desc PCIeUpMetric) GaugeValue (up_value s) labels,
       const_metric (pcie_desc PCIeDurationMetric) GaugeValue (duration_seconds (LastDuration s)) labels] @
      (if \<not> is_zero_time (LastSuccess s)
       then [const_metric (pcie_desc PCIeLastSuccessMetric) GaugeValue (last_success_seconds s) labels] else []) @
      (if is_stale stale_after s now then []
       else collect_fom (PCIeInitialFOM (SnapData s)) labels ''initial'' @
            collect_fom (PCIeLastFOM (SnapData s)) labels ''last''))"

definition collect_pcie_all :: "int \<Rightarrow> pcie_eye snapshot_set option \<Rightarrow> bytes list \<Rightarrow> gotime \<Rightarrow> metric list" where
  "collect_pcie_all stale_after sset order now = scrape_set (\<lambda>s. collect_pcie_device stale_after s now) sset order"

subsection \<open>Metrics the library accepts\<close>

text \<open>What the constructor demands, and that the value is a number; and what tells series apart.\<close>

definition metric_ok :: "desc list \<Rightarrow> metric \<Rightarrow> bool" where
  "metric_ok descs m \<longleftrightarrow> MetricDesc m \<in> set descs \<and>
     length (MetricLabels m) = length (DescLabels (MetricDesc m)) \<and>
     list_all valid_utf8 (MetricLabels m) \<and> number_ok (MetricValue m)"

definition series :: "metric \<Rightarrow> bytes \<times> bytes list" where
  "series m = (DescName (MetricDesc m), MetricLabels m)"

lemma network_desc_described [simp]: "network_desc k \<in> set describe"
  by (cases k) (simp_all add: describe_def network_metrics_def)

lemma pcie_desc_described [simp]: "pcie_desc k \<in> set pcie_describe"
  by (cases k) (simp_all add: pcie_describe_def)

fun extra_labels :: "network_metric \<Rightarrow> nat" where
  "extra_labels LinkInfoMetric = 6"
| "extra_labels ModuleInfoMetric = 9"
| "extra_labels RxFECCodewordsMetric = 3"
| "extra_labels k =
     (if k \<in> {SerDesTXFIRMetric, EyeFOMMetric, EyeGradeMetric} then 2
      else if k \<in> {RawPhysicalErrorsLaneMetric, RawBERLaneMetric, SerDesTXDriveMetric, ModuleBiasCurrentMetric,
         ModuleRxPowerMetric, ModuleTxPowerMetric, TxFaultMetric, TxLOSMetric, RxLOSMetric,
         TxCDRLossOfLockMetric, RxCDRLossOfLockMetric, DatapathActiveMetric} then 1
      else 0)"

lemma network_desc_arity [simp]: "length (DescLabels (network_desc k)) = 3 + extra_labels k"
  by (cases k) (simp_all add: base_labels_def lane_labels_def)

lemma pcie_desc_arity [simp]:
  "length (DescLabels (pcie_desc PCIeFOMMetric)) = 4" "length (DescLabels (pcie_desc PCIeUpMetric)) = 2"
  "length (DescLabels (pcie_desc PCIeDurationMetric)) = 2" "length (DescLabels (pcie_desc PCIeLastSuccessMetric)) = 2"
  by (simp_all add: pcie_base_labels_def)

declare network_desc.simps [simp del] pcie_desc.simps [simp del]

lemma dec_valid [simp]: "valid_utf8 (dec n)"
  by (simp add: all_digits_valid)

lemma const_metric_ok:
  "metric_ok descs (const_metric d ty v labels) \<longleftrightarrow> d \<in> set descs \<and> length labels = length (DescLabels d) \<and>
     list_all valid_utf8 labels \<and> number_ok v"
  by (simp add: metric_ok_def const_metric_def)

lemma send_value_ok:
  "value_ok v \<Longrightarrow> d \<in> set descs \<Longrightarrow> length labels = length (DescLabels d) \<Longrightarrow> list_all valid_utf8 labels \<Longrightarrow>
   list_all (metric_ok descs) (send_value d ty v labels)"
  by (simp add: send_value_def const_metric_ok value_ok_def)

lemma send_lanes_ok:
  "lanes_ok vs \<Longrightarrow> d \<in> set descs \<Longrightarrow> Suc (length labels) = length (DescLabels d) \<Longrightarrow> list_all valid_utf8 labels \<Longrightarrow>
   list_all (metric_ok descs) (send_lanes d ty vs labels)"
  by (simp add: send_lanes_def list.pred_map const_metric_ok concat_labels_def lanes_ok_def list_all_iff)

lemma send_lanes_with_label_ok:
  "lanes_ok vs \<Longrightarrow> d \<in> set descs \<Longrightarrow> length labels + 2 = length (DescLabels d) \<Longrightarrow> list_all valid_utf8 labels \<Longrightarrow>
   valid_utf8 extra \<Longrightarrow> list_all (metric_ok descs) (send_lanes_with_label d vs labels extra)"
  by (simp add: send_lanes_with_label_def list.pred_map const_metric_ok concat_labels_def lanes_ok_def list_all_iff)

lemma ascii_word [simp]:
  "valid_utf8 ''initial''" "valid_utf8 ''last''" "valid_utf8 ''upper''" "valid_utf8 ''mid''" "valid_utf8 ''lower''"
  "valid_utf8 ''pre3''" "valid_utf8 ''pre2''" "valid_utf8 ''pre1''" "valid_utf8 ''main''" "valid_utf8 ''post1''"
  by (simp_all add: valid_utf8_ascii byte_in_def)

lemma flag_number: "number_ok (f_of_nat 0)" "number_ok (f_of_nat 1)"
  by (rule flag_ok_number, simp add: flag_ok_def)+

text \<open>The data of a well-formed result.\<close>

definition labels_ok :: "nat \<Rightarrow> bytes list \<Rightarrow> bool" where
  "labels_ok n labels \<longleftrightarrow> length labels = n \<and> list_all valid_utf8 labels"

lemma one_ok [simp]: "number_ok (f_of_nat (Suc 0))" "number_ok (f_of_nat 0)"
  using flag_number by simp_all

lemmas collect_ok_simps = Let_def const_metric_ok concat_labels_def labels_ok_def send_value_ok send_lanes_ok
  send_lanes_with_label_ok list.pred_map

lemma collect_link_ok:
  "link_ok l \<Longrightarrow> labels_ok 3 labels \<Longrightarrow> list_all (metric_ok describe) (collect_link l labels)"
  by (simp add: collect_link_def link_ok_def collect_ok_simps)

lemma collect_counters_ok:
  "counters_ok c \<Longrightarrow> labels_ok 3 labels \<Longrightarrow> list_all (metric_ok describe) (collect_counters c labels)"
  by (simp add: collect_counters_def counters_ok_def collect_ok_simps)

lemma flag_exportable: "Valid v \<longrightarrow> flag_ok (Float v) \<Longrightarrow> value_ok v"
  by (simp add: value_ok_def flag_ok_number)

lemma collect_module_ok:
  "module_ok m \<Longrightarrow> labels_ok 3 labels \<Longrightarrow> list_all (metric_ok describe) (collect_module m labels)"
  by (simp add: collect_module_def module_ok_def module_info_ok_def flags_ok_lanes flag_exportable collect_ok_simps)

lemma collect_fec_ok:
  "labels_ok 3 labels \<Longrightarrow> list_all (metric_ok describe) (collect_fec_histogram bins labels)"
  by (simp add: collect_fec_histogram_def collect_ok_simps list_all_iff)

lemma collect_serdes_ok:
  "serdes_ok sd \<Longrightarrow> labels_ok 3 labels \<Longrightarrow> list_all (metric_ok describe) (collect_serdes_tx sd labels)"
  by (simp add: collect_serdes_tx_def serdes_ok_def collect_ok_simps fir_taps_def)
    (auto simp: list_all_iff const_metric_ok)

lemma collect_eye_ok:
  "eye_ok e \<Longrightarrow> labels_ok 3 labels \<Longrightarrow> list_all (metric_ok describe) (collect_eye e labels)"
  by (simp add: collect_eye_def eye_ok_def collect_ok_simps)

lemma data_metrics_ok:
  "port_data_ok p \<Longrightarrow> labels_ok 3 labels \<Longrightarrow> list_all (metric_ok describe) (data_metrics p labels)"
  by (simp add: data_metrics_def port_data_ok_def collect_link_ok collect_counters_ok collect_module_ok
      collect_fec_ok collect_serdes_ok collect_eye_ok)

text \<open>What the collectors need of a snapshot.\<close>

definition exportable :: "('d \<Rightarrow> bool) \<Rightarrow> 'd snapshot \<Rightarrow> bool" where
  "exportable D s \<longleftrightarrow> list_all valid_utf8 [Device (SnapTarget s), Port (SnapTarget s), PCIAddr (SnapTarget s)] \<and>
     int64 (LastDuration s) \<and> D (SnapData s)"

lemma last_success_ok [simp]: "number_ok (last_success_seconds s)"
proof -
  let ?n = "unix_nano (LastSuccess s)"
  have "\<bar>?n\<bar> \<le> 2 ^ 63" by (rule int64_bound) (simp add: unix_nano_def)
  then have "f_finite (f_of_int ?n)" by (intro f_of_int_finite) simp
  then show ?thesis
    using f_giga_ok unfolding number_ok_def last_success_seconds_def
    by (intro conjI f_div_wf f_div_finite f_of_int_wf) simp_all
qed

lemma up_value_ok [simp]: "number_ok (up_value s)"
  by (simp add: up_value_def)

lemma duration_ok: "int64 d \<Longrightarrow> number_ok (duration_seconds d)"
  using duration_seconds_ok by (simp add: number_ok_def)

lemma collect_device_ok:
  "exportable port_data_ok s \<Longrightarrow> list_all (metric_ok describe) (collect_device stale_after s now)"
  by (simp add: collect_device_def self_metrics_def exportable_def device_labels_def data_metrics_ok labels_ok_def
      Let_def const_metric_ok duration_ok)

lemma collect_fom_eq: "collect_fom = send_lanes_with_label (pcie_desc PCIeFOMMetric)"
  by (intro ext) (simp add: collect_fom_def send_lanes_with_label_def)

lemma collect_pcie_device_ok:
  "exportable pcie_eye_ok s \<Longrightarrow> list_all (metric_ok pcie_describe) (collect_pcie_device stale_after s now)"
  by (simp add: collect_pcie_device_def exportable_def pcie_labels_def collect_ok_simps duration_ok
      collect_fom_eq pcie_eye_ok_def)

subsection \<open>No series twice\<close>

text \<open>The samples of one descriptor, told apart by their labels.\<close>

definition family :: "desc \<Rightarrow> metric list \<Rightarrow> bool" where
  "family d ms \<longleftrightarrow> list_all (\<lambda>m. MetricDesc m = d) ms \<and> distinct (map MetricLabels ms)"

lemma family_series: "family d ms \<Longrightarrow> distinct (map series ms) \<and> fst ` set (map series ms) \<subseteq> {DescName d}"
  by (auto simp: family_def series_def distinct_map list_all_iff inj_on_def)

lemma families_distinct:
  "list_all2 family ds gs \<Longrightarrow> distinct (map DescName ds) \<Longrightarrow>
   distinct (map series (concat gs)) \<and> fst ` set (map series (concat gs)) \<subseteq> DescName ` set ds"
proof (induction ds gs rule: list_all2_induct)
  case (Cons d ds g gs)
  have g: "distinct (map series g)" "fst ` set (map series g) \<subseteq> {DescName d}"
    using family_series [OF Cons.hyps(1)] by simp_all
  have gs: "distinct (map series (concat gs))" "fst ` set (map series (concat gs)) \<subseteq> DescName ` set ds"
    using Cons.IH Cons.prems by simp_all
  have "set (map series g) \<inter> set (map series (concat gs)) = {}"
  proof (rule ccontr)
    assume "set (map series g) \<inter> set (map series (concat gs)) \<noteq> {}"
    then obtain x where "x \<in> set (map series g)" "x \<in> set (map series (concat gs))" by blast
    then have "fst x = DescName d" "fst x \<in> DescName ` set ds" using g(2) gs(2) by blast+
    then show False using Cons.prems by simp
  qed
  then have "distinct (map series (concat (g # gs)))" using g(1) gs(1) by simp
  moreover have "fst ` set (map series (concat (g # gs))) \<subseteq> DescName ` set (d # ds)"
    using g(2) gs(2) unfolding concat.simps map_append set_append image_Un list.set image_insert by blast
  ultimately show ?case by blast
qed simp

lemma family_simps [simp]:
  "family d []" "family d [const_metric d ty v labels]"
  by (simp_all add: family_def const_metric_def)

lemma family_value [simp]: "family d (send_value d ty v labels)"
  by (simp add: send_value_def)

lemma family_lanes [simp]: "lanes_ok vs \<Longrightarrow> family d (send_lanes d ty vs labels)"
  using lanes_ok_distinct [of vs]
  by (auto simp: family_def send_lanes_def const_metric_def concat_labels_def list_all_iff distinct_map inj_on_def)

lemma family_labelled:
  "lanes_ok vs \<Longrightarrow> family d (send_lanes_with_label d vs labels extra)"
  using lanes_ok_distinct [of vs]
  by (auto simp: family_def send_lanes_with_label_def const_metric_def concat_labels_def list_all_iff distinct_map
      inj_on_def)

lemma family_append:
  "family d a \<Longrightarrow> family d b \<Longrightarrow> set (map MetricLabels a) \<inter> set (map MetricLabels b) = {} \<Longrightarrow> family d (a @ b)"
  by (simp add: family_def)

lemma network_names: "distinct (map DescName describe)"
  by (simp add: describe_def network_metrics_def network_desc.simps)

text \<open>The samples of a device, grouped by descriptor.\<close>

lemma family_fec: "fec_ok bins \<Longrightarrow> family (network_desc RxFECCodewordsMetric) (collect_fec_histogram bins labels)"
proof -
  assume "fec_ok bins"
  then have "distinct (map Bin bins)" by (simp add: fec_ok_def distinct_map)
  then show ?thesis
    by (auto simp: family_def collect_fec_histogram_def const_metric_def concat_labels_def list_all_iff distinct_map
        inj_on_def)
qed

lemma family_fir:
  "serdes_ok sd \<Longrightarrow> family (network_desc SerDesTXFIRMetric)
     (map (\<lambda>c. const_metric (network_desc SerDesTXFIRMetric) GaugeValue (FIRValue c)
       (concat_labels labels [itoa (FIRLane c), FIRTap c])) (FIRCoefficients sd))"
  by (auto simp: family_def serdes_ok_def const_metric_def concat_labels_def list_all_iff distinct_map inj_on_def
      fir_key_def)

lemma family_stages:
  assumes "lanes_ok a" and "lanes_ok b" and "x \<noteq> y"
  shows "family d (send_lanes_with_label d a labels x @ send_lanes_with_label d b labels y)"
  using assms
  by (intro family_append family_labelled)
    (auto simp: send_lanes_with_label_def const_metric_def concat_labels_def)

lemma family_grades:
  assumes "lanes_ok a" and "lanes_ok b" and "lanes_ok c" and "distinct [x, y, z]"
  shows "family d (send_lanes_with_label d a labels x @ send_lanes_with_label d b labels y @
    send_lanes_with_label d c labels z)"
  using assms family_stages [of b c y z d labels]
  by (intro family_append family_labelled)
    (auto simp: send_lanes_with_label_def const_metric_def concat_labels_def)

definition data_descs :: "network_metric list" where
  "data_descs =
     [LinkInfoMetric, EffectivePhysicalErrorsMetric, LinkDownMetric, LinkErrorRecoveryMetric, EffectiveBERMetric,
      RawBERMetric, RawPhysicalErrorsLaneMetric, RawBERLaneMetric, ModuleTemperatureMetric, ModuleVoltageMetric,
      ModuleFWFaultMetric, DatapathFWFaultMetric, ModuleBiasCurrentMetric, ModuleRxPowerMetric, ModuleTxPowerMetric,
      TxFaultMetric, TxLOSMetric, RxLOSMetric, TxCDRLossOfLockMetric, RxCDRLossOfLockMetric, DatapathActiveMetric,
      ModuleInfoMetric, RxFECCodewordsMetric, SerDesTXFIRMetric, SerDesTXDriveMetric, EyeFOMMetric, EyeGradeMetric]"

definition data_groups :: "port_data \<Rightarrow> bytes list \<Rightarrow> metric list list" where
  "data_groups p labels =
     (let c = PortCounters p; m = PortModule p; e = PortEye p; n = network_desc in
     [collect_link (PortLink p) labels,
      send_value (n EffectivePhysicalErrorsMetric) CounterValue (EffectivePhysicalErrors c) labels,
      send_value (n LinkDownMetric) CounterValue (LinkDown c) labels,
      send_value (n LinkErrorRecoveryMetric) CounterValue (LinkErrorRecovery c) labels,
      send_value (n EffectiveBERMetric) GaugeValue (EffectiveBER c) labels,
      send_value (n RawBERMetric) GaugeValue (RawBER c) labels,
      send_lanes (n RawPhysicalErrorsLaneMetric) CounterValue (RawPhysicalErrorsLane c) labels,
      send_lanes (n RawBERLaneMetric) GaugeValue (RawBERLane c) labels,
      send_value (n ModuleTemperatureMetric) GaugeValue (TemperatureCelsius m) labels,
      send_value (n ModuleVoltageMetric) GaugeValue (VoltageVolts m) labels,
      send_value (n ModuleFWFaultMetric) GaugeValue (ModuleFWFault m) labels,
      send_value (n DatapathFWFaultMetric) GaugeValue (DatapathFWFault m) labels,
      send_lanes (n ModuleBiasCurrentMetric) GaugeValue (BiasCurrentAmperes m) labels,
      send_lanes (n ModuleRxPowerMetric) GaugeValue (RxPowerDBm m) labels,
      send_lanes (n ModuleTxPowerMetric) GaugeValue (TxPowerDBm m) labels,
      send_lanes (n TxFaultMetric) GaugeValue (TxFault m) labels,
      send_lanes (n TxLOSMetric) GaugeValue (TxLOS m) labels,
      send_lanes (n RxLOSMetric) GaugeValue (RxLOS m) labels,
      send_lanes (n TxCDRLossOfLockMetric) GaugeValue (TxCDRLOL m) labels,
      send_lanes (n RxCDRLossOfLockMetric) GaugeValue (RxCDRLOL m) labels,
      send_lanes (n DatapathActiveMetric) GaugeValue (DatapathActive m) labels,
      (let info = ModuleInventory m;
          values = [Identifier info, Vendor info, PartNumber info, SerialNumber info, Revision info,
            FirmwareVersion info, ActiveHostCompliance info, ActiveMediaCompliance info, CableType info] in
        if \<not> any_non_empty values then []
        else [const_metric (n ModuleInfoMetric) GaugeValue (f_of_nat 1) (concat_labels labels values)]),
      collect_fec_histogram (PortFECHistogram p) labels,
      map (\<lambda>c. const_metric (n SerDesTXFIRMetric) GaugeValue (FIRValue c)
         (concat_labels labels [itoa (FIRLane c), FIRTap c])) (FIRCoefficients (PortSerDesTX p)),
      send_lanes (n SerDesTXDriveMetric) GaugeValue (DriveAmplitude (PortSerDesTX p)) labels,
      send_lanes_with_label (n EyeFOMMetric) (EyeInitialFOM e) labels ''initial'' @
        send_lanes_with_label (n EyeFOMMetric) (EyeLastFOM e) labels ''last'',
      send_lanes_with_label (n EyeGradeMetric) (EyeUpperGrade e) labels ''upper'' @
        send_lanes_with_label (n EyeGradeMetric) (EyeMidGrade e) labels ''mid'' @
        send_lanes_with_label (n EyeGradeMetric) (EyeLowerGrade e) labels ''lower''])"

lemma data_metrics_groups: "data_metrics p labels = concat (data_groups p labels)"
  by (simp add: data_metrics_def data_groups_def collect_counters_def collect_module_def collect_serdes_tx_def
      collect_eye_def Let_def)

lemma data_groups_families:
  assumes "port_data_ok p"
  shows "list_all2 family (map network_desc data_descs) (data_groups p labels)"
proof -
  have parts: "counters_ok (PortCounters p)" "module_ok (PortModule p)" "fec_ok (PortFECHistogram p)"
    "serdes_ok (PortSerDesTX p)" "eye_ok (PortEye p)"
    using assms by (simp_all add: port_data_ok_def)
  then show ?thesis
    by (simp add: data_descs_def data_groups_def Let_def counters_ok_def module_ok_def flags_ok_lanes eye_ok_def
        family_fec family_fir family_stages family_grades collect_link_def serdes_ok_def [THEN iffD1])
qed

lemma network_desc_names: "distinct ks \<Longrightarrow> distinct (map DescName (map network_desc ks))"
proof -
  assume ks: "distinct ks"
  have all: "set network_metrics = UNIV"
  proof -
    have "k \<in> set network_metrics" for k by (cases k) (simp_all add: network_metrics_def)
    then show ?thesis by blast
  qed
  have "inj (DescName \<circ> network_desc)"
    using network_names unfolding describe_def by (simp add: distinct_map all)
  then have "inj_on (DescName \<circ> network_desc) (set ks)" by (rule inj_on_subset) simp
  then show ?thesis using ks by (simp add: distinct_map)
qed

lemma collect_device_distinct:
  assumes "port_data_ok (SnapData s)"
  shows "distinct (map series (collect_device stale_after s now))"
proof -
  let ?labels = "device_labels (SnapTarget s)"
  let ?n = "network_desc"
  let ?self = "[[const_metric (?n UpMetric) GaugeValue (up_value s) ?labels],
     [const_metric (?n CollectionDurationMetric) GaugeValue (duration_seconds (LastDuration s)) ?labels],
     if is_zero_time (LastSuccess s) then []
     else [const_metric (?n LastSuccessMetric) GaugeValue (last_success_seconds s) ?labels]]"
  let ?data = "if is_stale stale_after s now then map (\<lambda>k. []) data_descs else data_groups (SnapData s) ?labels"
  have groups: "collect_device stale_after s now = concat (?self @ ?data)"
    by (simp add: collect_device_def self_metrics_def Let_def data_metrics_groups concat_eq_Nil_conv)
  have "list_all2 family (map network_desc data_descs) ?data"
    using data_groups_families [OF assms] by (simp add: list_all2_conv_all_nth)
  then have "list_all2 family (map network_desc ([UpMetric, CollectionDurationMetric, LastSuccessMetric] @ data_descs)) (?self @ ?data)"
    by simp
  moreover have "distinct ([UpMetric, CollectionDurationMetric, LastSuccessMetric] @ data_descs)"
    by (simp add: data_descs_def)
  ultimately show ?thesis
    unfolding groups using families_distinct network_desc_names by blast
qed

lemma collect_pcie_device_distinct:
  assumes "pcie_eye_ok (SnapData s)"
  shows "distinct (map series (collect_pcie_device stale_after s now))"
proof -
  let ?labels = "pcie_labels (SnapTarget s)" and ?e = "SnapData s"
  let ?groups = "[[const_metric (pcie_desc PCIeUpMetric) GaugeValue (up_value s) ?labels],
     [const_metric (pcie_desc PCIeDurationMetric) GaugeValue (duration_seconds (LastDuration s)) ?labels],
     if is_zero_time (LastSuccess s) then []
     else [const_metric (pcie_desc PCIeLastSuccessMetric) GaugeValue (last_success_seconds s) ?labels],
     if is_stale stale_after s now then []
     else collect_fom (PCIeInitialFOM ?e) ?labels ''initial'' @ collect_fom (PCIeLastFOM ?e) ?labels ''last'']"
  have groups: "collect_pcie_device stale_after s now = concat ?groups"
    by (simp add: collect_pcie_device_def Let_def)
  have "list_all2 family (map pcie_desc [PCIeUpMetric, PCIeDurationMetric, PCIeLastSuccessMetric, PCIeFOMMetric]) ?groups"
    using assms by (simp add: pcie_eye_ok_def collect_fom_eq family_stages)
  moreover have "distinct (map DescName (map pcie_desc [PCIeUpMetric, PCIeDurationMetric, PCIeLastSuccessMetric, PCIeFOMMetric]))"
    by (simp add: pcie_desc.simps)
  ultimately show ?thesis unfolding groups using families_distinct by blast
qed

subsection \<open>A whole scrape\<close>

text \<open>The first label is the device, so the samples of two devices are never the same series.\<close>

definition of_device :: "bytes \<Rightarrow> metric list \<Rightarrow> bool" where
  "of_device d ms \<longleftrightarrow> list_all (\<lambda>m. MetricLabels m \<noteq> [] \<and> hd (MetricLabels m) = d) ms"

lemma of_device_simps [simp]:
  "of_device d []" "of_device d (a @ b) \<longleftrightarrow> of_device d a \<and> of_device d b"
  "of_device d (const_metric dd ty v labels # ms) \<longleftrightarrow> labels \<noteq> [] \<and> hd labels = d \<and> of_device d ms"
  by (auto simp: of_device_def const_metric_def)

lemma of_device_sends [simp]:
  "of_device d (send_value dd ty v (d # labels))" "of_device d (send_lanes dd ty vs (d # labels))"
  "of_device d (send_lanes_with_label dd vs (d # labels) extra)"
  by (auto simp: of_device_def send_value_def send_lanes_def send_lanes_with_label_def const_metric_def concat_labels_def
      list_all_iff)

lemma of_device_collect: "of_device (Device (SnapTarget s)) (collect_device stale_after s now)"
  by (auto simp: collect_device_def self_metrics_def device_labels_def Let_def data_metrics_def collect_link_def
      collect_counters_def collect_module_def collect_serdes_tx_def collect_eye_def concat_labels_def)
    (auto simp: of_device_def collect_fec_histogram_def const_metric_def concat_labels_def list_all_iff)

lemma of_device_pcie: "of_device (Device (SnapTarget s)) (collect_pcie_device stale_after s now)"
  by (simp add: collect_pcie_device_def pcie_labels_def Let_def collect_fom_eq)

lemma scrape_step:
  "scrape_set f (Some m) (d # order) = (case m d of None \<Rightarrow> [] | Some s \<Rightarrow> f s) @ scrape_set f (Some m) order"
  by (simp add: scrape_set_def)

lemma scrape_devices:
  assumes "\<And>d s. m d = Some s \<Longrightarrow> of_device d (f s)"
  shows "x \<in> set (scrape_set f (Some m) order) \<Longrightarrow> hd (MetricLabels x) \<in> set order"
proof (induction order)
  case (Cons d order)
  show ?case
  proof (cases "x \<in> set (scrape_set f (Some m) order)")
    case False
    then obtain s where "m d = Some s" "x \<in> set (f s)"
      using Cons.prems by (cases "m d") (auto simp: scrape_step)
    then show ?thesis using assms [of d s] by (simp add: of_device_def list_all_iff)
  qed (use Cons.IH in simp)
qed (simp add: scrape_set_def)

lemma scrape_distinct:
  assumes "\<And>d s. m d = Some s \<Longrightarrow> of_device d (f s) \<and> distinct (map series (f s))" and "distinct order"
  shows "distinct (map series (scrape_set f (Some m) order))"
  using assms(2)
proof (induction order)
  case (Cons d order)
  let ?here = "case m d of None \<Rightarrow> [] | Some s \<Rightarrow> f s"
  have here: "distinct (map series ?here)" "of_device d ?here"
    using assms(1) by (auto split: option.splits)
  have "set (map series ?here) \<inter> set (map series (scrape_set f (Some m) order)) = {}"
  proof (rule ccontr)
    assume "set (map series ?here) \<inter> set (map series (scrape_set f (Some m) order)) \<noteq> {}"
    then obtain p where "p \<in> series ` set ?here" "p \<in> series ` set (scrape_set f (Some m) order)"
      by (metis disjoint_iff set_map)
    then obtain x y where xy: "x \<in> set ?here" "y \<in> set (scrape_set f (Some m) order)" "series x = series y"
      by (metis imageE)
    then have "hd (MetricLabels x) = d" "hd (MetricLabels y) \<in> set order"
      using here(2) scrape_devices [of m f y order] assms(1) by (auto simp: of_device_def list_all_iff)
    then show False using xy(3) Cons.prems by (simp add: series_def)
  qed
  then show ?case using here(1) Cons by (simp add: scrape_step)
qed (simp add: scrape_set_def)

text \<open>
  What the collectors rely on: whatever state the source is in, its snapshots are exportable and
  filed under their own device.
\<close>

locale snapshot_source =
  fixes published :: "'s \<Rightarrow> 'd snapshot_set option" and data_ok :: "'d \<Rightarrow> bool" and reached :: "'s \<Rightarrow> bool"
  assumes published_exportable:
    "reached st \<Longrightarrow> published st = Some m \<Longrightarrow> m d = Some s \<Longrightarrow> exportable data_ok s \<and> Device (SnapTarget s) = d"
begin

lemma scrape_ok:
  assumes "reached st" and "\<And>s. exportable data_ok s \<Longrightarrow> list_all (metric_ok descs) (f s)"
  shows "list_all (metric_ok descs) (scrape_set f (published st) order)"
proof (cases "published st")
  case (Some m)
  have "list_all (metric_ok descs) (f s)" if "m d = Some s" for d s
    using published_exportable [OF assms(1) Some that] assms(2) by blast
  then show ?thesis by (induction order) (auto simp: Some scrape_step scrape_set_def split: option.splits)
qed (simp add: scrape_set_def)

lemma scrape_series:
  assumes "reached st" and "distinct order"
    and "\<And>s. exportable data_ok s \<Longrightarrow> distinct (map series (f s)) \<and> of_device (Device (SnapTarget s)) (f s)"
  shows "distinct (map series (scrape_set f (published st) order))"
proof (cases "published st")
  case (Some m)
  show ?thesis unfolding Some
  proof (rule scrape_distinct [OF _ assms(2)])
    fix d s
    assume "m d = Some s"
    then have "exportable data_ok s" "Device (SnapTarget s) = d"
      using published_exportable [OF assms(1) Some] by blast+
    then show "of_device d (f s) \<and> distinct (map series (f s))" using assms(3) by blast
  qed
qed (simp add: scrape_set_def)

end

subsection \<open>Which sample is exported under which name\<close>

definition samples :: "network_metric \<Rightarrow> metric list \<Rightarrow> (value_type \<times> bytes list \<times> float64) list" where
  "samples k ms =
     map (\<lambda>m. (MetricType m, MetricLabels m, MetricValue m)) (filter (\<lambda>m. MetricDesc m = network_desc k) ms)"

text \<open>The decoded values that each metric stands for.\<close>

fun scalar_of :: "network_metric \<Rightarrow> port_data \<Rightarrow> (value_type \<times> float_value) option" where
  "scalar_of EffectivePhysicalErrorsMetric p = Some (CounterValue, EffectivePhysicalErrors (PortCounters p))"
| "scalar_of LinkDownMetric p = Some (CounterValue, LinkDown (PortCounters p))"
| "scalar_of LinkErrorRecoveryMetric p = Some (CounterValue, LinkErrorRecovery (PortCounters p))"
| "scalar_of EffectiveBERMetric p = Some (GaugeValue, EffectiveBER (PortCounters p))"
| "scalar_of RawBERMetric p = Some (GaugeValue, RawBER (PortCounters p))"
| "scalar_of ModuleTemperatureMetric p = Some (GaugeValue, TemperatureCelsius (PortModule p))"
| "scalar_of ModuleVoltageMetric p = Some (GaugeValue, VoltageVolts (PortModule p))"
| "scalar_of ModuleFWFaultMetric p = Some (GaugeValue, ModuleFWFault (PortModule p))"
| "scalar_of DatapathFWFaultMetric p = Some (GaugeValue, DatapathFWFault (PortModule p))"
| "scalar_of _ p = None"

fun lanes_of :: "network_metric \<Rightarrow> port_data \<Rightarrow> (value_type \<times> lane_value list) option" where
  "lanes_of RawPhysicalErrorsLaneMetric p = Some (CounterValue, RawPhysicalErrorsLane (PortCounters p))"
| "lanes_of RawBERLaneMetric p = Some (GaugeValue, RawBERLane (PortCounters p))"
| "lanes_of ModuleBiasCurrentMetric p = Some (GaugeValue, BiasCurrentAmperes (PortModule p))"
| "lanes_of ModuleRxPowerMetric p = Some (GaugeValue, RxPowerDBm (PortModule p))"
| "lanes_of ModuleTxPowerMetric p = Some (GaugeValue, TxPowerDBm (PortModule p))"
| "lanes_of TxFaultMetric p = Some (GaugeValue, TxFault (PortModule p))"
| "lanes_of TxLOSMetric p = Some (GaugeValue, TxLOS (PortModule p))"
| "lanes_of RxLOSMetric p = Some (GaugeValue, RxLOS (PortModule p))"
| "lanes_of TxCDRLossOfLockMetric p = Some (GaugeValue, TxCDRLOL (PortModule p))"
| "lanes_of RxCDRLossOfLockMetric p = Some (GaugeValue, RxCDRLOL (PortModule p))"
| "lanes_of DatapathActiveMetric p = Some (GaugeValue, DatapathActive (PortModule p))"
| "lanes_of SerDesTXDriveMetric p = Some (GaugeValue, DriveAmplitude (PortSerDesTX p))"
| "lanes_of _ p = None"

text \<open>The rest: the inventories as labels of a constant, and the families with labels of their own.\<close>

definition info_sample :: "bytes list \<Rightarrow> (value_type \<times> bytes list \<times> float64) list" where
  "info_sample values = (if any_non_empty values then [(GaugeValue, values, f_of_nat 1)] else [])"

definition staged :: "bytes \<Rightarrow> lane_value list \<Rightarrow> (value_type \<times> bytes list \<times> float64) list" where
  "staged stage = map (\<lambda>v. (GaugeValue, [itoa (Lane v), stage], LaneFloat v))"

fun others_of :: "network_metric \<Rightarrow> port_data \<Rightarrow> (value_type \<times> bytes list \<times> float64) list" where
  "others_of LinkInfoMetric p =
     (let l = PortLink p in
      info_sample [LinkState l, LinkPhysicalState l, LinkSpeed l, LinkWidth l, LinkFEC l, LinkAutoNegotiation l])"
| "others_of ModuleInfoMetric p =
     (let info = ModuleInventory (PortModule p) in
      info_sample [Identifier info, Vendor info, PartNumber info, SerialNumber info, Revision info,
        FirmwareVersion info, ActiveHostCompliance info, ActiveMediaCompliance info, CableType info])"
| "others_of RxFECCodewordsMetric p =
     map (\<lambda>b. (CounterValue, [itoa (Bin b), dec (unat (ErrorCountMin b)), dec (unat (ErrorCountMax b))],
       f_of_nat (unat (Occurrences b)))) (PortFECHistogram p)"
| "others_of SerDesTXFIRMetric p =
     map (\<lambda>c. (GaugeValue, [itoa (FIRLane c), FIRTap c], FIRValue c)) (FIRCoefficients (PortSerDesTX p))"
| "others_of EyeFOMMetric p =
     staged ''initial'' (EyeInitialFOM (PortEye p)) @ staged ''last'' (EyeLastFOM (PortEye p))"
| "others_of EyeGradeMetric p =
     staged ''upper'' (EyeUpperGrade (PortEye p)) @ staged ''mid'' (EyeMidGrade (PortEye p)) @
     staged ''lower'' (EyeLowerGrade (PortEye p))"
| "others_of _ p = []"

text \<open>What a metric stands for in the data, and in the poller's own state of the device.\<close>

definition exports :: "network_metric \<Rightarrow> port_data \<Rightarrow> (value_type \<times> bytes list \<times> float64) list" where
  "exports k p =
     (case (scalar_of k p, lanes_of k p) of
        (Some (ty, v), _) \<Rightarrow> if Valid v then [(ty, [], Float v)] else []
      | (None, Some (ty, vs)) \<Rightarrow> map (\<lambda>v. (ty, [itoa (Lane v)], LaneFloat v)) vs
      | (None, None) \<Rightarrow> others_of k p)"

fun health_of :: "network_metric \<Rightarrow> device_snapshot \<Rightarrow> (value_type \<times> bytes list \<times> float64) list" where
  "health_of UpMetric s = [(GaugeValue, [], up_value s)]"
| "health_of CollectionDurationMetric s = [(GaugeValue, [], duration_seconds (LastDuration s))]"
| "health_of LastSuccessMetric s =
     (if is_zero_time (LastSuccess s) then [] else [(GaugeValue, [], last_success_seconds s)])"
| "health_of _ s = []"

definition labelled :: "bytes list \<Rightarrow> (value_type \<times> bytes list \<times> float64) list \<Rightarrow> (value_type \<times> bytes list \<times> float64) list" where
  "labelled labels = map (\<lambda>(ty, extra, v). (ty, labels @ extra, v))"

lemma labelled_simps [simp]:
  "labelled labels [] = []" "labelled labels (xs @ ys) = labelled labels xs @ labelled labels ys"
  "labelled labels ((ty, extra, v) # xs) = (ty, labels @ extra, v) # labelled labels xs"
  by (simp_all add: labelled_def)

lemma network_desc_inject [simp]: "network_desc a = network_desc b \<longleftrightarrow> a = b"
proof -
  have "distinct (map DescName (map network_desc [a, b]))" if "a \<noteq> b"
    by (rule network_desc_names) (use that in simp)
  then show ?thesis by (metis distinct_length_2_or_more list.simps(9))
qed

lemma samples_simps [simp]:
  "samples k [] = []" "samples k (a @ b) = samples k a @ samples k b"
  "samples k (const_metric (network_desc k') ty v labels # ms) =
     (if k' = k then [(ty, labels, v)] else []) @ samples k ms"
  by (auto simp: samples_def const_metric_def)

lemma samples_map:
  "samples k (map (\<lambda>x. const_metric (network_desc k') ty (f x) (labels @ g x)) xs) =
     (if k' = k then labelled labels (map (\<lambda>x. (ty, g x, f x)) xs) else [])"
  by (induction xs) auto

lemma samples_sends [simp]:
  "samples k (send_value (network_desc k') ty v labels) =
     (if k' = k \<and> Valid v then [(ty, labels, Float v)] else [])"
  "samples k (send_lanes (network_desc k') ty vs labels) =
     (if k' = k then labelled labels (map (\<lambda>v. (ty, [itoa (Lane v)], LaneFloat v)) vs) else [])"
  "samples k (send_lanes_with_label (network_desc k') vs labels extra) =
     (if k' = k then labelled labels (staged extra vs) else [])"
  by (simp_all add: send_value_def send_lanes_def send_lanes_with_label_def concat_labels_def samples_map staged_def)

text \<open>One equation for each part of the collector.\<close>

lemma samples_parts:
  "samples k (collect_link (PortLink p) labels) = (if k = LinkInfoMetric then labelled labels (others_of k p) else [])"
  "samples k (collect_fec_histogram (PortFECHistogram p) labels) =
     (if k = RxFECCodewordsMetric then labelled labels (others_of k p) else [])"
  "samples k (collect_serdes_tx (PortSerDesTX p) labels) =
     (if k \<in> {SerDesTXFIRMetric, SerDesTXDriveMetric} then labelled labels (exports k p) else [])"
  "samples k (collect_eye (PortEye p) labels) =
     (if k \<in> {EyeFOMMetric, EyeGradeMetric} then labelled labels (others_of k p) else [])"
  by (auto simp: collect_link_def collect_fec_histogram_def collect_serdes_tx_def collect_eye_def concat_labels_def
      samples_map info_sample_def exports_def Let_def)

lemma samples_data: "samples k (data_metrics p labels) = labelled labels (exports k p)"
  by (cases k)
    (simp_all add: data_metrics_def samples_parts collect_counters_def collect_module_def exports_def info_sample_def
      concat_labels_def Let_def)

lemma samples_self: "samples k (self_metrics s) = labelled (device_labels (SnapTarget s)) (health_of k s)"
  by (cases k) (simp_all add: self_metrics_def Let_def)

text \<open>The time since the last success, as the difference of the two readings.\<close>

definition elapsed :: "gotime \<Rightarrow> gotime \<Rightarrow> int" where
  "elapsed now t = (case (Mono now, Mono t) of (Some a, Some b) \<Rightarrow> a - b | _ \<Rightarrow> Wall now - Wall t)"

lemma time_sub_elapsed: "h < max_int64 \<Longrightarrow> int64 h \<Longrightarrow> h < time_sub now t \<longleftrightarrow> h < elapsed now t"
  by (auto simp: time_sub_def elapsed_def saturate64_def int64_def min_int64_def max_int64_def split: option.split)

subsection \<open>Properties\<close>

text \<open>
  C7: A scrape exports exactly what was collected: each metric of the network collector has, in
  order, the samples that its own fields of the snapshot stand for, with their labels behind
  those of the device: its health always, its data only from a fresh snapshot, a value or an
  inventory that could not be read never.
\<close>

theorem samples_exact:
  "samples k (collect_device stale_after s now) =
     labelled (device_labels (SnapTarget s))
       (health_of k s @ (if is_stale stale_after s now then [] else exports k (SnapData s)))"
  by (simp add: collect_device_def samples_data samples_self)

text \<open>
  C8: Staleness is exact: below the largest horizon the saturating subtraction of times never
  shows, and the data of a device are exported as long as the last success is at most the
  horizon ago, while its own health is always exported.
\<close>

theorem stale_exact:
  assumes "int64 h" and "h < max_int64"
  shows "collect_device h s now =
    self_metrics s @
    (if \<not> is_zero_time (LastSuccess s) \<and> elapsed now (LastSuccess s) \<le> h
     then data_metrics (SnapData s) (device_labels (SnapTarget s)) else [])"
  using time_sub_elapsed [OF assms(2,1), of now "LastSuccess s"]
  by (auto simp: collect_device_def is_stale_def)

lemma stale_exact_witness:
  "(let s = zero_snapshot no_port_data\<lparr> LastSuccess := \<lparr> Wall = 5, Mono = Some 100 \<rparr> \<rparr>;
        t = (\<lambda>m. \<lparr> Wall = 5, Mono = Some m \<rparr>) in
    collect_device 150 s (t 250) = self_metrics s @ data_metrics no_port_data ['''', '''', ''''] \<and>
    collect_device 150 s (t 251) = self_metrics s)"
  unfolding Let_def
  by (subst (1 2) stale_exact)
    (simp_all add: int64_def min_int64_def max_int64_def zero_snapshot_def is_zero_time_def elapsed_def
      device_labels_def zero_target_def)

end
