(* ===== verification/Go_Duration.thy ===== *)
theory Go_Duration
  imports Go_Time Go_Strconv
begin

text \<open>
  \<open>time.ParseDuration\<close>: numbers with units, added up in an unsigned 64-bit accumulator. The
  fraction of a number is scaled in floating point, as the library does it.
\<close>

fun f_mul :: "float64 \<Rightarrow> float64 \<Rightarrow> float64" where
  "f_mul (FFin s m e) (FFin t m' e') = f_of_ratio (s \<noteq> t) (down (m * m') (e + e')) (2 ^ nat (- (e + e')))"
| "f_mul (FInf s) (FFin t m e) = (if m = 0 then FNaN else FInf (s \<noteq> t))"
| "f_mul (FFin s m e) (FInf t) = (if m = 0 then FNaN else FInf (s \<noteq> t))"
| "f_mul (FInf s) (FInf t) = FInf (s \<noteq> t)"
| "f_mul _ _ = FNaN"

text \<open>The integral part of a number that is not negative.\<close>

fun f_floor :: "float64 \<Rightarrow> nat" where
  "f_floor (FFin s m e) = down m e div 2 ^ nat (- e)"
| "f_floor _ = 0"

datatype duration_error = InvalidDuration | MissingUnit | UnknownUnit bytes

definition duration_unit :: "bytes \<Rightarrow> nat option" where
  "duration_unit u =
     (if u = ''ns'' then Some 1
      else if u \<in> {''us'', [char_of (0xC2 :: nat), char_of (0xB5 :: nat), CHR ''s''],
                    [char_of (0xCE :: nat), char_of (0xBC :: nat), CHR ''s'']} then Some (10 ^ 3)
      else if u = ''ms'' then Some (10 ^ 6)
      else if u = ''s'' then Some (10 ^ 9)
      else if u = ''m'' then Some (60 * 10 ^ 9)
      else if u = ''h'' then Some (3600 * 10 ^ 9)
      else None)"

text \<open>\<open>leadingInt\<close>: None when the number does not fit.\<close>

fun leading_int :: "nat \<Rightarrow> bytes \<Rightarrow> (nat \<times> bytes) option" where
  "leading_int x [] = Some (x, [])"
| "leading_int x (c # s) =
     (case digit_val c of
        None \<Rightarrow> Some (x, c # s)
      | Some d \<Rightarrow>
          if 2 ^ 63 div 10 < x then None
          else if 2 ^ 63 < x * 10 + d then None
          else leading_int (x * 10 + d) s)"

text \<open>\<open>leadingFraction\<close>: digits beyond the precision are read and dropped.\<close>

fun leading_fraction :: "nat \<Rightarrow> float64 \<Rightarrow> bool \<Rightarrow> bytes \<Rightarrow> nat \<times> float64 \<times> bytes" where
  "leading_fraction x scale overflow [] = (x, scale, [])"
| "leading_fraction x scale overflow (c # s) =
     (case digit_val c of
        None \<Rightarrow> (x, scale, c # s)
      | Some d \<Rightarrow>
          if overflow then leading_fraction x scale True s
          else if (2 ^ 63 - 1) div 10 < x then leading_fraction x scale True s
          else if 2 ^ 63 < x * 10 + d then leading_fraction x scale True s
          else leading_fraction (x * 10 + d) (f_mul scale (f_of_nat 10)) False s)"

definition unit_char :: "char \<Rightarrow> bool" where
  "unit_char c \<longleftrightarrow> c \<noteq> CHR ''.'' \<and> digit_val c = None"

lemma leading_int_length: "leading_int x s = Some (v, r) \<Longrightarrow> length r \<le> length s"
  by (induction x s rule: leading_int.induct) (fastforce split: option.splits if_splits)+

lemma leading_fraction_length: "leading_fraction x sc ov s = (f, sc', r) \<Longrightarrow> length r \<le> length s"
  by (induction x sc ov s rule: leading_fraction.induct) (fastforce split: option.splits if_splits)+

text \<open>One number with its unit: its nanoseconds and the rest.\<close>

definition read_fraction :: "bytes \<Rightarrow> nat \<times> float64 \<times> bytes \<times> bool" where
  "read_fraction s =
     (if s \<noteq> [] \<and> hd s = CHR ''.'' then
        (case leading_fraction 0 (f_of_nat 1) False (tl s) of (f, scale, r) \<Rightarrow> (f, scale, r, length r \<noteq> length (tl s)))
      else (0, f_of_nat 1, s, False))"

lemma read_fraction_length:
  assumes "read_fraction s = (f, scale, r, post)"
  shows "length r \<le> length s"
proof (cases "s \<noteq> [] \<and> hd s = CHR ''.''")
  case True
  obtain f' scale' r' where l: "leading_fraction 0 (f_of_nat 1) False (tl s) = (f', scale', r')"
    by (cases "leading_fraction 0 (f_of_nat 1) False (tl s)") auto
  then have "r = r'" using assms True by (simp add: read_fraction_def)
  then show ?thesis using leading_fraction_length [OF l] by (cases s) simp_all
next
  case False
  then have "read_fraction s = (0, f_of_nat 1, s, False)" unfolding read_fraction_def by (rule if_not_P)
  then show ?thesis using assms by simp
qed

definition read_component :: "bytes \<Rightarrow> duration_error + nat \<times> bytes" where
  "read_component s =
     (if s = [] \<or> (hd s \<noteq> CHR ''.'' \<and> digit_val (hd s) = None) then Inl InvalidDuration
      else case leading_int 0 s of
        None \<Rightarrow> Inl InvalidDuration
      | Some (v, s1) \<Rightarrow>
          (case read_fraction s1 of (f, scale, s2, post) \<Rightarrow>
             if length s1 = length s \<and> \<not> post then Inl InvalidDuration
             else
               (let u = takeWhile unit_char s2; rest = dropWhile unit_char s2 in
                if u = [] then Inl MissingUnit
                else case duration_unit u of
                  None \<Rightarrow> Inl (UnknownUnit u)
                | Some unit \<Rightarrow>
                    if 2 ^ 63 div unit < v then Inl InvalidDuration
                    else
                      (let ns = v * unit + (if 0 < f then f_floor (f_mul (f_of_nat f) (f_div (f_of_nat unit) scale)) else 0) in
                       if 2 ^ 63 < ns then Inl InvalidDuration else Inr (ns, rest)))))"

lemma read_component_length:
  assumes r: "read_component s = Inr (ns, rest)"
  shows "length rest < length s"
proof (cases "leading_int 0 s")
  case None
  with r show ?thesis by (simp add: read_component_def split: if_split_asm)
next
  case (Some vs)
  obtain v s1 where int: "leading_int 0 s = Some (v, s1)" using Some by (cases vs) simp
  obtain f scale s2 post where frac: "read_fraction s1 = (f, scale, s2, post)" by (cases "read_fraction s1") auto
  let ?u = "takeWhile unit_char s2" and ?rest = "dropWhile unit_char s2"
  have u: "?u \<noteq> [] \<and> rest = ?rest"
  proof (cases "duration_unit ?u")
    case None
    with r int frac show ?thesis by (simp add: read_component_def Let_def split: if_split_asm)
  next
    case (Some unit)
    with r int frac show ?thesis by (simp add: read_component_def Let_def split: if_split_asm)
  qed
  have "length ?u + length ?rest = length s2" by (metis length_append takeWhile_dropWhile_id)
  then have "length rest < length s2" using u by (cases ?u) simp_all
  then show ?thesis using leading_int_length [OF int] read_fraction_length [OF frac] by simp
qed

function sum_components :: "nat \<Rightarrow> bytes \<Rightarrow> duration_error + nat" where
  "sum_components d s =
     (if s = [] then Inr d
      else case read_component s of
        Inl err \<Rightarrow> Inl err
      | Inr (ns, rest) \<Rightarrow>
          (let d' = (d + ns) mod 2 ^ 64 in
           if 2 ^ 63 < d' then Inl InvalidDuration else sum_components d' rest))"
  by pat_completeness auto
termination
  by (relation "measure (\<lambda>(d, s). length s)") (auto dest: read_component_length)

declare sum_components.simps [simp del]

definition parse_duration :: "bytes \<Rightarrow> duration_error + int" where
  "parse_duration s =
     (let neg = has_prefix s ''-''; s1 = (if neg \<or> has_prefix s ''+'' then tl s else s) in
      if s1 = ''0'' then Inr 0
      else if s1 = '''' then Inl InvalidDuration
      else case sum_components 0 s1 of
        Inl err \<Rightarrow> Inl err
      | Inr d \<Rightarrow>
          if neg then Inr (wrap64 (- int d))
          else if 2 ^ 63 - 1 < d then Inl InvalidDuration
          else Inr (int d))"

subsection \<open>A whole number of a unit is read back\<close>

lemma leading_int_digits:
  "all_digits ds \<Longrightarrow> dec_value x ds \<le> 2 ^ 63 \<Longrightarrow> r = [] \<or> digit_val (hd r) = None \<Longrightarrow>
   leading_int x (ds @ r) = Some (dec_value x ds, r)"
proof (induction ds arbitrary: x)
  case Nil
  then show ?case by (cases r) simp_all
next
  case (Cons c ds)
  then obtain d where d: "digit_val c = Some d" by (auto simp: all_digits_def)
  have "x * 10 + d \<le> dec_value (x * 10 + d) ds" by (rule dec_value_mono)
  then have "x * 10 + d \<le> 2 ^ 63" using Cons.prems(2) d by (simp add: mult.commute)
  moreover from this have "x \<le> 2 ^ 63 div 10" by simp
  ultimately show ?case using Cons d by (simp add: all_digits_def mult.commute)
qed

lemma takeWhile_all: "list_all P s \<Longrightarrow> takeWhile P s = s \<and> dropWhile P s = []"
  by (auto simp: list_all_iff)

lemma parse_duration_whole:
  assumes "duration_unit u = Some k" and "list_all unit_char u" and "n * k < 2 ^ 63"
  shows "parse_duration (dec n @ u) = Inr (int (n * k))"
proof -
  have u: "u \<noteq> []" "hd u \<noteq> CHR ''.''" "digit_val (hd u) = None" and k: "0 < k"
    using assms(1,2) by (auto simp: duration_unit_def unit_char_def split: if_splits)
  have n: "n \<le> 2 ^ 63 div k" using assms(3) k by (simp add: less_eq_div_iff_mult_less_eq)
  then have bound: "dec_value 0 (dec n) \<le> 2 ^ 63"
    using div_le_dividend [of "2 ^ 63" k] by (simp del: div_le_dividend)
  have int: "leading_int 0 (dec n @ u) = Some (n, u)"
    using leading_int_digits [OF all_digits_dec bound, of u] u by simp
  have hd: "digit_val (hd (dec n @ u)) \<noteq> None" using hd_dec_digit [of n] by simp
  have "read_component (dec n @ u) = Inr (n * k, [])"
    using hd u n assms(1,3)
    by (simp add: read_component_def int read_fraction_def Let_def not_less takeWhile_all [OF assms(2)])
  then have "sum_components 0 (dec n @ u) = Inr (n * k)"
    using assms(3) by (simp add: sum_components.simps [of 0] sum_components.simps [of _ "[]"] Let_def)
  moreover obtain c ds where c: "dec n = c # ds" by (cases "dec n") simp_all
  moreover have "digit_val c \<noteq> None" using hd c by simp
  then have "c \<noteq> CHR ''-''" "c \<noteq> CHR ''+''" by (auto simp: digit_val_def)
  then have "\<not> has_prefix (dec n @ u) ''-''" "\<not> has_prefix (dec n @ u) ''+''" using c by (simp_all add: has_prefix_def)
  moreover have "dec n @ u \<noteq> ''0''" using c u(1) by simp
  ultimately show ?thesis using assms(3) u(1) by (auto simp: parse_duration_def Let_def)
qed

lemmas parse_duration_eval = parse_duration_def sum_components.simps read_component_def read_fraction_def
  duration_unit_def digit_val_def unit_char_def has_prefix_def wrap64_def Let_def

lemma parse_duration_examples:
  "parse_duration ''30s'' = Inr 30000000000" "parse_duration ''1m30s'' = Inr 90000000000"
  "parse_duration ''-5ms'' = Inr (- 5000000)" "parse_duration ''10'' = Inl MissingUnit"
  "parse_duration '''' = Inl InvalidDuration" "parse_duration ''.s'' = Inl InvalidDuration"
  by (simp_all add: parse_duration_eval)

end
