(* ===== verification/Config.thy ===== *)
theory Config
  imports Go_Duration Go_Os
begin

text \<open>
  \<open>internal/mlxlinkexporter/config.go\<close>: the configuration from the environment and the command
  line. The environment is a parameter, a function from names to values that is empty for an
  unset variable. The argument parser is the one of Go's \<open>flag\<close> package, for the flags that
  are defined here. The lemmas say that an accepted configuration is usable, and where each of
  its values comes from.
\<close>

record config =
  ListenAddress :: bytes
  MetricsPath :: bytes
  HealthPath :: bytes
  ReadyPath :: bytes
  LogLevel :: log_level
  MlxlinkPath :: bytes
  SysfsRoot :: bytes
  PollInterval :: int
  CommandTimeout :: int
  ExcludeDevices :: "bytes list"
  ConfigShowEye :: bool
  ConfigShowPCIeEye :: bool
  ShowVersion :: bool

definition staleAfterFactor :: int where "staleAfterFactor = 5"

definition stale_after :: "config \<Rightarrow> int" where
  "stale_after cfg = wrap64 (PollInterval cfg * staleAfterFactor)"

datatype flag_error =
  ErrHelp
| BadFlagSyntax bytes
| UndefinedFlag bytes
| NeedsArgument bytes
| InvalidFlagValue bytes bytes

datatype config_error =
  HelpRequested
| ParseFlags flag_error
| InvalidEnv bytes
| InvalidLogLevel bytes
| InvalidPollInterval int
| InvalidCommandTimeout int

subsection \<open>Values of the environment\<close>

definition env_bool_or_default :: "(bytes \<Rightarrow> bytes) \<Rightarrow> bytes \<Rightarrow> bool \<Rightarrow> config_error + bool" where
  "env_bool_or_default getenv key fallback =
     (let value = trim_space (getenv key) in
      if value = '''' then Inr fallback
      else case parse_bool value of Inl err \<Rightarrow> Inl (InvalidEnv key) | Inr b \<Rightarrow> Inr b)"

definition env_or_default :: "(bytes \<Rightarrow> bytes) \<Rightarrow> bytes \<Rightarrow> bytes \<Rightarrow> bytes" where
  "env_or_default getenv key fallback =
     (let value = trim_space (getenv key) in if value \<noteq> '''' then value else fallback)"

text \<open>The two intervals: here the value is not trimmed.\<close>

definition env_duration_or_default :: "(bytes \<Rightarrow> bytes) \<Rightarrow> bytes \<Rightarrow> int \<Rightarrow> config_error + int" where
  "env_duration_or_default getenv key fallback =
     (if getenv key \<noteq> '''' then
        (case parse_duration (getenv key) of Inl err \<Rightarrow> Inl (InvalidEnv key) | Inr d \<Rightarrow> Inr d)
      else Inr fallback)"

definition parse_log_level :: "bytes \<Rightarrow> config_error + log_level" where
  "parse_log_level value =
     (let v = to_lower (trim_space value) in
      if v = ''debug'' then Inr LogDebug
      else if v = ''info'' \<or> v = '''' then Inr LogInfo
      else if v = ''warn'' \<or> v = ''warning'' then Inr LogWarn
      else if v = ''error'' \<or> v = ''err'' then Inr LogError
      else Inl (InvalidLogLevel value))"

definition parse_device_list :: "bytes \<Rightarrow> bytes list" where
  "parse_device_list devices =
     (if devices = '''' then []
      else filter (\<lambda>d. d \<noteq> '''') (map trim_space (split_on CHR '','' devices)))"

subsection \<open>Flags\<close>

text \<open>The variables behind the flags.\<close>

record flag_values =
  FlagListen :: bytes
  FlagMetricsPath :: bytes
  FlagHealthPath :: bytes
  FlagReadyPath :: bytes
  FlagLogLevel :: bytes
  FlagMlxlinkPath :: bytes
  FlagSysfsRoot :: bytes
  FlagExcludeDevices :: bytes
  FlagShowEye :: bool
  FlagShowPCIeEye :: bool
  FlagPollInterval :: int
  FlagCommandTimeout :: int
  FlagShowVersion :: bool

text \<open>What a flag takes, and how it stores it.\<close>

datatype flag_setter =
  StringFlag "bytes \<Rightarrow> flag_values \<Rightarrow> flag_values"
| BoolFlag "bool \<Rightarrow> flag_values \<Rightarrow> flag_values"
| DurationFlag "int \<Rightarrow> flag_values \<Rightarrow> flag_values"

definition flag_table :: "(bytes \<times> flag_setter) list" where
  "flag_table =
     [(''listen-address'', StringFlag (\<lambda>x v. v\<lparr> FlagListen := x \<rparr>)),
      (''metrics-path'', StringFlag (\<lambda>x v. v\<lparr> FlagMetricsPath := x \<rparr>)),
      (''health-path'', StringFlag (\<lambda>x v. v\<lparr> FlagHealthPath := x \<rparr>)),
      (''ready-path'', StringFlag (\<lambda>x v. v\<lparr> FlagReadyPath := x \<rparr>)),
      (''log-level'', StringFlag (\<lambda>x v. v\<lparr> FlagLogLevel := x \<rparr>)),
      (''mlxlink-path'', StringFlag (\<lambda>x v. v\<lparr> FlagMlxlinkPath := x \<rparr>)),
      (''sysfs-root'', StringFlag (\<lambda>x v. v\<lparr> FlagSysfsRoot := x \<rparr>)),
      (''exclude-devices'', StringFlag (\<lambda>x v. v\<lparr> FlagExcludeDevices := x \<rparr>)),
      (''show-eye'', BoolFlag (\<lambda>x v. v\<lparr> FlagShowEye := x \<rparr>)),
      (''show-pcie-eye'', BoolFlag (\<lambda>x v. v\<lparr> FlagShowPCIeEye := x \<rparr>)),
      (''poll-interval'', DurationFlag (\<lambda>x v. v\<lparr> FlagPollInterval := x \<rparr>)),
      (''command-timeout'', DurationFlag (\<lambda>x v. v\<lparr> FlagCommandTimeout := x \<rparr>)),
      (''version'', BoolFlag (\<lambda>x v. v\<lparr> FlagShowVersion := x \<rparr>))]"

text \<open>A flag's name and the value after its first equals sign, which cannot be its first character.\<close>

definition split_flag :: "bytes \<Rightarrow> bytes \<times> bytes option" where
  "split_flag name =
     (let rest = dropWhile (\<lambda>c. c \<noteq> CHR ''='') (tl name) in
      if rest = [] then (name, None)
      else (hd name # takeWhile (\<lambda>c. c \<noteq> CHR ''='') (tl name), Some (tl rest)))"

definition flag_word :: "bytes \<Rightarrow> bytes" where
  "flag_word s = (if has_prefix s ''--'' then drop 2 s else drop 1 s)"

definition set_value :: "flag_setter \<Rightarrow> bytes \<Rightarrow> bytes \<Rightarrow> flag_values \<Rightarrow> flag_error + flag_values" where
  "set_value setter name value v =
     (case setter of
        StringFlag f \<Rightarrow> Inr (f value v)
      | BoolFlag f \<Rightarrow> (case parse_bool value of Inl err \<Rightarrow> Inl (InvalidFlagValue name value) | Inr b \<Rightarrow> Inr (f b v))
      | DurationFlag f \<Rightarrow>
          (case parse_duration value of Inl err \<Rightarrow> Inl (InvalidFlagValue name value) | Inr d \<Rightarrow> Inr (f d v)))"

text \<open>What one flag sets: a bool needs no argument, any other flag takes the next one if it has to.\<close>

definition apply_flag ::
  "flag_setter \<Rightarrow> bytes \<Rightarrow> bytes option \<Rightarrow> bytes list \<Rightarrow> flag_values \<Rightarrow> flag_error + bytes list \<times> flag_values" where
  "apply_flag setter name given args v =
     (case (given, setter) of
        (Some value, _) \<Rightarrow> map_sum id (Pair args) (set_value setter name value v)
      | (None, BoolFlag f) \<Rightarrow> Inr (args, f True v)
      | (None, _) \<Rightarrow>
          (case args of
             [] \<Rightarrow> Inl (NeedsArgument name)
           | value # rest \<Rightarrow> map_sum id (Pair rest) (set_value setter name value v)))"

text \<open>
  \<open>parseOne\<close>, for the argument in front of the others: None when it is not a flag, and
  otherwise an error, or the arguments that are left.
\<close>

definition parse_one ::
  "bytes \<Rightarrow> bytes list \<Rightarrow> flag_values \<Rightarrow> (flag_error + bytes list \<times> flag_values) option" where
  "parse_one s args v =
     (if length s < 2 \<or> hd s \<noteq> CHR ''-'' then None
      else if s = ''--'' then None
      else
        let word = flag_word s in
        if word = '''' \<or> hd word = CHR ''-'' \<or> hd word = CHR ''='' then Some (Inl (BadFlagSyntax s))
        else
          (case split_flag word of (name, given) \<Rightarrow>
             (case map_of flag_table name of
               None \<Rightarrow> Some (Inl (if name = ''help'' \<or> name = ''h'' then ErrHelp else UndefinedFlag name))
             | Some setter \<Rightarrow> Some (apply_flag setter name given args v))))"

lemma apply_flag_rest: "apply_flag setter name given args v = Inr (rest, v') \<Longrightarrow> length rest \<le> length args"
  by (auto simp: apply_flag_def map_sum_def split: option.splits flag_setter.splits list.splits sum.splits)

lemma parse_oneD:
  assumes "parse_one s args v = Some (Inr (rest, v'))"
  obtains name setter given where "map_of flag_table name = Some setter"
    "apply_flag setter name given args v = Inr (rest, v')"
  using assms unfolding parse_one_def Let_def by (auto split: if_split_asm prod.split_asm option.split_asm)

text \<open>\<open>FlagSet.Parse\<close>: flags until the first argument that is not one; what follows is left alone.\<close>

function parse_flags :: "bytes list \<Rightarrow> flag_values \<Rightarrow> flag_error + flag_values" where
  "parse_flags [] v = Inr v"
| "parse_flags (s # args) v =
     (case parse_one s args v of
        None \<Rightarrow> Inr v
      | Some (Inl err) \<Rightarrow> Inl err
      | Some (Inr (rest, v')) \<Rightarrow> parse_flags rest v')"
  by pat_completeness auto
termination
  by (relation "measure (\<lambda>(args, v). length args)") (auto elim!: parse_oneD dest!: apply_flag_rest)

subsection \<open>The configuration\<close>

text \<open>
  What the flags hold before they are parsed: the environment, and the defaults where it says
  nothing. A value of the environment that cannot be read is an error, whatever the flags say.
\<close>

definition flag_defaults :: "(bytes \<Rightarrow> bytes) \<Rightarrow> config_error + flag_values" where
  "flag_defaults getenv =
     (case env_bool_or_default getenv ''MLXLINK_EXPORTER_SHOW_EYE'' False of
        Inl err \<Rightarrow> Inl err
      | Inr show_eye \<Rightarrow>
     (case env_bool_or_default getenv ''MLXLINK_EXPORTER_SHOW_PCIE_EYE'' False of
        Inl err \<Rightarrow> Inl err
      | Inr show_pcie_eye \<Rightarrow>
     (case env_duration_or_default getenv ''MLXLINK_EXPORTER_POLL_INTERVAL'' (30 * 10 ^ 9) of
        Inl err \<Rightarrow> Inl err
      | Inr poll_interval \<Rightarrow>
     (case env_duration_or_default getenv ''MLXLINK_EXPORTER_COMMAND_TIMEOUT'' (3 * 10 ^ 9) of
        Inl err \<Rightarrow> Inl err
      | Inr command_timeout \<Rightarrow>
          Inr \<lparr> FlagListen = env_or_default getenv ''MLXLINK_EXPORTER_LISTEN_ADDRESS'' '':9880'',
            FlagMetricsPath = env_or_default getenv ''MLXLINK_EXPORTER_METRICS_PATH'' ''/metrics'',
            FlagHealthPath = env_or_default getenv ''MLXLINK_EXPORTER_HEALTH_PATH'' ''/healthz'',
            FlagReadyPath = env_or_default getenv ''MLXLINK_EXPORTER_READY_PATH'' ''/readyz'',
            FlagLogLevel = env_or_default getenv ''MLXLINK_EXPORTER_LOG_LEVEL'' ''info'',
            FlagMlxlinkPath = env_or_default getenv ''MLXLINK_EXPORTER_MLXLINK_PATH'' ''/usr/bin/mlxlink'',
            FlagSysfsRoot = env_or_default getenv ''MLXLINK_EXPORTER_SYSFS_ROOT'' ''/sys'',
            FlagExcludeDevices = env_or_default getenv ''MLXLINK_EXPORTER_EXCLUDE_DEVICES'' '''',
            FlagShowEye = show_eye, FlagShowPCIeEye = show_pcie_eye,
            FlagPollInterval = poll_interval, FlagCommandTimeout = command_timeout,
            FlagShowVersion = False \<rparr>))))"

definition config_of :: "flag_values \<Rightarrow> config_error + config" where
  "config_of v =
     (case parse_log_level (FlagLogLevel v) of
        Inl err \<Rightarrow> Inl err
      | Inr level \<Rightarrow>
          if FlagPollInterval v \<le> 0 then Inl (InvalidPollInterval (FlagPollInterval v))
          else if FlagCommandTimeout v \<le> 0 then Inl (InvalidCommandTimeout (FlagCommandTimeout v))
          else Inr \<lparr> ListenAddress = FlagListen v, MetricsPath = FlagMetricsPath v, HealthPath = FlagHealthPath v,
            ReadyPath = FlagReadyPath v, LogLevel = level, MlxlinkPath = FlagMlxlinkPath v,
            SysfsRoot = FlagSysfsRoot v, PollInterval = FlagPollInterval v,
            CommandTimeout = FlagCommandTimeout v, ExcludeDevices = parse_device_list (FlagExcludeDevices v),
            ConfigShowEye = FlagShowEye v, ConfigShowPCIeEye = FlagShowPCIeEye v,
            ShowVersion = FlagShowVersion v \<rparr>)"

definition parse_config :: "(bytes \<Rightarrow> bytes) \<Rightarrow> bytes list \<Rightarrow> config_error + config" where
  "parse_config getenv args =
     (case flag_defaults getenv of
        Inl err \<Rightarrow> Inl err
      | Inr defaults \<Rightarrow>
          (case parse_flags args defaults of
             Inl err \<Rightarrow> Inl (if err = ErrHelp then HelpRequested else ParseFlags err)
           | Inr v \<Rightarrow> config_of v))"

subsection \<open>Accepted configurations\<close>

lemma parse_duration_int64: "parse_duration s = Inr d \<Longrightarrow> int64 d"
  by (auto simp: parse_duration_def Let_def int64_def min_int64_def max_int64_def
      dest: sym [where s = "wrap64 _"] split: if_splits sum.splits)
    (use wrap64_int64 in \<open>simp_all add: int64_def min_int64_def max_int64_def\<close>)

definition durations_ok :: "flag_values \<Rightarrow> bool" where
  "durations_ok v \<longleftrightarrow> int64 (FlagPollInterval v) \<and> int64 (FlagCommandTimeout v)"

lemma flag_table_durations:
  "map_of flag_table name = Some setter \<Longrightarrow> durations_ok v \<Longrightarrow>
   (case setter of StringFlag f \<Rightarrow> durations_ok (f s v) | BoolFlag f \<Rightarrow> durations_ok (f b v)
    | DurationFlag f \<Rightarrow> int64 d \<longrightarrow> durations_ok (f d v))"
  by (auto simp: flag_table_def durations_ok_def split: if_splits)

lemma set_value_durations:
  "map_of flag_table name = Some setter \<Longrightarrow> durations_ok v \<Longrightarrow> set_value setter name x v = Inr v' \<Longrightarrow> durations_ok v'"
  using flag_table_durations [of name setter v x] parse_duration_int64
  by (auto simp: set_value_def split: flag_setter.splits sum.splits)

lemma apply_flag_durations:
  assumes "map_of flag_table name = Some setter" and "durations_ok v"
    and "apply_flag setter name given args v = Inr (rest, v')"
  shows "durations_ok v'"
  using assms(3) flag_table_durations [OF assms(1,2), of _ True] set_value_durations [OF assms(1,2)]
  by (auto simp: apply_flag_def map_sum_def split: option.splits flag_setter.splits list.splits sum.splits)

lemma parse_flags_durations: "parse_flags args v = Inr v' \<Longrightarrow> durations_ok v \<Longrightarrow> durations_ok v'"
proof (induction args v rule: parse_flags.induct)
  case (2 s args v)
  show ?case
  proof (cases "parse_one s args v")
    case None
    then show ?thesis using 2 by simp
  next
    case (Some r)
    then obtain rest w where r: "parse_one s args v = Some (Inr (rest, w))"
      using 2(2) by (cases r) auto
    then have "durations_ok w" using 2(3) apply_flag_durations by (elim parse_oneD)
    then show ?thesis using 2(1) [OF r] 2(2) r by simp
  qed
qed simp

text \<open>The devices of a list are trimmed, none is empty, and a list that is written out is read back.\<close>

lemma parse_device_list_ok:
  "list_all (\<lambda>d. d \<noteq> '''' \<and> trim_space d = d) (parse_device_list devices)"
  by (auto simp: parse_device_list_def list_all_iff)

definition device_name_ok :: "bytes \<Rightarrow> bool" where
  "device_name_ok d \<longleftrightarrow> d \<noteq> '''' \<and> trim_space d = d \<and> CHR '','' \<notin> set d"

lemma parse_device_list_join:
  assumes "list_all device_name_ok ds"
  shows "parse_device_list (join_with CHR '','' ds) = ds"
proof (cases "ds = []")
  case False
  have ds: "\<And>d. d \<in> set ds \<Longrightarrow> CHR '','' \<notin> set d" "filter (\<lambda>d. d \<noteq> '''') (map trim_space ds) = ds"
    using assms by (auto simp: list_all_iff device_name_ok_def map_idI filter_id_conv)
  have "join_with CHR '','' ds \<noteq> ''''"
    using split_join [OF False ds(1)] assms False by (cases ds) (auto simp: device_name_ok_def)
  then show ?thesis using split_join [OF False ds(1)] ds(2) by (simp add: parse_device_list_def)
qed (simp add: parse_device_list_def)

lemma env_duration_int64:
  "env_duration_or_default getenv key fallback = Inr d \<Longrightarrow> int64 fallback \<Longrightarrow> int64 d"
  using parse_duration_int64 by (auto simp: env_duration_or_default_def split: if_splits sum.splits)

lemma default_durations: "int64 30000000000" "int64 3000000000"
  by (simp_all add: int64_def min_int64_def max_int64_def)

lemma flag_defaults_durations: "flag_defaults getenv = Inr v \<Longrightarrow> durations_ok v"
  unfolding flag_defaults_def durations_ok_def
  by (auto split: sum.split_asm dest!: env_duration_int64 [OF _ default_durations(1)]
      env_duration_int64 [OF _ default_durations(2)])

definition config_usable :: "config \<Rightarrow> bool" where
  "config_usable cfg \<longleftrightarrow> 0 < PollInterval cfg \<and> int64 (PollInterval cfg) \<and>
     0 < CommandTimeout cfg \<and> int64 (CommandTimeout cfg) \<and>
     list_all (\<lambda>d. d \<noteq> '''' \<and> trim_space d = d) (ExcludeDevices cfg)"

lemma config_of_usable: "durations_ok v \<Longrightarrow> config_of v = Inr cfg \<Longrightarrow> config_usable cfg"
  using parse_device_list_ok
  by (auto simp: config_of_def durations_ok_def config_usable_def split: sum.splits if_splits)

lemma parse_config_usable: "parse_config getenv args = Inr cfg \<Longrightarrow> config_usable cfg"
  using flag_defaults_durations parse_flags_durations config_of_usable
  unfolding parse_config_def by (fastforce split: sum.split_asm)

subsection \<open>What is refused\<close>

lemma trim_space_subset: "set (trim_space s) \<subseteq> set s"
  using trim_space_decomp [of s] by (metis Un_subset_iff set_append subsetI UnI1 UnI2)

lemma parse_device_list_set: "set (parse_device_list devices) = trim_space ` set (split_on CHR '','' devices) - {''''}"
  by (auto simp: parse_device_list_def)

lemma parse_device_list_commas: "d \<in> set (parse_device_list devices) \<Longrightarrow> CHR '','' \<notin> set d"
  using trim_space_subset by (auto simp: parse_device_list_set dest: split_on_set)

text \<open>A variable of the environment that is set and says nothing readable.\<close>

definition unreadable_bool :: "(bytes \<Rightarrow> bytes) \<Rightarrow> bytes \<Rightarrow> bool" where
  "unreadable_bool getenv key \<longleftrightarrow> trim_space (getenv key) \<noteq> '''' \<and>
     trim_space (getenv key) \<notin>
       {''1'', ''t'', ''T'', ''true'', ''TRUE'', ''True'', ''0'', ''f'', ''F'', ''false'', ''FALSE'', ''False''}"

definition unreadable_duration :: "(bytes \<Rightarrow> bytes) \<Rightarrow> bytes \<Rightarrow> bool" where
  "unreadable_duration getenv key \<longleftrightarrow> getenv key \<noteq> '''' \<and> (\<forall>d. parse_duration (getenv key) \<noteq> Inr d)"

definition environment_unreadable :: "(bytes \<Rightarrow> bytes) \<Rightarrow> bytes \<Rightarrow> bool" where
  "environment_unreadable getenv key \<longleftrightarrow>
     key \<in> {''MLXLINK_EXPORTER_SHOW_EYE'', ''MLXLINK_EXPORTER_SHOW_PCIE_EYE''} \<and> unreadable_bool getenv key \<or>
     key \<in> {''MLXLINK_EXPORTER_POLL_INTERVAL'', ''MLXLINK_EXPORTER_COMMAND_TIMEOUT''} \<and> unreadable_duration getenv key"

lemma env_bool_cases:
  "case env_bool_or_default getenv key fallback of
     Inl err \<Rightarrow> err = InvalidEnv key \<and> unreadable_bool getenv key
   | Inr b \<Rightarrow> \<not> unreadable_bool getenv key"
  by (auto simp: env_bool_or_default_def unreadable_bool_def parse_bool_def Let_def)

lemma env_duration_cases:
  "case env_duration_or_default getenv key fallback of
     Inl err \<Rightarrow> err = InvalidEnv key \<and> unreadable_duration getenv key
   | Inr d \<Rightarrow> \<not> unreadable_duration getenv key"
  by (auto simp: env_duration_or_default_def unreadable_duration_def split: sum.split)

lemma flag_defaults_cases:
  "case flag_defaults getenv of
     Inl err \<Rightarrow> \<exists>key. err = InvalidEnv key \<and> environment_unreadable getenv key
   | Inr defaults \<Rightarrow> \<nexists>key. environment_unreadable getenv key"
proof -
  note bools = env_bool_cases [where getenv = getenv and key = "''MLXLINK_EXPORTER_SHOW_EYE''" and fallback = False]
    env_bool_cases [where getenv = getenv and key = "''MLXLINK_EXPORTER_SHOW_PCIE_EYE''" and fallback = False]
  note durations = env_duration_cases [where getenv = getenv and key = "''MLXLINK_EXPORTER_POLL_INTERVAL''" and fallback = "30 * 10 ^ 9"]
    env_duration_cases [where getenv = getenv and key = "''MLXLINK_EXPORTER_COMMAND_TIMEOUT''" and fallback = "3 * 10 ^ 9"]
  show ?thesis
    using bools durations unfolding flag_defaults_def environment_unreadable_def
    by (auto split: sum.splits)
qed

definition known_log_level :: "bytes \<Rightarrow> bool" where
  "known_log_level t \<longleftrightarrow> to_lower (trim_space t) \<in>
     {''debug'', ''info'', '''', ''warn'', ''warning'', ''error'', ''err''}"

lemma parse_log_level_known:
  "case parse_log_level t of Inl err \<Rightarrow> err = InvalidLogLevel t \<and> \<not> known_log_level t | Inr l \<Rightarrow> known_log_level t"
  by (auto simp: parse_log_level_def known_log_level_def Let_def)

subsection \<open>Flags written out\<close>

definition render_bool :: "bool \<Rightarrow> bytes" where
  "render_bool b = (if b then ''true'' else ''false'')"

definition render_duration :: "int \<Rightarrow> bytes" where
  "render_duration d = dec (nat d) @ ''ns''"

definition render_flags :: "flag_values \<Rightarrow> bytes list" where
  "render_flags v =
     [''--listen-address='' @ FlagListen v, ''--metrics-path='' @ FlagMetricsPath v,
      ''--health-path='' @ FlagHealthPath v, ''--ready-path='' @ FlagReadyPath v,
      ''--log-level='' @ FlagLogLevel v, ''--mlxlink-path='' @ FlagMlxlinkPath v,
      ''--sysfs-root='' @ FlagSysfsRoot v, ''--exclude-devices='' @ FlagExcludeDevices v,
      ''--show-eye='' @ render_bool (FlagShowEye v), ''--show-pcie-eye='' @ render_bool (FlagShowPCIeEye v),
      ''--poll-interval='' @ render_duration (FlagPollInterval v),
      ''--command-timeout='' @ render_duration (FlagCommandTimeout v),
      ''--version='' @ render_bool (FlagShowVersion v)]"

lemma parse_render_duration: "0 \<le> d \<Longrightarrow> int64 d \<Longrightarrow> parse_duration (render_duration d) = Inr d"
  using parse_duration_whole [of "''ns''" 1 "nat d"]
  by (simp add: render_duration_def duration_unit_def unit_char_def digit_val_def int64_def max_int64_def nat_less_iff)

lemma parse_render_bool: "parse_bool (render_bool b) = Inr b"
  by (simp add: parse_bool_def render_bool_def)

lemmas parse_one_simps = parse_one_def flag_word_def split_flag_def has_prefix_def flag_table_def apply_flag_def
  set_value_def Let_def

lemma parse_one_strings:
  "parse_one (''--listen-address='' @ x) args v = Some (Inr (args, v\<lparr> FlagListen := x \<rparr>))"
  "parse_one (''--metrics-path='' @ x) args v = Some (Inr (args, v\<lparr> FlagMetricsPath := x \<rparr>))"
  "parse_one (''--health-path='' @ x) args v = Some (Inr (args, v\<lparr> FlagHealthPath := x \<rparr>))"
  "parse_one (''--ready-path='' @ x) args v = Some (Inr (args, v\<lparr> FlagReadyPath := x \<rparr>))"
  "parse_one (''--log-level='' @ x) args v = Some (Inr (args, v\<lparr> FlagLogLevel := x \<rparr>))"
  "parse_one (''--mlxlink-path='' @ x) args v = Some (Inr (args, v\<lparr> FlagMlxlinkPath := x \<rparr>))"
  "parse_one (''--sysfs-root='' @ x) args v = Some (Inr (args, v\<lparr> FlagSysfsRoot := x \<rparr>))"
  "parse_one (''--exclude-devices='' @ x) args v = Some (Inr (args, v\<lparr> FlagExcludeDevices := x \<rparr>))"
  by (simp_all add: parse_one_simps)

lemma parse_one_bools:
  "parse_one (''--show-eye='' @ render_bool b) args v = Some (Inr (args, v\<lparr> FlagShowEye := b \<rparr>))"
  "parse_one (''--show-pcie-eye='' @ render_bool b) args v = Some (Inr (args, v\<lparr> FlagShowPCIeEye := b \<rparr>))"
  "parse_one (''--version='' @ render_bool b) args v = Some (Inr (args, v\<lparr> FlagShowVersion := b \<rparr>))"
  by (simp_all add: parse_one_simps parse_render_bool)

lemma parse_one_durations:
  assumes "0 \<le> d" and "int64 d"
  shows
  "parse_one (''--poll-interval='' @ render_duration d) args v = Some (Inr (args, v\<lparr> FlagPollInterval := d \<rparr>))"
  "parse_one (''--command-timeout='' @ render_duration d) args v = Some (Inr (args, v\<lparr> FlagCommandTimeout := d \<rparr>))"
  using parse_render_duration [OF assms] by (simp_all add: parse_one_simps)

lemma parse_flags_render:
  assumes "0 \<le> FlagPollInterval v" and "0 \<le> FlagCommandTimeout v" and "durations_ok v"
  shows "parse_flags (render_flags v) defaults = Inr v"
  using assms
  by (simp add: render_flags_def parse_one_strings [simplified] parse_one_bools [simplified]
      parse_one_durations [simplified] durations_ok_def)

text \<open>The flags when nothing is set.\<close>

definition flags_unset :: flag_values where
  "flags_unset =
     \<lparr> FlagListen = '':9880'', FlagMetricsPath = ''/metrics'', FlagHealthPath = ''/healthz'',
       FlagReadyPath = ''/readyz'', FlagLogLevel = ''info'', FlagMlxlinkPath = ''/usr/bin/mlxlink'',
       FlagSysfsRoot = ''/sys'', FlagExcludeDevices = '''', FlagShowEye = False, FlagShowPCIeEye = False,
       FlagPollInterval = 30000000000, FlagCommandTimeout = 3000000000, FlagShowVersion = False \<rparr>"

lemma parse_log_level_info [simp]: "parse_log_level ''info'' = Inr LogInfo"
  by (simp add: parse_log_level_def trim_space_graphic graphic_def ascii_lower_def)

subsection \<open>Properties\<close>

text \<open>
  C22: What is accepted and what is refused. A configuration is accepted only when no variable of
  the environment is unreadable, the flags parse, the log level is one of the known ones and both
  durations are positive; then it has these durations, within 64 bits, and it excludes exactly
  the names of the list, trimmed, none of them empty or with a comma in it. Each refusal has its
  reason: an unreadable variable comes first whatever the flags say, then the flags, then the
  level, the poll interval and the command timeout. The paths of the server are not looked at.
\<close>

theorem parse_config_sound:
  "case parse_config getenv args of
     Inr cfg \<Rightarrow>
       (\<nexists>key. environment_unreadable getenv key) \<and>
       (\<exists>defaults v. flag_defaults getenv = Inr defaults \<and> parse_flags args defaults = Inr v \<and>
         known_log_level (FlagLogLevel v) \<and>
         0 < PollInterval cfg \<and> PollInterval cfg < 2 ^ 63 \<and> PollInterval cfg = FlagPollInterval v \<and>
         0 < CommandTimeout cfg \<and> CommandTimeout cfg < 2 ^ 63 \<and> CommandTimeout cfg = FlagCommandTimeout v \<and>
         set (ExcludeDevices cfg) = trim_space ` set (split_on CHR '','' (FlagExcludeDevices v)) - {''''} \<and>
         list_all (\<lambda>d. d \<noteq> '''' \<and> trim_space d = d \<and> CHR '','' \<notin> set d) (ExcludeDevices cfg))
   | Inl err \<Rightarrow>
       (case flag_defaults getenv of
          Inl e \<Rightarrow> \<exists>key. err = InvalidEnv key \<and> environment_unreadable getenv key
        | Inr defaults \<Rightarrow> (\<nexists>key. environment_unreadable getenv key) \<and>
            (case parse_flags args defaults of
               Inl e \<Rightarrow> if e = ErrHelp then err = HelpRequested else err = ParseFlags e
             | Inr v \<Rightarrow>
                 if \<not> known_log_level (FlagLogLevel v) then err = InvalidLogLevel (FlagLogLevel v)
                 else if FlagPollInterval v \<le> 0 then err = InvalidPollInterval (FlagPollInterval v)
                 else FlagCommandTimeout v \<le> 0 \<and> err = InvalidCommandTimeout (FlagCommandTimeout v)))"
proof (cases "flag_defaults getenv")
  case (Inl e)
  then show ?thesis using flag_defaults_cases [of getenv] by (simp add: parse_config_def)
next
  case defaults: (Inr defaults)
  then have env: "\<nexists>key. environment_unreadable getenv key" using flag_defaults_cases [of getenv] by simp
  show ?thesis
  proof (cases "parse_flags args defaults")
    case (Inl e)
    then show ?thesis using defaults env by (simp add: parse_config_def)
  next
    case (Inr v)
    have "durations_ok v" using parse_flags_durations [OF Inr flag_defaults_durations [OF defaults]] .
    then have "FlagPollInterval v < 2 ^ 63" "FlagCommandTimeout v < 2 ^ 63"
      by (simp_all add: durations_ok_def int64_def max_int64_def)
    moreover have "list_all (\<lambda>d. d \<noteq> '''' \<and> trim_space d = d \<and> CHR '','' \<notin> set d) (parse_device_list (FlagExcludeDevices v))"
      using parse_device_list_ok parse_device_list_commas by (auto simp: list_all_iff)
    moreover note parse_log_level_known [of "FlagLogLevel v"] parse_device_list_set [of "FlagExcludeDevices v"]
    ultimately show ?thesis
      using defaults env Inr by (cases "parse_log_level (FlagLogLevel v)") (simp_all add: parse_config_def config_of_def)
  qed
qed

text \<open>
  C23: Flags decide: with every flag written out, whatever the environment holds (as long as it
  can be read), the configuration is that of the flags; so what is printed of the flags parses
  to the same flags.
\<close>

theorem flags_override:
  assumes "flag_defaults getenv = Inr defaults"
    and "0 \<le> FlagPollInterval v" and "0 \<le> FlagCommandTimeout v" and "durations_ok v"
  shows "parse_config getenv (render_flags v) = config_of v"
  using assms(1) parse_flags_render [OF assms(2-4)] by (simp add: parse_config_def)

lemma flags_override_witness:
  "parse_config (\<lambda>key. if key = ''MLXLINK_EXPORTER_POLL_INTERVAL'' then ''45s'' else '''')
     (render_flags (flags_unset\<lparr> FlagPollInterval := 60000000000 \<rparr>)) =
   config_of (flags_unset\<lparr> FlagPollInterval := 60000000000 \<rparr>)"
proof -
  have d: "parse_duration ''45s'' = Inr 45000000000"
    by (simp add: parse_duration_eval)
  show ?thesis
    by (rule flags_override [where defaults = "flags_unset\<lparr> FlagPollInterval := 45000000000 \<rparr>"])
      (simp_all add: flag_defaults_def env_bool_or_default_def env_duration_or_default_def env_or_default_def
        flags_unset_def durations_ok_def int64_def min_int64_def max_int64_def d)
qed

text \<open>
  C40: The staleness horizon of an accepted configuration is five poll intervals, and so longer
  than one, exactly when the interval is at most a fifth of the largest duration (58 years);
  above that the product wraps around.
\<close>

theorem stale_after_exact:
  assumes "parse_config getenv args = Inr cfg"
  shows "(stale_after cfg = 5 * PollInterval cfg \<and> PollInterval cfg < stale_after cfg) =
    (PollInterval cfg \<le> max_int64 div 5)"
proof -
  have pos: "0 < PollInterval cfg" using parse_config_usable [OF assms] by (simp add: config_usable_def)
  have "stale_after cfg = PollInterval cfg * 5 \<longleftrightarrow> int64 (PollInterval cfg * 5)"
    unfolding stale_after_def staleAfterFactor_def using wrap64_id wrap64_int64 by metis
  also have "\<dots> \<longleftrightarrow> PollInterval cfg \<le> max_int64 div 5"
    using pos by (auto simp: int64_def min_int64_def max_int64_def)
  finally show ?thesis using pos by (auto simp: mult.commute)
qed

lemma stale_after_exact_witness:
  "case parse_config (\<lambda>key. '''') [] of Inl err \<Rightarrow> False | Inr cfg \<Rightarrow> stale_after cfg = 150000000000"
proof -
  let ?v = flags_unset
  obtain cfg where cfg: "parse_config (\<lambda>key. '''') [] = Inr cfg" "PollInterval cfg = 30000000000"
    by (simp add: parse_config_def flag_defaults_def env_bool_or_default_def env_duration_or_default_def
        env_or_default_def config_of_def parse_log_level_info)
  then show ?thesis
    using stale_after_exact [OF cfg(1)] by (simp add: max_int64_def)
qed

text \<open>Beyond that it wraps around: an interval that is accepted may have a negative horizon.\<close>

lemma stale_after_overflows:
  "case parse_config (\<lambda>key. '''') [''--poll-interval=600000h''] of
     Inl err \<Rightarrow> False | Inr cfg \<Rightarrow> stale_after cfg < 0"
proof -
  have "parse_duration ''600000h'' = Inr 2160000000000000000"
    by (simp add: parse_duration_eval)
  then show ?thesis
    by (simp add: parse_config_def flag_defaults_def env_bool_or_default_def env_duration_or_default_def
        env_or_default_def config_of_def parse_log_level_info parse_one_simps stale_after_def staleAfterFactor_def
        wrap64_def)
qed

end
