(* ===== verification/Server.thy ===== *)
theory Server
  imports Config Runner
begin

text \<open>
  \<open>internal/mlxlinkexporter/server.go\<close>: the handlers, and the routes to them. Of \<open>http.ServeMux\<close> this
  holds what the three patterns of the exporter use, paths without a host, a method, wildcards or
  escapes; what else may be configured is out of scope, and named so.
\<close>

subsection \<open>The server's handlers\<close>

record response =
  Status :: nat
  ContentType :: bytes
  Body :: bytes

definition handle_health :: response where
  "handle_health = \<lparr> Status = 200, ContentType = ''text/plain; charset=utf-8'', Body = ''ok'' @ [CHR 0x0A] \<rparr>"

definition handle_ready :: "bool \<Rightarrow> response" where
  "handle_ready ready =
     (if \<not> ready
      then \<lparr> Status = 503, ContentType = ''text/plain; charset=utf-8'', Body = ''not ready'' @ [CHR 0x0A] \<rparr>
      else \<lparr> Status = 200, ContentType = ''text/plain; charset=utf-8'', Body = ''ok'' @ [CHR 0x0A] \<rparr>)"

text \<open>\<open>http.ErrServerClosed\<close> is not an error of \<open>ListenAndServe\<close>.\<close>

definition listen_and_serve :: "go_error option \<Rightarrow> go_error \<Rightarrow> go_error option" where
  "listen_and_serve served server_closed =
     (case served of None \<Rightarrow> None | Some err \<Rightarrow> if error_is err server_closed then None else Some err)"

subsection \<open>Registering the routes\<close>

datatype handler = MetricsHandler | HealthHandler | ReadyHandler

type_synonym routes = "(bytes \<times> handler) list"

datatype registered = Mux routes | Panicked | OutOfScope

text \<open>Patterns whose meaning is their text: neither host, nor method, nor wildcard, nor escape.\<close>

definition plain_pattern :: "bytes \<Rightarrow> bool" where
  "plain_pattern p \<longleftrightarrow>
     list_all (\<lambda>c. c \<notin> {CHR '' '', CHR 0x09, CHR ''{'', CHR ''}'', CHR ''%''}) p \<and>
     (CHR ''/'' \<in> set p \<longrightarrow> hd p = CHR ''/'')"

text \<open>\<open>Handle\<close> panics for a pattern without a path, and for one that another pattern conflicts with.\<close>

fun handle_pattern :: "registered \<Rightarrow> bytes \<times> handler \<Rightarrow> registered" where
  "handle_pattern (Mux rs) (p, h) =
     (if \<not> plain_pattern p then OutOfScope
      else if CHR ''/'' \<notin> set p \<or> p \<in> set (map fst rs) then Panicked
      else Mux (rs @ [(p, h)]))"
| "handle_pattern r ph = r"

definition server_new :: "config \<Rightarrow> registered" where
  "server_new cfg =
     foldl handle_pattern (Mux [])
       [(MetricsPath cfg, MetricsHandler), (HealthPath cfg, HealthHandler), (ReadyPath cfg, ReadyHandler)]"

subsection \<open>Routing\<close>

text \<open>A request's path as it is cleaned: a trailing slash is kept.\<close>

definition clean_url_path :: "bytes \<Rightarrow> bytes" where
  "clean_url_path p0 =
     (if p0 = '''' then ''/''
      else let p = (if hd p0 = CHR ''/'' then p0 else CHR ''/'' # p0); np = path_clean p in
        if last p = CHR ''/'' \<and> np \<noteq> ''/'' then np @ ''/'' else np)"

datatype reply = Answer handler | MovedTo bytes | NotFound

text \<open>
  The subtree patterns that a path is in, the longest of them first: a pattern that ends in a
  slash stands for everything below it.
\<close>

definition subtrees :: "routes \<Rightarrow> bytes \<Rightarrow> routes" where
  "subtrees rs path =
     sort_key (\<lambda>(p, h). - int (length p))
       (filter (\<lambda>(p, h). p \<noteq> '''' \<and> last p = CHR ''/'' \<and> has_prefix path p) rs)"

definition serve :: "routes \<Rightarrow> bytes \<Rightarrow> reply" where
  "serve rs path0 =
     (let path = clean_url_path path0 in
      if map_of rs path = None \<and> last path \<noteq> CHR ''/'' \<and> map_of rs (path @ ''/'') \<noteq> None then MovedTo (path @ ''/'')
      else if path \<noteq> path0 then MovedTo path
      else case map_of rs path of
        Some h \<Rightarrow> Answer h
      | None \<Rightarrow> (case subtrees rs path of [] \<Rightarrow> NotFound | (p, h) # _ \<Rightarrow> Answer h))"

subsection \<open>Where a request goes\<close>

fun path_for :: "config \<Rightarrow> handler \<Rightarrow> bytes" where
  "path_for cfg MetricsHandler = MetricsPath cfg"
| "path_for cfg HealthHandler = HealthPath cfg"
| "path_for cfg ReadyHandler = ReadyPath cfg"

definition handlers :: "handler list" where
  "handlers = [MetricsHandler, HealthHandler, ReadyHandler]"

definition route_paths :: "config \<Rightarrow> bytes list" where
  "route_paths cfg = map (path_for cfg) handlers"

definition routes_of :: "config \<Rightarrow> routes" where
  "routes_of cfg = map (\<lambda>h. (path_for cfg h, h)) handlers"

definition in_subtree :: "bytes \<Rightarrow> bytes \<Rightarrow> bool" where
  "in_subtree p path \<longleftrightarrow> p \<noteq> '''' \<and> last p = CHR ''/'' \<and> has_prefix path p"

lemma server_new_cases:
  assumes "list_all plain_pattern (route_paths cfg)"
  shows "server_new cfg =
    (if distinct (route_paths cfg) \<and> list_all (\<lambda>p. CHR ''/'' \<in> set p) (route_paths cfg) then Mux (routes_of cfg)
     else Panicked)"
  using assms by (auto simp: server_new_def route_paths_def routes_of_def handlers_def)

lemma serve_answer:
  assumes "serve rs path = Answer h"
  shows "\<exists>p. (p, h) \<in> set rs \<and> (p = path \<or> in_subtree p path)"
proof -
  have path: "clean_url_path path = path" and
    "case map_of rs path of Some h' \<Rightarrow> Answer h' = Answer h
       | None \<Rightarrow> (case subtrees rs path of [] \<Rightarrow> NotFound | (p, h') # _ \<Rightarrow> Answer h') = Answer h"
    using assms by (auto simp: serve_def Let_def split: if_splits option.splits)
  then consider "map_of rs path = Some h" | p rest where "subtrees rs path = (p, h) # rest"
    by (auto split: option.splits list.splits)
  then show ?thesis
  proof cases
    case 1
    then show ?thesis by (blast dest: map_of_SomeD)
  next
    case (2 p rest)
    then have "(p, h) \<in> set (subtrees rs path)" by simp
    then have "(p, h) \<in> set rs" "in_subtree p path" by (auto simp: subtrees_def in_subtree_def)
    then show ?thesis by blast
  qed
qed

lemma routes_of_member: "(p, h) \<in> set (routes_of cfg) \<longleftrightarrow> p = path_for cfg h"
  by (cases h) (auto simp: routes_of_def handlers_def)

lemma map_of_routes: "distinct (route_paths cfg) \<Longrightarrow> map_of (routes_of cfg) (path_for cfg h) = Some h"
  by (rule map_of_is_SomeI) (simp_all add: routes_of_member, simp add: routes_of_def route_paths_def o_def)

lemma serve_own_path:
  "distinct (route_paths cfg) \<Longrightarrow> clean_url_path (path_for cfg h) = path_for cfg h \<Longrightarrow>
   serve (routes_of cfg) (path_for cfg h) = Answer h"
  by (simp add: serve_def map_of_routes)

subsection \<open>Properties\<close>

text \<open>
  C20: The routes: for three plain paths the server is only constructed when they all are paths
  and differ, and panics otherwise; then each handler answers at its own path, if that is clean,
  and answers nowhere else but below a path of its own that ends in a slash.
\<close>

theorem server_routes:
  assumes "list_all plain_pattern (route_paths cfg)"
  shows "case server_new cfg of
      OutOfScope \<Rightarrow> False
    | Panicked \<Rightarrow> \<not> (distinct (route_paths cfg) \<and> list_all (\<lambda>p. CHR ''/'' \<in> set p) (route_paths cfg))
    | Mux rs \<Rightarrow> distinct (route_paths cfg) \<and>
        (\<forall>h. clean_url_path (path_for cfg h) = path_for cfg h \<longrightarrow> serve rs (path_for cfg h) = Answer h) \<and>
        (\<forall>h path. serve rs path = Answer h \<longrightarrow> path = path_for cfg h \<or> in_subtree (path_for cfg h) path)"
  unfolding server_new_cases [OF assms]
  using serve_own_path [of cfg] serve_answer [of "routes_of cfg"] routes_of_member [of _ _ cfg] by fastforce

lemma server_routes_witness:
  "(case parse_config (\<lambda>key. '''') [''--health-path=/metrics''] of Inl err \<Rightarrow> False | Inr cfg \<Rightarrow> server_new cfg = Panicked) \<and>
   (case parse_config (\<lambda>key. '''') [] of Inl err \<Rightarrow> False
    | Inr cfg \<Rightarrow> \<exists>rs. server_new cfg = Mux rs \<and> serve rs ''/readyz'' = Answer ReadyHandler)"
proof -
  note parse = parse_config_def flag_defaults_def env_bool_or_default_def env_duration_or_default_def
    env_or_default_def config_of_def parse_log_level_info parse_one_simps
  note paths = route_paths_def handlers_def plain_pattern_def
  obtain c1 where c1: "parse_config (\<lambda>key. '''') [''--health-path=/metrics''] = Inr c1"
    "MetricsPath c1 = ''/metrics''" "HealthPath c1 = ''/metrics''" "ReadyPath c1 = ''/readyz''"
    by (simp add: parse)
  obtain c2 where c2: "parse_config (\<lambda>key. '''') [] = Inr c2"
    "MetricsPath c2 = ''/metrics''" "HealthPath c2 = ''/healthz''" "ReadyPath c2 = ''/readyz''"
    by (simp add: parse)
  have "clean_url_path ''/readyz'' = ''/readyz''" by (simp add: clean_url_path_def path_clean_def has_prefix_def)
  then have "\<exists>rs. server_new c2 = Mux rs \<and> serve rs ''/readyz'' = Answer ReadyHandler"
    using server_routes [of c2] c2(2-4)
    by (auto simp: paths split: registered.splits dest: spec [where x = ReadyHandler])
  moreover have "server_new c1 = Panicked"
    using server_routes [of c1] c1(2-4) by (auto simp: paths split: registered.splits)
  ultimately show ?thesis using c1(1) c2(1) by simp
qed

end
