(* ===== verification/Exporter.thy ===== *)
theory Exporter
  imports Poller_Run Collector Server
begin

text \<open>
  \<open>main.go\<close>: the program put together. The poller runs
  over the discovery of a host and over a runner of its processes; the collectors read the
  stores of the poller; the ready handler reads its readiness. The interfaces of the components
  are discharged here for the program's own parts, and the properties of the whole follow.
\<close>

subsection \<open>The environment of the poller\<close>

text \<open>What is outside of the program: the host's files and processes, its clock and its ticker.\<close>

record 'w outside =
  OutHost :: "'w host"
  OutExec :: "command \<Rightarrow> 'w \<Rightarrow> process \<times> 'w"
  OutNow :: "'w \<Rightarrow> gotime \<times> 'w"
  OutTryTick :: "'w \<Rightarrow> bool \<times> 'w"
  OutEnviron :: "bytes list"

definition on_world :: "('w \<Rightarrow> 'a \<times> 'w) \<Rightarrow> 'w discovering \<Rightarrow> 'a \<times> 'w discovering" where
  "on_world f d = (case f (HostWorld d) of (r, w) \<Rightarrow> (r, d\<lparr> HostWorld := w \<rparr>))"

definition exporter_runner :: "config \<Rightarrow> runner" where
  "exporter_runner cfg = \<lparr> RunnerPath = MlxlinkPath cfg, RunnerTimeout = CommandTimeout cfg \<rparr>"

definition exporter_discovery :: "config \<Rightarrow> sysfs_discovery" where
  "exporter_discovery cfg = new_sysfs_discovery (SysfsRoot cfg) (ExcludeDevices cfg)"

definition exporter_env :: "'w outside \<Rightarrow> config \<Rightarrow> ('w discovering) poller_env" where
  "exporter_env out cfg =
     \<lparr> EnvDiscover = run_state (discover (OutHost out) (exporter_discovery cfg)),
       EnvQuery = (\<lambda>q device. on_world (runner_query (OutExec out) (OutEnviron out) (exporter_runner cfg) q device)),
       EnvNow = on_world (OutNow out),
       EnvCtxErr = on_world (HostCtxErr (OutHost out)),
       EnvTryTick = on_world (OutTryTick out),
       ShowEye = ConfigShowEye cfg,
       ShowPCIeEye = ConfigShowPCIeEye cfg \<rparr>"

text \<open>The states the program's poller can be in.\<close>

definition exporter_reachable ::
  "'w outside \<Rightarrow> config \<Rightarrow> ('w discovering \<Rightarrow> 'w discovering \<Rightarrow> bool) \<Rightarrow> 'w \<Rightarrow> run_phase \<Rightarrow> ('w discovering) poller \<Rightarrow> bool" where
  "exporter_reachable out cfg idle w phase s \<longleftrightarrow>
     run_reachable (exporter_env out cfg) idle (new_discovering w) (phase, s)"

text \<open>
  A scrape may come in the middle of a sweep. What it can see then are the stores as they were
  after some of the calls; the two collectors may load theirs at different moments.
\<close>

definition as_of :: "nat \<Rightarrow> nat \<Rightarrow> 'w poller \<Rightarrow> 'w poller" where
  "as_of j k s =
     s\<lparr> Store := foldl store_after None (take j (Trace s)),
        PCIeEyeStore := foldl pcie_store_after None (take k (Trace s)) \<rparr>"

definition exporter_seen ::
  "'w outside \<Rightarrow> config \<Rightarrow> ('w discovering \<Rightarrow> 'w discovering \<Rightarrow> bool) \<Rightarrow> 'w \<Rightarrow> ('w discovering) poller \<Rightarrow> bool" where
  "exporter_seen out cfg idle w seen \<longleftrightarrow>
     (\<exists>phase s j k. exporter_reachable out cfg idle w phase s \<and> seen = as_of j k s)"

subsection \<open>The main program\<close>

text \<open>What happens before anything is started: an exit code, or the configuration to run with.\<close>

datatype startup = ExitWith nat | Run config

definition main_start :: "(bytes \<Rightarrow> bytes) \<Rightarrow> bytes list \<Rightarrow> (bytes \<Rightarrow> bool) \<Rightarrow> startup" where
  "main_start getenv args stat_ok =
     (case parse_config getenv args of
        Inl err \<Rightarrow> ExitWith (if err = HelpRequested then 0 else 2)
      | Inr cfg \<Rightarrow>
          if ShowVersion cfg then ExitWith 0
          else if \<not> stat_ok (MlxlinkPath cfg) then ExitWith 1
          else Run cfg)"

text \<open>The descriptors of the poller's counters, and of everything that is registered of this program.\<close>

definition errors_desc :: desc where
  "errors_desc = \<lparr> DescName = ''mlxlink_collection_errors_total'',
     DescLabels = [''device'', ''port'', ''pci_addr'', ''reason''] \<rparr>"

definition pcie_errors_desc :: desc where
  "pcie_errors_desc = \<lparr> DescName = ''mlxlink_pcie_eye_collection_errors_total'',
     DescLabels = [''device'', ''pci_addr'', ''reason''] \<rparr>"

definition overlaps_desc :: desc where
  "overlaps_desc = \<lparr> DescName = ''mlxlink_sweep_overlaps_total'', DescLabels = [] \<rparr>"

definition registered_descs :: "config \<Rightarrow> desc list" where
  "registered_descs cfg =
     describe @ [errors_desc, overlaps_desc] @
     (if ConfigShowPCIeEye cfg then pcie_describe @ [pcie_errors_desc] else [])"

text \<open>How the program ends: by a signal, or because the server failed; then it is shut down.\<close>

datatype leave = SignalReceived | ServerFailed go_error

definition exit_code :: "leave \<Rightarrow> go_error option \<Rightarrow> nat" where
  "exit_code l shutdown_err =
     (let code = (case l of SignalReceived \<Rightarrow> 0 | ServerFailed err \<Rightarrow> 1) in
      case shutdown_err of None \<Rightarrow> code | Some err \<Rightarrow> 1)"

text \<open>A scrape of the registered collectors, over the stores of the poller.\<close>

definition scrape :: "config \<Rightarrow> 'w poller \<Rightarrow> bytes list \<Rightarrow> bytes list \<Rightarrow> gotime \<Rightarrow> metric list" where
  "scrape cfg s order pcie_order now =
     collect_all (stale_after cfg) (Store s) order now @
     (if ConfigShowPCIeEye cfg then collect_pcie_all (stale_after cfg) (PCIeEyeStore s) pcie_order now else [])"

subsection \<open>The interfaces, discharged\<close>

interpretation exporter: poller_client "exporter_env out cfg" for out :: "'w outside" and cfg
proof
  fix q device e and w w' :: "'w discovering"
  assume "EnvQuery (exporter_env out cfg) q device w = (Inl e, w')"
  then obtain v where
    "runner_query (OutExec out) (OutEnviron out) (exporter_runner cfg) q device (HostWorld w) = (Inl e, v)"
    by (auto simp: exporter_env_def on_world_def split: prod.splits)
  then show "reason_from_error e \<noteq> NoReason" by (rule exec_runner.failure_reason)
next
  fix ts and w w' :: "'w discovering"
  assume "EnvDiscover (exporter_env out cfg) w = (Inr ts, w')"
  then have "run_state (discover (OutHost out) (exporter_discovery cfg)) w = (Inr ts, w')"
    by (simp add: exporter_env_def)
  then show "distinct (map Device ts) \<and> list_all target_ok ts" by (rule sysfs.walked)
qed

lemma genuine_exportable:
  assumes "genuine A z d s" and "\<And>d x. A d x \<Longrightarrow> D x" and "D z"
  shows "exportable D s \<and> Device (SnapTarget s) = d"
  using assms by (auto simp: genuine_def exportable_def target_ok_def)

lemma pcie_answered_ok: "pcie_answered G d data \<Longrightarrow> pcie_eye_ok data"
  by (auto simp: pcie_answered_def intro: decode_pcie_ok)

interpretation network_source: snapshot_source Store port_data_ok
  "exporter_seen out cfg idle w"
  for out :: "'w outside" and cfg idle w
proof
  fix seen :: "'w discovering poller" and m d s
  assume "exporter_seen out cfg idle w seen" and m: "Store seen = Some m" "m d = Some s"
  then obtain phase st j k where st: "seen = as_of j k st"
    "run_reachable (exporter_env out cfg) idle (new_discovering w) (phase, st)"
    by (auto simp: exporter_seen_def exporter_reachable_def)
  from exporter.reachable_stores(1) [OF st(2), of j] m st(1)
  have "genuine (answered (set (Trace st))) no_port_data d s"
    by (simp add: all_genuine_def as_of_def)
  then show "exportable port_data_ok s \<and> Device (SnapTarget s) = d"
    by (rule genuine_exportable) (erule answered_ok, rule zero_values_ok(1))
qed

interpretation pcie_source: snapshot_source PCIeEyeStore pcie_eye_ok
  "exporter_seen out cfg idle w"
  for out :: "'w outside" and cfg idle w
proof
  fix seen :: "'w discovering poller" and m d s
  assume "exporter_seen out cfg idle w seen" and m: "PCIeEyeStore seen = Some m" "m d = Some s"
  then obtain phase st j k where st: "seen = as_of j k st"
    "run_reachable (exporter_env out cfg) idle (new_discovering w) (phase, st)"
    by (auto simp: exporter_seen_def exporter_reachable_def)
  from exporter.reachable_stores(2) [OF st(2), of k] m st(1)
  have "genuine (pcie_answered (set (Trace st))) no_pcie_eye d s"
    by (simp add: all_genuine_def as_of_def)
  then show "exportable pcie_eye_ok s \<and> Device (SnapTarget s) = d"
    by (rule genuine_exportable) (erule pcie_answered_ok, rule zero_values_ok(2))
qed

subsection \<open>Scrapes\<close>

lemma series_described: "list_all (metric_ok descs) ms \<Longrightarrow> fst ` set (map series ms) \<subseteq> DescName ` set descs"
  by (auto simp: list_all_iff metric_ok_def series_def)

lemma metric_ok_mono: "list_all (metric_ok a) ms \<Longrightarrow> set a \<subseteq> set b \<Longrightarrow> list_all (metric_ok b) ms"
  by (auto simp: list_all_iff metric_ok_def)

lemma registered_names: "distinct (map DescName (registered_descs cfg))"
  by (cases "ConfigShowPCIeEye cfg") (simp_all add: registered_descs_def describe_def network_metrics_def pcie_describe_def network_desc.simps
      pcie_desc.simps errors_desc_def overlaps_desc_def pcie_errors_desc_def)

lemma registered_labels: "list_all (\<lambda>d. distinct (DescLabels d)) (registered_descs cfg)"
  by (cases "ConfigShowPCIeEye cfg") (simp_all add: registered_descs_def describe_def network_metrics_def pcie_describe_def network_desc.simps
      pcie_desc.simps errors_desc_def overlaps_desc_def pcie_errors_desc_def base_labels_def lane_labels_def
      pcie_base_labels_def)

lemma series_disjoint:
  fixes cfg :: config
  assumes "ConfigShowPCIeEye cfg" and "list_all (metric_ok describe) a" and "list_all (metric_ok pcie_describe) b"
  shows "set (map series a) \<inter> set (map series b) = {}"
proof -
  have "DescName ` set describe \<inter> DescName ` set pcie_describe = {}"
    using registered_names [of cfg] assms(1) by (auto simp: registered_descs_def)
  then have "fst ` set (map series a) \<inter> fst ` set (map series b) = {}"
    using series_described [OF assms(2)] series_described [OF assms(3)] by blast
  then show ?thesis by blast
qed

lemma as_of_now:
  "exporter_reachable out cfg idle w phase s \<Longrightarrow> as_of (length (Trace s)) (length (Trace s)) s = s"
  using exporter.reachable_replays [of out cfg idle _ phase s] by (simp add: exporter_reachable_def as_of_def)

lemma scrape_ok_distinct:
  assumes reached: "exporter_seen out cfg idle w s" and "distinct order" and "distinct pcie_order"
  shows "list_all (metric_ok (registered_descs cfg)) (scrape cfg s order pcie_order now) \<and>
    distinct (map series (scrape cfg s order pcie_order now))"
proof -
  let ?h = "stale_after cfg"
  let ?net = "collect_all ?h (Store s) order now" and ?pcie = "collect_pcie_all ?h (PCIeEyeStore s) pcie_order now"
  have net: "list_all (metric_ok describe) ?net"
    unfolding collect_all_def by (rule network_source.scrape_ok [OF reached collect_device_ok])
  have pcie: "list_all (metric_ok pcie_describe) ?pcie"
    unfolding collect_pcie_all_def by (rule pcie_source.scrape_ok [OF reached collect_pcie_device_ok])
  have "distinct (map series ?net)"
    unfolding collect_all_def
    by (rule network_source.scrape_series [OF reached assms(2)])
      (simp add: exportable_def collect_device_distinct of_device_collect)
  moreover have "distinct (map series ?pcie)"
    unfolding collect_pcie_all_def
    by (rule pcie_source.scrape_series [OF reached assms(3)])
      (simp add: exportable_def collect_pcie_device_distinct of_device_pcie)
  moreover have "list_all (metric_ok (registered_descs cfg)) ?net"
    by (rule metric_ok_mono [OF net]) (auto simp: registered_descs_def)
  moreover have "list_all (metric_ok (registered_descs cfg)) ?pcie" if "ConfigShowPCIeEye cfg"
    by (rule metric_ok_mono [OF pcie]) (use that in \<open>auto simp: registered_descs_def\<close>)
  ultimately show ?thesis using series_disjoint [OF _ net pcie] by (auto simp: scrape_def)
qed

text \<open>The label values of the counters.\<close>

definition counter_labels_ok :: "desc \<Rightarrow> bytes list \<Rightarrow> bool" where
  "counter_labels_ok d labels \<longleftrightarrow>
     length labels = length (DescLabels d) \<and> list_all valid_utf8 labels \<and> exported_label (last labels)"

lemma errors_event: "labels \<in> set (errors_counted evs) \<Longrightarrow> IncErrors labels \<in> set evs"
proof (induction evs)
  case (Cons ev evs)
  then show ?case by (cases ev) auto
qed simp

lemma pcie_errors_event: "labels \<in> set (pcie_errors_counted evs) \<Longrightarrow> IncPCIeEyeErrors labels \<in> set evs"
proof (induction evs)
  case (Cons ev evs)
  then show ?case by (cases ev) auto
qed simp

lemma counters_ok_reachable:
  assumes "exporter_reachable out cfg idle w phase s"
  shows "list_all (counter_labels_ok errors_desc) (errors_counted (Trace s)) \<and>
    list_all (counter_labels_ok pcie_errors_desc) (pcie_errors_counted (Trace s))"
proof -
  have "run_reachable (exporter_env out cfg) idle (new_discovering w) (phase, s)"
    using assms by (simp add: exporter_reachable_def)
  note ok = exporter.reachable_event [OF this]
  show ?thesis
    using ok [OF errors_event] ok [OF pcie_errors_event]
    by (auto simp: list_all_iff counter_labels_ok_def errors_desc_def pcie_errors_desc_def)
qed

end
