(* ===== verification/Demo.thy ===== *)
theory Demo
  imports Exporter
begin

text \<open>
  One concrete run of the program, at which the properties of reachable states are instantiated:
  a host with one device of one port, whose mlxlink exits with an error when it is asked for
  histograms and answers the baseline query. The first sweep falls back, counts the rejected
  query, publishes the device and makes the exporter ready.
\<close>

definition demo_response :: bytes where
  "demo_response = print_json (response 0 ''ok'' (output_payload [(''?'', JNull)]))"

lemma decode_demo: "decode demo_response = Inr no_port_data"
proof -
  have v: "valid_utf8 ''ok''" "valid_utf8 ''?''" "valid_utf8 ''output''" by code_simp+
  have "section_of [(''?'', JNull)] c = None" for c by (simp add: section_of_def unmarshal_map_def)
  then have d: "decode_port [(''?'', JNull)] = no_port_data"
    by (simp add: decode_port_def decode_nil no_port_data_def)
  have j: "json_ok 9999 (output_payload [(''?'', JNull)])" using v by (simp add: output_payload_def)
  have k: "keys_distinct [(''?'', JNull)]" by (simp add: keys_distinct_def)
  show ?thesis
    using decode_output_response [OF j v(1), of 0] k d
    by (simp add: demo_response_def decode_def result_output_payload)
qed

lemma demo_response_length: "length demo_response < 4194304 \<and> demo_response \<noteq> []"
  unfolding demo_response_def
  by (simp add: print_json.simps response_def output_payload_def quote_def itoa_def dec.simps quote_char_def byte_in_def)

definition demo_fs :: static_fs where
  "demo_fs =
     \<lparr> FsDir = (\<lambda>p. if p = ''/sys/class/infiniband'' then Inr [(''mlx5_0'', FileDir)]
         else if p = ''/sys/class/infiniband/mlx5_0/ports'' then Inr [(''1'', FileDir)]
         else Inl (Sentinel ErrNotExist)),
       FsIsDir = (\<lambda>p. False),
       FsReadlink = (\<lambda>p. Inr ''../../../0000:a1:00.0''),
       FsExists = (\<lambda>p. False),
       FsReadFile = (\<lambda>p. Inl (Sentinel ErrNotExist)) \<rparr>"

definition demo_exec :: "command \<Rightarrow> unit \<Rightarrow> process \<times> unit" where
  "demo_exec cmd w =
     (\<lparr> StdoutWrites = [demo_response], StderrWrites = [],
        CmdError = (if ''--rx_fec_histogram'' \<in> set (CmdArgs cmd) then Some ExitError else None),
        RunCtxErr = None, ParentErr = None \<rparr>, w)"

definition demo_time :: gotime where
  "demo_time = \<lparr> Wall = 63900000000 * 10 ^ 9, Mono = Some 7 \<rparr>"

definition demo_outside :: "unit outside" where
  "demo_outside =
     \<lparr> OutHost = static_host demo_fs, OutExec = demo_exec, OutNow = (\<lambda>w. (demo_time, w)),
       OutTryTick = (\<lambda>w. (False, w)), OutEnviron = [] \<rparr>"

definition demo_config :: config where
  "demo_config =
     \<lparr> ListenAddress = '':9880'', MetricsPath = ''/metrics'', HealthPath = ''/healthz'', ReadyPath = ''/readyz'',
       LogLevel = LogInfo, MlxlinkPath = ''/usr/bin/mlxlink'', SysfsRoot = ''/sys'', PollInterval = 30000000000,
       CommandTimeout = 3000000000, ExcludeDevices = [], ConfigShowEye = False, ConfigShowPCIeEye = False,
       ShowVersion = False \<rparr>"

definition demo_target :: target where
  "demo_target = \<lparr> Device = ''mlx5_0'', Port = ''1'', PCIAddr = ''0000:a1:00.0'', NetDev = '''' \<rparr>"

lemma demo_paths:
  "path_join [''/sys'', ''class/infiniband''] = ''/sys/class/infiniband''"
  "path_join [''/sys/class/infiniband'', ''mlx5_0'', ''ports''] = ''/sys/class/infiniband/mlx5_0/ports''"
  "path_join [''/sys/class/infiniband'', ''mlx5_0'', ''ports'', ''1''] = ''/sys/class/infiniband/mlx5_0/ports/1''"
  "path_join [''/sys/class/infiniband/mlx5_0/ports/1'', ''gid_attrs'', ''ndevs''] =
     ''/sys/class/infiniband/mlx5_0/ports/1/gid_attrs/ndevs''"
  "path_clean ''/sys'' = ''/sys''"
  "path_base ''../../../0000:a1:00.0'' = ''0000:a1:00.0''"
  by (simp_all add: path_join_def path_clean_def path_base_def has_prefix_def)

lemma demo_dirs:
  "FsDir demo_fs ''/sys/class/infiniband'' = Inr [(''mlx5_0'', FileDir)]"
  "dir_of demo_fs ''/sys/class/infiniband/mlx5_0/ports'' = [(''1'', FileDir)]"
  "dir_of demo_fs ''/sys/class/infiniband/mlx5_0/ports/1/gid_attrs/ndevs'' = []"
  "FsExists demo_fs p = False" "FsReadlink demo_fs p = Inr ''../../../0000:a1:00.0''"
  by (simp_all add: demo_fs_def dir_of_def sorted_entries_def)

lemma demo_targets: "targets_of demo_fs (exporter_discovery demo_config) = Inr [demo_target]"
proof -
  have v: "valid_utf8 ''mlx5_0''" "valid_utf8 ''0000:a1:00.0''" by code_simp+
  have itoa1: "itoa 1 = ''1''" by code_simp
  have "atoi ''1'' = Inr 1" using atoi_itoa [of 1] unfolding itoa1 by simp
  note numbers = this itoa1
  let ?d = "exporter_discovery demo_config"
  have d: "DiscoveryRoot ?d = ''/sys''" "DiscoveryExclude ?d = {}"
    by (simp_all add: exporter_discovery_def new_sysfs_discovery_def demo_config_def demo_paths)
  have ports: "ports_of demo_fs ''/sys/class/infiniband/mlx5_0/ports'' = [1]"
    by (simp add: ports_of_def demo_dirs List.map_filter_simps entry_port_def numbers)
  have netdev: "net_dev_of demo_fs ''/sys/class/infiniband/mlx5_0/ports/1/gid_attrs/ndevs'' = ''''"
    by (simp add: net_dev_of_def demo_dirs List.map_filter_simps)
  have pci: "pci_addr_of demo_fs p = ''0000:a1:00.0''" for p
    by (simp add: pci_addr_of_def demo_dirs demo_paths v)
  have "target_of demo_fs ?d ''/sys/class/infiniband'' (''mlx5_0'', FileDir) = Some demo_target"
    by (simp add: target_of_def Let_def demo_paths d ports v demo_dirs numbers pci netdev demo_target_def)
  then show ?thesis
    by (simp add: targets_of_def Let_def d demo_paths demo_dirs sorted_entries_def List.map_filter_simps)
qed

definition demo_env :: "(unit discovering) poller_env" where
  "demo_env = exporter_env demo_outside demo_config"

lemma on_world_const: "on_world (\<lambda>w. (r, w)) d = (r, d)"
  by (simp add: on_world_def)

lemma demo_env_simps:
  "EnvQuery demo_env q device = on_world (runner_query demo_exec [] (exporter_runner demo_config) q device)"
  "EnvNow demo_env d = (demo_time, d)" "EnvCtxErr demo_env d = (None, d)"
  "ShowEye demo_env = False" "ShowPCIeEye demo_env = False"
  by (simp_all add: demo_env_def exporter_env_def demo_outside_def static_host_def demo_config_def on_world_const)

lemma demo_discovery: "fst (EnvDiscover demo_env d) = Inr [demo_target]"
proof -
  have "wp (discover (static_host demo_fs) (exporter_discovery demo_config)) (\<lambda>r s'. r = Inr [demo_target]) d"
    by (simp add: discover_static_wp demo_targets)
  then show ?thesis
    by (simp add: demo_env_def exporter_env_def demo_outside_def wp_def case_prod_unfold)
qed

lemma demo_answers:
  "EnvQuery demo_env QueryRun ''mlx5_0'' d = (Inl (RunError ReasonExitError ExitError ''''), d)"
  "EnvQuery demo_env QueryRunBaseline ''mlx5_0'' d = (Inr demo_response, d)"
  using demo_response_length
  by (simp_all add: demo_env_simps on_world_def runner_query_def run_command_def demo_exec_def run_result_def Let_def
      buffer_writes_def buffer_write_def new_buffer_def maxOutputBytes_def maxStderrBytes_def run_error_def
      classify_run_error_def)

text \<open>The state after the first sweep.\<close>

definition demo_shows :: "(unit discovering) poller \<Rightarrow> bool" where
  "demo_shows s \<longleftrightarrow> Ready s \<and>
     errors_counted (Trace s) = [[''mlx5_0'', ''1'', ''0000:a1:00.0'', ''exit_error'']] \<and>
     (\<exists>m x. Store s = Some m \<and> dom m = {''mlx5_0''} \<and> m ''mlx5_0'' = Some x \<and> LastError x = NoReason \<and>
        LastSuccess x = demo_time)"

lemma demo_sweep:
  assumes "Trace s = [CtxSeen None]" and "Store s = None"
  shows "wp (sweep demo_env) (\<lambda>u s'. demo_shows s') s"
proof -
  obtain d where d: "EnvDiscover demo_env (World s) = (Inr [demo_target], d)"
    using demo_discovery [of "World s"] by (metis prod.collapse)
  have t: "Device demo_target = ''mlx5_0''" "Port demo_target = ''1''" "PCIAddr demo_target = ''0000:a1:00.0''"
    by (simp_all add: demo_target_def)
  show ?thesis
    by (simp add: sweep_def poller_ops wp_simps d demo_env_simps(2-5) sweep_devices_def device_ops_def assms
        collect_def collect_combined_def collect_baseline_def demo_answers t decode_demo reason_from_error_def
        publish_devices_def announce_ready_def demo_shows_def lookup_or_zero_def snapshot_lookup_def zero_snapshot_def)
qed

lemma demo_reachable:
  obtains s where "exporter_reachable demo_outside demo_config idle () Selecting s" and "demo_shows s"
proof -
  let ?s0 = "new_poller (new_discovering ())"
  obtain s1 where s1: "run_state (ctx_err demo_env) ?s0 = (None, s1)" "Trace s1 = [CtxSeen None]" "Store s1 = None"
  proof -
    have "wp (ctx_err demo_env) (\<lambda>e s1. e = None \<and> Trace s1 = [CtxSeen None] \<and> Store s1 = None) ?s0"
      by (simp add: ctx_err_def wp_simps demo_env_simps(3) new_poller_def)
    then show thesis by (cases "run_state (ctx_err demo_env) ?s0") (simp add: wp_def that)
  qed
  define s' where "s' = snd (run_state (sweep demo_env) s1)"
  then have s': "run_state (sweep demo_env) s1 = ((), s')" by (simp add: prod_eq_iff)
  have "run_reachable demo_env idle (new_discovering ()) (Selecting, s')"
    by (rule run_next [OF run_init]) (rule start_sweep [OF s1(1) s'])
  moreover have "demo_shows s'" using wp_run [OF demo_sweep [OF s1(2,3)] s'] .
  ultimately show thesis using that by (simp add: exporter_reachable_def demo_env_def)
qed

end
