(* ===== verification/Lifetime.thy ===== *)
theory Lifetime
  imports Demo
begin

text \<open>
  The life of the program after its start, in \<open>main.go\<close>: the goroutine of the poller, the server
  in the background, and the main goroutine, which waits for a signal or for the server to fail,
  cancels the context, waits for the poller, shuts the server down and exits. The three are one
  step relation; which of them moves is not determined.
\<close>

subsection \<open>The main goroutine\<close>

datatype main_phase = MainSelecting | MainStopping leave | MainShutdown leave | MainExited nat

fun program_exited :: "main_phase \<Rightarrow> bool" where
  "program_exited (MainExited code) \<longleftrightarrow> True"
| "program_exited _ \<longleftrightarrow> False"

record 'w program =
  MainAt :: main_phase
  PollerAt :: "run_phase \<times> ('w discovering) poller"
  ServeError :: "go_error option"

text \<open>\<open>stop\<close>: the context is cancelled. What a poller that has returned would see of it does not matter.\<close>

definition stop_context :: "('w \<Rightarrow> 'w) \<Rightarrow> 'w discovering \<Rightarrow> 'w discovering" where
  "stop_context cancel d = d\<lparr> HostWorld := cancel (HostWorld d) \<rparr>"

definition stop :: "('w \<Rightarrow> 'w) \<Rightarrow> run_phase \<times> ('w discovering) poller \<Rightarrow> run_phase \<times> ('w discovering) poller" where
  "stop cancel x =
     (case x of (phase, s) \<Rightarrow>
        if phase = Returned then x else (phase, s\<lparr> World := stop_context cancel (World s) \<rparr>))"

text \<open>
  While the program runs the world moves on as it likes (\<open>idle\<close>, signals included). \<open>server_closed\<close> is
  \<open>http.ErrServerClosed\<close>; the server's error is sent once, to a channel with room for one.
\<close>

inductive main_step ::
  "'w outside \<Rightarrow> config \<Rightarrow> ('w discovering \<Rightarrow> 'w discovering \<Rightarrow> bool) \<Rightarrow> ('w \<Rightarrow> 'w) \<Rightarrow> go_error \<Rightarrow>
   'w program \<Rightarrow> 'w program \<Rightarrow> bool"
  for out cfg idle cancel server_closed where
  poller_moves:
    "\<not> program_exited (MainAt p) \<Longrightarrow> run_step (exporter_env out cfg) idle (PollerAt p) x \<Longrightarrow>
     main_step out cfg idle cancel server_closed p (p\<lparr> PollerAt := x \<rparr>)"
| server_fails:
    "\<not> program_exited (MainAt p) \<Longrightarrow> ServeError p = None \<Longrightarrow> listen_and_serve served server_closed = Some err \<Longrightarrow>
     main_step out cfg idle cancel server_closed p (p\<lparr> ServeError := Some err \<rparr>)"
| signal_seen:
    "MainAt p = MainSelecting \<Longrightarrow> EnvCtxErr (exporter_env out cfg) (World (snd (PollerAt p))) = (Some e, d) \<Longrightarrow>
     main_step out cfg idle cancel server_closed p
       (p\<lparr> MainAt := MainStopping SignalReceived, PollerAt := stop cancel (PollerAt p) \<rparr>)"
| failure_seen:
    "MainAt p = MainSelecting \<Longrightarrow> ServeError p = Some err \<Longrightarrow>
     main_step out cfg idle cancel server_closed p
       (p\<lparr> MainAt := MainStopping (ServerFailed err), PollerAt := stop cancel (PollerAt p) \<rparr>)"
| poller_waited:
    "MainAt p = MainStopping l \<Longrightarrow> fst (PollerAt p) = Returned \<Longrightarrow>
     main_step out cfg idle cancel server_closed p (p\<lparr> MainAt := MainShutdown l \<rparr>)"
| shut_down:
    "MainAt p = MainShutdown l \<Longrightarrow>
     main_step out cfg idle cancel server_closed p (p\<lparr> MainAt := MainExited (exit_code l shutdown_err) \<rparr>)"

definition program_start :: "'w \<Rightarrow> 'w program" where
  "program_start w =
     \<lparr> MainAt = MainSelecting, PollerAt = (Starting, new_poller (new_discovering w)), ServeError = None \<rparr>"

inductive main_reachable ::
  "'w outside \<Rightarrow> config \<Rightarrow> ('w discovering \<Rightarrow> 'w discovering \<Rightarrow> bool) \<Rightarrow> ('w \<Rightarrow> 'w) \<Rightarrow> go_error \<Rightarrow> 'w \<Rightarrow>
   'w program \<Rightarrow> bool"
  for out cfg idle cancel server_closed w where
  main_init: "main_reachable out cfg idle cancel server_closed w (program_start w)"
| main_next: "main_reachable out cfg idle cancel server_closed w p \<Longrightarrow> main_step out cfg idle cancel server_closed p p' \<Longrightarrow>
     main_reachable out cfg idle cancel server_closed w p'"

subsection \<open>The poller inside the program\<close>

text \<open>For the poller the rest of the program is the world: a cancellation is one of its moves.\<close>

definition idle_or_stopped :: "('w discovering \<Rightarrow> 'w discovering \<Rightarrow> bool) \<Rightarrow> ('w \<Rightarrow> 'w) \<Rightarrow> 'w discovering \<Rightarrow> 'w discovering \<Rightarrow> bool" where
  "idle_or_stopped idle cancel d d' \<longleftrightarrow> idle d d' \<or> d' = stop_context cancel d"

lemma run_step_idle_mono:
  "run_step env idle x y \<Longrightarrow> (\<And>d d'. idle d d' \<Longrightarrow> idle' d d') \<Longrightarrow> run_step env idle' x y"
  by (induction rule: run_step.induct) (auto intro: run_step.intros)

lemma stop_reachable:
  assumes "run_reachable env (idle_or_stopped idle cancel) d x"
  shows "run_reachable env (idle_or_stopped idle cancel) d (stop cancel x)"
proof -
  obtain phase s where x: "x = (phase, s)" by fastforce
  show ?thesis
  proof (cases "phase = Returned")
    case False
    have "run_step env (idle_or_stopped idle cancel) x (stop cancel x)"
      using waiting [OF False, of "idle_or_stopped idle cancel" s "stop_context cancel (World s)" env] False
      by (simp add: x stop_def idle_or_stopped_def)
    then show ?thesis by (rule run_next [OF assms])
  qed (use assms x in \<open>simp add: stop_def\<close>)
qed

lemma program_poller:
  assumes "main_reachable out cfg idle cancel server_closed w p"
  shows "run_reachable (exporter_env out cfg) (idle_or_stopped idle cancel) (new_discovering w) (PollerAt p)"
  using assms
proof induction
  case (main_next p p')
  note stopped = stop_reachable [OF main_next.IH]
  from main_next.hyps(2) show ?case
  proof cases
    case (poller_moves x)
    have "run_step (exporter_env out cfg) (idle_or_stopped idle cancel) (PollerAt p) x"
      by (rule run_step_idle_mono [OF poller_moves(3)]) (simp add: idle_or_stopped_def)
    then show ?thesis using run_next [OF main_next.IH] poller_moves(1) by simp
  qed (use main_next.IH stopped in simp_all)
qed (simp add: program_start_def run_init)

text \<open>So what holds of the reachable states of the poller holds in the program.\<close>

lemma program_exporter:
  "main_reachable out cfg idle cancel server_closed w p \<Longrightarrow>
   exporter_reachable out cfg (idle_or_stopped idle cancel) w (fst (PollerAt p)) (snd (PollerAt p))"
  using program_poller by (simp add: exporter_reachable_def)

lemma run_step_not_returned: "run_step env idle x y \<Longrightarrow> fst x \<noteq> Returned"
  by (induction rule: run_step.induct) simp_all

lemma stopping_waits:
  assumes "main_reachable out cfg idle cancel server_closed w p"
  shows "(\<exists>l. MainAt p = MainShutdown l) \<or> (\<exists>code. MainAt p = MainExited code) \<Longrightarrow> fst (PollerAt p) = Returned"
  using assms
proof induction
  case (main_next p p')
  from main_next.hyps(2) main_next.IH main_next.prems show ?case
    by cases (auto dest: run_step_not_returned)
qed (simp add: program_start_def)

subsection \<open>Cancelling\<close>

text \<open>
  What the code relies on of a context: once it is done it stays done, whatever else happens,
  and cancelling makes it done. \<open>gone\<close> are the worlds in which it is.
\<close>

definition cancellation ::
  "'w outside \<Rightarrow> ('w discovering \<Rightarrow> 'w discovering \<Rightarrow> bool) \<Rightarrow> ('w \<Rightarrow> 'w) \<Rightarrow> ('w \<Rightarrow> bool) \<Rightarrow> bool" where
  "cancellation out idle cancel gone \<longleftrightarrow>
     (\<forall>w. gone (cancel w)) \<and>
     (\<forall>w. case HostCtxErr (OutHost out) w of (e, w') \<Rightarrow> (e \<noteq> None \<longrightarrow> gone w') \<and> (gone w \<longrightarrow> e \<noteq> None)) \<and>
     (\<forall>w. gone w \<longrightarrow> gone (snd (OutTryTick out w))) \<and>
     (\<forall>d d'. idle d d' \<longrightarrow> gone (HostWorld d) \<longrightarrow> gone (HostWorld d'))"

definition cancelled_at :: "('w \<Rightarrow> bool) \<Rightarrow> ('w discovering) poller \<Rightarrow> bool" where
  "cancelled_at gone s \<longleftrightarrow> gone (HostWorld (World s))"

text \<open>All that the poller does to the outside: what it publishes, queries and counts.\<close>

definition effects where
  "effects s = (Store s, PCIeEyeStore s, Ready s, answers (Trace s), errors_counted (Trace s),
     pcie_errors_counted (Trace s), overlaps_counted (Trace s))"


text \<open>A poller whose context is done: it sees that at its first step, and does nothing.\<close>

definition idles :: "('w \<Rightarrow> bool) \<Rightarrow> ('w discovering) poller \<Rightarrow> ('w discovering) poller \<Rightarrow> bool" where
  "idles gone s s' \<longleftrightarrow> cancelled_at gone s' \<and> effects s' = effects s"

lemma ctx_law:
  assumes "cancellation out idle cancel gone" and "HostCtxErr (OutHost out) v = (e, v')"
  shows "(e \<noteq> None \<longrightarrow> gone v') \<and> (gone v \<longrightarrow> e \<noteq> None)"
proof -
  from assms(1) have "case HostCtxErr (OutHost out) v of (e, w') \<Rightarrow> (e \<noteq> None \<longrightarrow> gone w') \<and> (gone v \<longrightarrow> e \<noteq> None)"
    by (simp add: cancellation_def)
  then show ?thesis by (simp add: assms(2))
qed

lemma ctx_run:
  assumes "cancellation out idle cancel gone" and "run_state (ctx_err (exporter_env out cfg)) s = (e, s')"
  shows "(e \<noteq> None \<longrightarrow> cancelled_at gone s') \<and> (cancelled_at gone s \<longrightarrow> e \<noteq> None) \<and> effects s' = effects s"
proof -
  obtain v where v: "HostCtxErr (OutHost out) (HostWorld (World s)) = (e, v)"
    "s' = s\<lparr> World := (World s)\<lparr> HostWorld := v \<rparr>, Trace := Trace s @ [CtxSeen e] \<rparr>"
    using assms(2)
    by (auto simp: ctx_err_def in_world_def emit_def exporter_env_def on_world_def run_state_bind split: prod.splits)
  show ?thesis
    using ctx_law [OF assms(1) v(1)] by (simp add: v(2) cancelled_at_def effects_def overlaps_counted_def)
qed

lemma ctx_wp:
  assumes "cancellation out idle cancel gone"
    and "\<And>e s'. (e \<noteq> None \<longrightarrow> cancelled_at gone s') \<and> (cancelled_at gone s \<longrightarrow> e \<noteq> None) \<Longrightarrow>
      effects s' = effects s \<Longrightarrow> Q e s'"
  shows "wp (ctx_err (exporter_env out cfg)) Q s"
  by (rule wpI, drule ctx_run [OF assms(1)]) (simp add: assms(2))

lemma tick_law: "cancellation out idle cancel gone \<Longrightarrow> gone (HostWorld d) \<Longrightarrow>
    EnvTryTick (exporter_env out cfg) d = (pending, d') \<Longrightarrow> gone (HostWorld d')"
  by (auto simp: cancellation_def exporter_env_def on_world_def split: prod.splits)

lemma discover_cancelled:
  assumes "cancellation out idle cancel gone" and "cancelled_at gone s"
    and "\<And>err s'. cancelled_at gone s' \<Longrightarrow> effects s' = effects s \<Longrightarrow> Q (Inl err) s'"
  shows "wp (run_discovery (exporter_env out cfg)) Q s"
proof -
  obtain err v where v: "HostCtxErr (OutHost out) (HostWorld (World s)) = (Some err, v)" "gone v"
    using ctx_law [OF assms(1)] assms(2) unfolding cancelled_at_def by (metis not_None_eq prod.collapse)
  have "run_state (discover (OutHost out) d) (World s) = (Inl (CtxError err), (World s)\<lparr> HostWorld := v \<rparr>)" for d
    using v(1) by (simp add: discover_def on_host_def)
  then show ?thesis
    using v(2) by (auto simp: run_discovery_def wp_simps exporter_env_def cancelled_at_def effects_def
        overlaps_counted_def intro!: assms(3))
qed

lemma sweep_cancelled:
  assumes "cancellation out idle cancel gone" and "cancelled_at gone s"
  shows "wp (sweep (exporter_env out cfg)) (\<lambda>u. idles gone s) s"
  unfolding sweep_def wp_bind
  by (rule discover_cancelled [OF assms], simp add: wp_simps, rule ctx_wp [OF assms(1)])
    (auto simp: idles_def wp_simps)

lemma drain_cancelled:
  assumes "cancellation out idle cancel gone" and "cancelled_at gone s"
  shows "wp (drain_ticks (exporter_env out cfg)) (\<lambda>u. idles gone s) s"
proof -
  obtain pending w where w: "EnvTryTick (exporter_env out cfg) (World s) = (pending, w)" by fastforce
  then have "gone (HostWorld w)"
    using tick_law [OF assms(1)] assms(2) by (simp add: cancelled_at_def)
  then have g: "cancelled_at gone (s\<lparr> World := w \<rparr>)" "effects (s\<lparr> World := w \<rparr>) = effects s"
    by (simp_all add: cancelled_at_def effects_def)
  show ?thesis
    unfolding drain_ticks_def wp_bind wp_in_world w
    using g by (auto simp: wp_simps idles_def intro!: ctx_wp [OF assms(1)])
qed

lemma step_cancelled:
  assumes law: "cancellation out idle cancel gone" and step: "run_step (exporter_env out cfg) idle (phase, s) (phase', s')"
    and s: "cancelled_at gone s"
  shows "idles gone s s'"
  using step
proof cases
  case (start_cancelled e)
  then show ?thesis using ctx_run [OF law start_cancelled(3)] by (simp add: idles_def)
next
  case (start_sweep s1 u)
  then show ?thesis using ctx_run [OF law start_sweep(3)] s by simp
next
  case (waiting w)
  then show ?thesis using law s by (auto simp: idles_def cancellation_def cancelled_at_def effects_def)
next
  case (tick w u)
  have "gone (HostWorld w)"
    using tick_law [OF law] s tick(3) by (simp add: cancelled_at_def)
  then have g: "cancelled_at gone (s\<lparr> World := w \<rparr>)" "effects (s\<lparr> World := w \<rparr>) = effects s"
    by (simp_all add: cancelled_at_def effects_def)
  have "wp (tick_step (exporter_env out cfg)) (\<lambda>u. idles gone s) (s\<lparr> World := w \<rparr>)"
    unfolding tick_step_def wp_bind
    by (rule wp_mono [OF sweep_cancelled [OF law g(1)]], rule wp_mono, rule drain_cancelled [OF law])
      (use g(2) in \<open>auto simp: idles_def\<close>)
  then show ?thesis using tick(4) by (rule wp_run)
next
  case (cancelled e)
  then show ?thesis using ctx_run [OF law cancelled(3)] by (simp add: idles_def)
qed

lemma step_returns:
  assumes law: "cancellation out idle cancel gone" and step: "run_step (exporter_env out cfg) idle (phase, s) (Returned, s')"
  shows "cancelled_at gone s'"
  using step
proof cases
  case (start_cancelled e)
  then show ?thesis using ctx_run [OF law start_cancelled(2)] by simp
next
  case (cancelled e)
  then show ?thesis using ctx_run [OF law cancelled(2)] by simp
qed simp_all

lemma can_return:
  assumes "cancellation out idle cancel gone" and "cancelled_at gone s" and "phase \<noteq> Returned"
  obtains s' where "run_step (exporter_env out cfg) idle (phase, s) (Returned, s')"
proof -
  obtain e s' where run: "run_state (ctx_err (exporter_env out cfg)) s = (e, s')" by fastforce
  then obtain err where "run_state (ctx_err (exporter_env out cfg)) s = (Some err, s')"
    using ctx_run [OF assms(1) run] assms(2) by blast
  then show thesis using that start_cancelled cancelled assms(3) by (cases phase) blast+
qed

subsection \<open>Stopping the program\<close>

abbreviation program_gone :: "('w \<Rightarrow> bool) \<Rightarrow> 'w program \<Rightarrow> bool" where
  "program_gone gone p \<equiv> cancelled_at gone (snd (PollerAt p))"

lemma poller_step_cancelled:
  assumes "cancellation out idle cancel gone" and "run_step (exporter_env out cfg) idle x y"
  shows "(cancelled_at gone (snd x) \<longrightarrow> idles gone (snd x) (snd y)) \<and> (fst y = Returned \<longrightarrow> cancelled_at gone (snd y))"
  using step_cancelled [OF assms(1)] step_returns [OF assms(1)] assms(2) by (cases x; cases y) auto

lemma stop_cancelled:
  assumes "cancellation out idle cancel gone" and "fst x = Returned \<longrightarrow> cancelled_at gone (snd x)"
  shows "cancelled_at gone (snd (stop cancel x)) \<and> effects (snd (stop cancel x)) = effects (snd x) \<and>
    fst (stop cancel x) = fst x"
  using assms
  by (auto simp: stop_def stop_context_def cancelled_at_def effects_def cancellation_def split: prod.split)

lemma stopping_cancelled:
  assumes law: "cancellation out idle cancel gone" and "main_reachable out cfg idle cancel server_closed w p"
  shows "fst (PollerAt p) = Returned \<or> MainAt p \<noteq> MainSelecting \<Longrightarrow> program_gone gone p"
  using assms(2)
proof induction
  case (main_next p p')
  from main_next.hyps(2) main_next.IH main_next.prems show ?case
  proof cases
    case (poller_moves x)
    then show ?thesis
      using poller_step_cancelled [OF law poller_moves(3)] main_next.IH main_next.prems
      by (auto simp: idles_def)
  next
    case (signal_seen e d)
    then show ?thesis using stop_cancelled [OF law, of "PollerAt p"] main_next.IH by simp
  next
    case (failure_seen err)
    then show ?thesis using stop_cancelled [OF law, of "PollerAt p"] main_next.IH by simp
  qed simp_all
qed (simp add: program_start_def)

text \<open>Once the context is done or the server has failed, nothing goes back on that.\<close>

definition ending :: "('w \<Rightarrow> bool) \<Rightarrow> 'w program \<Rightarrow> bool" where
  "ending gone p \<longleftrightarrow> program_gone gone p \<or> ServeError p \<noteq> None"


lemma main_steps_reachable:
  "rtranclp (main_step out cfg idle cancel server_closed) p p' \<Longrightarrow>
   main_reachable out cfg idle cancel server_closed w p \<Longrightarrow> main_reachable out cfg idle cancel server_closed w p'"
  by (induction rule: rtranclp_induct) (auto intro: main_next)


definition can_exit where
  "can_exit out cfg idle cancel server_closed p \<longleftrightarrow>
     (\<exists>q code. rtranclp (main_step out cfg idle cancel server_closed) p q \<and> MainAt q = MainExited code)"

lemma can_exit_step:
  "main_step out cfg idle cancel server_closed p q \<Longrightarrow> can_exit out cfg idle cancel server_closed q \<Longrightarrow>
   can_exit out cfg idle cancel server_closed p"
  unfolding can_exit_def by (meson converse_rtranclp_into_rtranclp)

lemma exit_shutdown: "MainAt p = MainShutdown l \<Longrightarrow> can_exit out cfg idle cancel server_closed p"
  by (rule can_exit_step [OF shut_down]) (auto simp: can_exit_def)

lemma exit_stopping:
  assumes law: "cancellation out idle cancel gone" and "MainAt p = MainStopping l" and "program_gone gone p"
  shows "can_exit out cfg idle cancel server_closed p"
proof -
  have waited: "can_exit out cfg idle cancel server_closed q" if "MainAt q = MainStopping l" "fst (PollerAt q) = Returned" for q
    by (rule can_exit_step [OF poller_waited [OF that]]) (rule exit_shutdown, simp)
  obtain phase s where x: "PollerAt p = (phase, s)" by fastforce
  show ?thesis
  proof (cases "phase = Returned")
    case False
    obtain s' where "run_step (exporter_env out cfg) idle (PollerAt p) (Returned, s')"
      using can_return [OF law _ False] assms(3) x by auto
    then have "main_step out cfg idle cancel server_closed p (p\<lparr> PollerAt := (Returned, s') \<rparr>)"
      by (rule poller_moves [rotated]) (simp add: assms(2))
    then show ?thesis by (rule can_exit_step) (rule waited, simp_all add: assms(2))
  qed (use waited assms(2) x in simp)
qed

lemma ending_exits:
  assumes law: "cancellation out idle cancel gone" and reach: "main_reachable out cfg idle cancel server_closed w p"
    and "ending gone p"
  shows "can_exit out cfg idle cancel server_closed p"
proof (cases "MainAt p")
  case MainSelecting
  note s = stop_cancelled [OF law impI [OF stopping_cancelled [OF law reach disjI1]]]
  show ?thesis
  proof (cases "ServeError p")
    case None
    obtain e d where e: "EnvCtxErr (exporter_env out cfg) (World (snd (PollerAt p))) = (e, d)" by fastforce
    have "e \<noteq> None"
      using assms(3) None e ctx_law [OF law] by (auto simp: ending_def cancelled_at_def exporter_env_def on_world_def split: prod.splits)
    then obtain err where "e = Some err" by blast
    with e have "EnvCtxErr (exporter_env out cfg) (World (snd (PollerAt p))) = (Some err, d)" by simp
    show ?thesis
      by (rule can_exit_step [OF signal_seen [OF MainSelecting \<open>_ = (Some err, d)\<close>]])
        (rule exit_stopping [OF law], simp_all add: s)
  next
    case (Some err)
    show ?thesis
      by (rule can_exit_step [OF failure_seen [OF MainSelecting Some]])
        (rule exit_stopping [OF law], simp_all add: s)
  qed
next
  case (MainStopping l)
  then show ?thesis using exit_stopping [OF law] stopping_cancelled [OF law reach] by simp
next
  case (MainShutdown l)
  then show ?thesis by (rule exit_shutdown)
next
  case (MainExited code)
  then show ?thesis by (auto simp: can_exit_def)
qed

subsection \<open>A concrete life\<close>

text \<open>A world that is just whether the context is cancelled; its server cannot listen.\<close>

definition flag_outside :: "bool outside" where
  "flag_outside =
     \<lparr> OutHost = (static_host demo_fs)\<lparr> HostCtxErr := (\<lambda>b. (if b then Some Canceled else None, b)) \<rparr>,
       OutExec = (\<lambda>cmd b. (fst (demo_exec cmd ()), b)), OutNow = (\<lambda>b. (demo_time, b)),
       OutTryTick = (\<lambda>b. (False, b)), OutEnviron = [] \<rparr>"

abbreviation flag_reachable :: "bool program \<Rightarrow> bool" where
  "flag_reachable p \<equiv>
     main_reachable flag_outside demo_config (\<lambda>_ _. False) (\<lambda>_. True) (Sentinel ErrNotFound) False p"

lemma flag_cancellation: "cancellation flag_outside (\<lambda>_ _. False) (\<lambda>_. True) (\<lambda>b. b)"
  by (simp add: cancellation_def flag_outside_def)

definition unbound :: "bool program" where
  "unbound = program_start False\<lparr> ServeError := Some (Sentinel ErrPermission) \<rparr>"

lemma unbound_reachable: "flag_reachable unbound"
  unfolding unbound_def
  by (rule main_next [OF main_init], rule server_fails [where served = "Some (Sentinel ErrPermission)"])
    (simp_all add: program_start_def listen_and_serve_def)

lemma unbound_ending: "ending (\<lambda>b. b) unbound"
  by (simp add: ending_def unbound_def)

subsection \<open>Properties\<close>

lemma exit_codes: "main_reachable out cfg idle cancel server_closed w p \<Longrightarrow> MainAt p = MainExited code \<Longrightarrow> code \<in> {0, 1}"
proof (induction rule: main_reachable.induct)
  case (main_next p p')
  from main_next.hyps(2) main_next.IH main_next.prems show ?case
    by cases (auto simp: exit_code_def Let_def split: leave.splits option.splits)
qed (simp add: program_start_def)

text \<open>
  C17: When the program has exited the poller has returned, after a reading that showed its
  context done, so it has left no mlxlink of its own behind; the code is 0 or 1, and nothing
  happens any more.
\<close>

theorem exit_leaves_nothing:
  assumes "main_reachable out cfg idle cancel server_closed w p" and "MainAt p = MainExited code"
  shows "fst (PollerAt p) = Returned \<and> dead (last (Trace (snd (PollerAt p)))) \<and> code \<in> {0, 1} \<and>
    \<not> main_step out cfg idle cancel server_closed p p'"
proof -
  have r: "fst (PollerAt p) = Returned" using stopping_waits [OF assms(1)] assms(2) by blast
  then have "PollerAt p = (Returned, snd (PollerAt p))" by (simp add: prod_eq_iff)
  then have "dead (last (Trace (snd (PollerAt p))))"
    using exporter.run_invariant [OF program_poller [OF assms(1)]] by (metis run_inv.simps(3))
  moreover have "\<not> main_step out cfg idle cancel server_closed p p'"
    using assms(2) by (auto elim: main_step.cases)
  ultimately show ?thesis using r exit_codes [OF assms] by blast
qed

lemma exit_leaves_nothing_witness:
  "\<exists>p code. flag_reachable p \<and> MainAt p = MainExited code \<and> fst (PollerAt p) = Returned \<and>
     dead (last (Trace (snd (PollerAt p))))"
proof -
  obtain q code where q: "rtranclp (main_step flag_outside demo_config (\<lambda>_ _. False) (\<lambda>_. True) (Sentinel ErrNotFound)) unbound q"
    "MainAt q = MainExited code"
    using ending_exits [OF flag_cancellation unbound_reachable unbound_ending] unfolding can_exit_def by blast
  have "flag_reachable q" by (rule main_steps_reachable [OF q(1) unbound_reachable])
  then show ?thesis using exit_leaves_nothing [OF _ q(2)] q(2) by blast
qed




end
