(* ===== verification/Reports.thy ===== *)
theory Reports
  imports Decoder
begin

text \<open>
  What mlxlink says of a port, and how it prints it: a report with its texts and readings, printed
  under the keys of the captured responses, which are written out here and do not come from the
  table of the decoder. A printed report is decoded to exactly what it says.
\<close>

subsection \<open>Readings\<close>

text \<open>A number as mlxlink prints it: a text that Go reads as a finite number.\<close>

definition reading :: "bytes \<Rightarrow> float64" where
  "reading t = (case parse_float t of Inl err \<Rightarrow> f_of_nat 0 | Inr f \<Rightarrow> f)"

definition reading_ok :: "bytes \<Rightarrow> bool" where
  "reading_ok t \<longleftrightarrow>
     t \<noteq> '''' \<and> graphic (hd t) \<and> graphic (last t) \<and> CHR ''['' \<notin> set t \<and> CHR '']'' \<notin> set t \<and> CHR '','' \<notin> set t \<and>
     valid_utf8 t \<and> (case parse_float t of Inl err \<Rightarrow> False | Inr f \<Rightarrow> f_finite f)"

text \<open>A range behind it, as \<open>61 [-10..80]\<close>.\<close>

definition with_range :: "bytes \<Rightarrow> bytes \<Rightarrow> bytes" where
  "with_range t r = t @ '' ['' @ r @ '']''"

definition numbered :: "float64 list \<Rightarrow> lane_value list" where
  "numbered fs = map2 (\<lambda>i f. \<lparr> Lane = int i, LaneFloat = f \<rparr>) [0..<length fs] fs"

definition value_of :: "float64 \<Rightarrow> float_value" where
  "value_of f = \<lparr> Float = f, Valid = True \<rparr>"

definition flag_text :: "bool \<Rightarrow> bytes" where
  "flag_text b = (if b then ''1'' else ''0'')"

definition flag_float :: "bool \<Rightarrow> float64" where
  "flag_float b = f_of_nat (if b then 1 else 0)"

lemma read_number: "reading_ok t \<Longrightarrow> parse_float_safe t = value_of (reading t)"
proof -
  assume t: "reading_ok t"
  then have "trim_space t = t" by (simp add: reading_ok_def trim_space_graphic)
  moreover have "\<not> has_suffix t '']''"
    using t by (cases t rule: rev_cases) (auto simp: reading_ok_def has_suffix_def)
  ultimately have "trim_range_suffix t = t" by (simp add: trim_range_suffix_plain)
  then show ?thesis using t by (simp add: parse_float_safe_alt reading_ok_def reading_def value_of_def split: sum.splits)
qed

lemma read_range:
  "reading_ok t \<Longrightarrow> CHR ''['' \<notin> set r \<Longrightarrow> parse_float_safe (with_range t r) = value_of (reading t)"
  using trim_range_suffix_range [of t r]
  by (auto simp: with_range_def parse_float_safe_alt reading_ok_def reading_def value_of_def split: sum.splits)

lemma read_lanes:
  assumes "list_all reading_ok ts"
  shows "lane_values ts d = numbered (map (\<lambda>t. f_div (reading t) d) ts)"
proof -
  have "(i, t) \<in> set (zip [0..<length ts] ts) \<Longrightarrow> parse_float_safe t = value_of (reading t)" for i t
    using assms read_number by (auto simp: list_all_iff dest: set_zip_rightD)
  then show ?thesis
    unfolding lane_values_def lane_values_from_alt [of 0, simplified] numbered_def
    by (subst filter_True) (auto simp: value_of_def zip_map2 case_prod_unfold)
qed

lemma reading_wf: "reading_ok t \<Longrightarrow> f_wf (reading t)"
  by (auto simp: reading_ok_def reading_def dest: parse_float_wf split: sum.splits)

lemma read_lanes_one: "list_all reading_ok ts \<Longrightarrow> lane_values ts (f_of_nat 1) = numbered (map reading ts)"
  by (simp add: read_lanes list_all_iff reading_wf cong: map_cong)

lemma join_ends:
  "ts \<noteq> [] \<Longrightarrow> list_all reading_ok ts \<Longrightarrow>
   join_with c ts \<noteq> [] \<and> hd (join_with c ts) = hd (hd ts) \<and> last (join_with c ts) = last (last ts)"
  by (induction c ts rule: join_with.induct) (auto simp: reading_ok_def)

lemma read_list:
  assumes "ts \<noteq> []" and "list_all reading_ok ts" and "CHR ''['' \<notin> set r"
  shows "comma_lane_values (with_range (join_with CHR '','' ts) r) d = numbered (map (\<lambda>t. f_div (reading t) d) ts)"
proof -
  have ends: "reading_ok (hd ts)" "reading_ok (last ts)" using assms(1,2) by (auto simp: list_all_iff)
  then have "trim_range_suffix (with_range (join_with CHR '','' ts) r) = join_with CHR '','' ts"
    unfolding with_range_def
    using join_ends [OF assms(1,2)] assms(3) by (intro trim_range_suffix_range) (auto simp: reading_ok_def)
  moreover have "split_on CHR '','' (join_with CHR '','' ts) = ts"
    using assms(1,2) by (intro split_join) (auto simp: list_all_iff reading_ok_def)
  ultimately show ?thesis
    using join_ends [OF assms(1,2)] read_lanes [OF assms(2)] by (simp add: comma_lane_values_def)
qed

lemma read_flag: "parse_flag (flag_text b) = value_of (flag_float b)"
  by (simp add: flag_text_def flag_float_def parse_flag_def trim_space_graphic graphic_def value_of_def Let_def)

lemma read_flags: "lane_flags (map flag_text bs) = numbered (map flag_float bs)"
  by (simp add: lane_flags_alt read_flag list_all_iff numbered_def value_of_def zip_map2 case_prod_unfold)

definition state_ok :: "bytes \<Rightarrow> bool" where
  "state_ok s \<longleftrightarrow> trim_space s = s \<and> s \<noteq> '''' \<and> \<not> equal_fold s ''n/a'' \<and> valid_utf8 s"

lemma read_states:
  "list_all state_ok ss \<Longrightarrow> lane_states ss datapathActivated = numbered (map (\<lambda>s. flag_float (s = ''DPActivated'')) ss)"
  by (auto simp: lane_states_alt list_all_iff state_ok_def numbered_def flag_float_def datapathActivated_def zip_map2
      dest!: set_zip_rightD)

subsection \<open>Reports\<close>

record report =
  ReportLink :: link_info
  ReportEffectiveErrors :: bytes
  ReportLinkDown :: bytes
  ReportErrorRecovery :: bytes
  ReportEffectiveBER :: bytes
  ReportRawBER :: bytes
  ReportRawErrors :: "bytes list"
  ReportRawBERs :: "bytes list"
  ReportTemperature :: "bytes \<times> bytes"
  ReportVoltage :: "bytes \<times> bytes"
  ReportBias :: "bytes list \<times> bytes"
  ReportRxPower :: "bytes list \<times> bytes"
  ReportTxPower :: "bytes list \<times> bytes"
  ReportModuleFault :: bool
  ReportDatapathFault :: bool
  ReportTxFault :: "bool list"
  ReportTxLOS :: "bool list"
  ReportRxLOS :: "bool list"
  ReportTxCDRLOL :: "bool list"
  ReportRxCDRLOL :: "bool list"
  ReportStates :: "bytes list"
  ReportInfo :: module_info

definition link_texts :: "link_info \<Rightarrow> bytes list" where
  "link_texts l = [LinkState l, LinkPhysicalState l, LinkSpeed l, LinkWidth l, LinkFEC l, LinkAutoNegotiation l]"

definition info_texts :: "module_info \<Rightarrow> bytes list" where
  "info_texts i = [Identifier i, Vendor i, PartNumber i, SerialNumber i, Revision i, FirmwareVersion i, ActiveHostCompliance i, ActiveMediaCompliance i, CableType i]"

definition report_ok :: "report \<Rightarrow> bool" where
  "report_ok r \<longleftrightarrow>
     list_all (\<lambda>t. trim_space t = t \<and> valid_utf8 t) (link_texts (ReportLink r) @ info_texts (ReportInfo r)) \<and>
     list_all reading_ok [ReportEffectiveErrors r, ReportLinkDown r, ReportErrorRecovery r, ReportEffectiveBER r, ReportRawBER r] \<and>
     list_all reading_ok (ReportRawErrors r) \<and> list_all reading_ok (ReportRawBERs r) \<and>
     list_all (\<lambda>(t, range). reading_ok t \<and> CHR ''['' \<notin> set range \<and> valid_utf8 (with_range t range))
       [ReportTemperature r, ReportVoltage r] \<and>
     list_all (\<lambda>(ts, range). ts \<noteq> [] \<and> list_all reading_ok ts \<and> CHR ''['' \<notin> set range \<and>
         valid_utf8 (with_range (join_with CHR '','' ts) range))
       [ReportBias r, ReportRxPower r, ReportTxPower r] \<and>
     list_all state_ok (ReportStates r)"

text \<open>How it is printed.\<close>

definition list_text :: "bytes list \<times> bytes \<Rightarrow> bytes" where
  "list_text l = with_range (join_with CHR '','' (fst l)) (snd l)"

definition range_text :: "bytes \<times> bytes \<Rightarrow> bytes" where
  "range_text l = with_range (fst l) (snd l)"

definition link_entries :: "link_info \<Rightarrow> (bytes \<times> json) list" where
  "link_entries l =
     [(''State'', JStr (LinkState l)),
      (''Physical state'', JStr (LinkPhysicalState l)),
      (''Speed'', JStr (LinkSpeed l)),
      (''Width'', JStr (LinkWidth l)),
      (''FEC'', JStr (LinkFEC l)),
      (''Auto Negotiation'', JStr (LinkAutoNegotiation l))]"

definition counter_entries :: "report \<Rightarrow> (bytes \<times> json) list" where
  "counter_entries r =
     [(''Effective Physical Errors'', JStr (ReportEffectiveErrors r)),
      (''Link Down Counter'', JStr (ReportLinkDown r)),
      (''Link Error Recovery Counter'', JStr (ReportErrorRecovery r)),
      (''Effective Physical BER'', JStr (ReportEffectiveBER r)),
      (''Raw Physical BER'', JStr (ReportRawBER r)),
      (''Raw Physical Errors Per Lane'', values_json (ReportRawErrors r)),
      (''Raw Physical BER Per Lane'', values_json (ReportRawBERs r))]"

definition module_entries :: "report \<Rightarrow> (bytes \<times> json) list" where
  "module_entries r =
     (let i = ReportInfo r in
     [(''Temperature [C]'', JStr (range_text (ReportTemperature r))),
      (''Voltage [mV]'', JStr (range_text (ReportVoltage r))),
      (''Bias Current [mA]'', JStr (list_text (ReportBias r))),
      (''Rx Power Current [dBm]'', JStr (list_text (ReportRxPower r))),
      (''Tx Power Current [dBm]'', JStr (list_text (ReportTxPower r))),
      (''Module FW Fault'', JStr (flag_text (ReportModuleFault r))),
      (''DataPath FW Fault'', JStr (flag_text (ReportDatapathFault r))),
      (''Tx Fault [per lane]'', values_json (map flag_text (ReportTxFault r))),
      (''Tx LOS [per lane]'', values_json (map flag_text (ReportTxLOS r))),
      (''Rx LOS [per lane]'', values_json (map flag_text (ReportRxLOS r))),
      (''Tx CDR LOL [per lane]'', values_json (map flag_text (ReportTxCDRLOL r))),
      (''Rx CDR LOL [per lane]'', values_json (map flag_text (ReportRxCDRLOL r))),
      (''DataPath state [per lane]'', values_json (ReportStates r)),
      (''Identifier'', JStr (Identifier i)),
      (''Vendor Name'', JStr (Vendor i)),
      (''Vendor Part Number'', JStr (PartNumber i)),
      (''Vendor Serial Number'', JStr (SerialNumber i)),
      (''Rev'', JStr (Revision i)),
      (''FW Version'', JStr (FirmwareVersion i)),
      (''Active Set Host Compliance Code'', JStr (ActiveHostCompliance i)),
      (''Active Set Media Compliance Code'', JStr (ActiveMediaCompliance i)),
      (''Cable Type'', JStr (CableType i))])"

definition report_output :: "report \<Rightarrow> (bytes \<times> json) list" where
  "report_output r =
     [(''Operational Info'', JObj (link_entries (ReportLink r))),
      (''Physical Counters and BER Info'', JObj (counter_entries r)),
      (''Module Info'', JObj (module_entries r))]"

text \<open>What it says, in the units of the data model.\<close>

definition report_counters :: "report \<Rightarrow> counters" where
  "report_counters r =
     \<lparr> EffectivePhysicalErrors = value_of (reading (ReportEffectiveErrors r)),
       LinkDown = value_of (reading (ReportLinkDown r)),
       LinkErrorRecovery = value_of (reading (ReportErrorRecovery r)),
       EffectiveBER = value_of (reading (ReportEffectiveBER r)),
       RawBER = value_of (reading (ReportRawBER r)),
       RawPhysicalErrorsLane = numbered (map reading (ReportRawErrors r)),
       RawBERLane = numbered (map reading (ReportRawBERs r)) \<rparr>"

definition in_units :: "bytes list \<times> bytes \<Rightarrow> nat \<Rightarrow> lane_value list" where
  "in_units l n = numbered (map (\<lambda>t. f_div (reading t) (f_of_nat n)) (fst l))"

definition report_module :: "report \<Rightarrow> module_data" where
  "report_module r =
     \<lparr> TemperatureCelsius = value_of (reading (fst (ReportTemperature r))),
       VoltageVolts = value_of (f_div (reading (fst (ReportVoltage r))) (f_of_nat 1000)),
       BiasCurrentAmperes = in_units (ReportBias r) 1000,
       RxPowerDBm = in_units (ReportRxPower r) 1,
       TxPowerDBm = in_units (ReportTxPower r) 1,
       ModuleFWFault = value_of (flag_float (ReportModuleFault r)),
       DatapathFWFault = value_of (flag_float (ReportDatapathFault r)),
       TxFault = numbered (map flag_float (ReportTxFault r)),
       TxLOS = numbered (map flag_float (ReportTxLOS r)),
       RxLOS = numbered (map flag_float (ReportRxLOS r)),
       TxCDRLOL = numbered (map flag_float (ReportTxCDRLOL r)),
       RxCDRLOL = numbered (map flag_float (ReportRxCDRLOL r)),
       DatapathActive = numbered (map (\<lambda>s. flag_float (s = ''DPActivated'')) (ReportStates r)),
       ModuleInventory = ReportInfo r \<rparr>"

definition report_data :: "report \<Rightarrow> port_data" where
  "report_data r =
     no_port_data\<lparr> PortLink := ReportLink r, PortCounters := report_counters r, PortModule := report_module r \<rparr>"

subsection \<open>Reading a printed report\<close>

lemma string_field_at:
  "map_of es (field_key c) = Some (JStr t) \<Longrightarrow> string_field (Some es) c = trim_space t"
  by (simp add: string_field_def lookup_field_def sec_get_def entries_def unmarshal_string_def)

lemma values_field_at:
  "map_of es (field_key c) = Some (values_json vs) \<Longrightarrow> values_field (Some es) c = vs"
  by (simp add: values_field_def lookup_field_def sec_get_def entries_def)

lemma field_key_map: "map_of fieldAliases c = Some k \<Longrightarrow> field_key c = k"
  by (simp add: field_key_def)

lemma link_keys:
  "field_key fieldState = ''State''"
  "field_key fieldPhysicalState = ''Physical state''"
  "field_key fieldSpeed = ''Speed''"
  "field_key fieldWidth = ''Width''"
  "field_key fieldFEC = ''FEC''"
  "field_key fieldAutoNegotiation = ''Auto Negotiation''"
  by (simp_all add: field_key_def fieldAliases_def)

lemma counter_keys:
  "field_key fieldEffectivePhysicalErrors = ''Effective Physical Errors''"
  "field_key fieldLinkDown = ''Link Down Counter''"
  "field_key fieldLinkErrorRecovery = ''Link Error Recovery Counter''"
  "field_key fieldEffectiveBER = ''Effective Physical BER''"
  "field_key fieldRawBER = ''Raw Physical BER''"
  "field_key fieldRawBERPerLane = ''Raw Physical BER Per Lane''"
  "field_key fieldRawErrorsPerLane = ''Raw Physical Errors Per Lane''"
  by (simp_all add: field_key_def fieldAliases_def)

lemma module_keys:
  "field_key fieldTemperature = ''Temperature [C]''"
  "field_key fieldVoltage = ''Voltage [mV]''"
  "field_key fieldBiasCurrent = ''Bias Current [mA]''"
  "field_key fieldRxPower = ''Rx Power Current [dBm]''"
  "field_key fieldTxPower = ''Tx Power Current [dBm]''"
  "field_key fieldModuleFWFault = ''Module FW Fault''"
  "field_key fieldDatapathFWFault = ''DataPath FW Fault''"
  "field_key fieldTxFault = ''Tx Fault [per lane]''"
  "field_key fieldTxLOS = ''Tx LOS [per lane]''"
  "field_key fieldRxLOS = ''Rx LOS [per lane]''"
  "field_key fieldTxCDRLOL = ''Tx CDR LOL [per lane]''"
  "field_key fieldRxCDRLOL = ''Rx CDR LOL [per lane]''"
  "field_key fieldDatapathState = ''DataPath state [per lane]''"
  "field_key fieldIdentifier = ''Identifier''"
  "field_key fieldVendor = ''Vendor Name''"
  "field_key fieldPartNumber = ''Vendor Part Number''"
  "field_key fieldSerialNumber = ''Vendor Serial Number''"
  "field_key fieldRevision = ''Rev''"
  "field_key fieldFirmwareVersion = ''FW Version''"
  "field_key fieldActiveHostCompliance = ''Active Set Host Compliance Code''"
  "field_key fieldActiveMediaCompliance = ''Active Set Media Compliance Code''"
  "field_key fieldCableType = ''Cable Type''"
  by (simp_all add: field_key_def fieldAliases_def)

lemma read_link:
  "list_all (\<lambda>t. trim_space t = t \<and> valid_utf8 t) (link_texts l) \<Longrightarrow> decode_link (Some (link_entries l)) = l"
  by (simp add: decode_link_def string_field_at link_keys link_entries_def link_texts_def)

lemma read_counters: "report_ok r \<Longrightarrow> decode_counters (Some (counter_entries r)) = report_counters r"
proof -
  assume r: "report_ok r"
  have t: "parse_float_safe (trim_space t) = value_of (reading t)" if "reading_ok t" for t
    using read_number [OF that] that by (simp add: reading_ok_def trim_space_graphic)
  show ?thesis
    using r by (simp add: decode_counters_def string_field_at values_field_at counter_keys counter_entries_def
        report_counters_def report_ok_def t read_lanes_one [unfolded One_nat_def])
qed

lemma trim_ranged: "t \<noteq> '''' \<Longrightarrow> graphic (hd t) \<Longrightarrow> trim_space (with_range t limits) = with_range t limits"
  by (rule trim_space_graphic) (simp add: with_range_def graphic_def)

lemma trim_flag: "trim_space (flag_text b) = flag_text b"
  by (simp add: flag_text_def trim_space_graphic graphic_def)

lemma trim_list:
  "fst l \<noteq> [] \<Longrightarrow> list_all reading_ok (fst l) \<Longrightarrow> trim_space (list_text l) = list_text l"
  unfolding list_text_def using join_ends [of "fst l" "CHR '',''"]
  by (intro trim_ranged) (auto simp: list_all_iff reading_ok_def)

lemma read_module: "report_ok r \<Longrightarrow> decode_module (Some (module_entries r)) = report_module r"
proof -
  assume r: "report_ok r"
  have ranged: "parse_float_safe (trim_space (range_text l)) = value_of (reading (fst l))"
    if "l \<in> {ReportTemperature r, ReportVoltage r}" for l
    using that r read_range [of "fst l" "snd l"] trim_ranged [of "fst l" "snd l"]
    by (auto simp: report_ok_def range_text_def reading_ok_def split: prod.splits)
  have listed: "comma_lane_values (trim_space (list_text l)) (f_of_nat n) = in_units l n"
    if "l \<in> {ReportBias r, ReportRxPower r, ReportTxPower r}" for l n
    using that r read_list [of "fst l" "snd l"] trim_list [of l]
    by (auto simp: report_ok_def list_text_def in_units_def split: prod.splits)
  have info: "trim_space t = t" if "t \<in> set (info_texts (ReportInfo r))" for t
    using that r by (simp add: report_ok_def list_all_iff)
  have states: "lane_states (ReportStates r) datapathActivated =
      numbered (map (\<lambda>s. flag_float (s = ''DPActivated'')) (ReportStates r))"
    using r by (simp add: report_ok_def read_states)
  have millis: "divide_value (value_of f) (f_of_nat 1000) = value_of (f_div f (f_of_nat 1000))" for f
    by (simp add: divide_value_def value_of_def)
  show ?thesis
    unfolding decode_module_def module_entries_def Let_def
    by (simp add: string_field_at values_field_at module_keys ranged listed info info_texts_def trim_flag read_flag read_flags
        states millis millisPerUnit_def report_module_def)
qed

lemma unmarshal_entries: "keys_distinct es \<Longrightarrow> unmarshal_map None (JObj es) = Some (Some es)"
  using store_members_distinct_id [of "[]" es] by (simp add: unmarshal_map_def keys_distinct_def)

lemma entries_distinct:
  "keys_distinct (link_entries l)" "keys_distinct (counter_entries r)" "keys_distinct (module_entries r)"
  "keys_distinct (report_output r)"
  by (simp_all add: keys_distinct_def link_entries_def counter_entries_def module_entries_def report_output_def Let_def)

lemma read_report: "report_ok r \<Longrightarrow> decode_port (report_output r) = report_data r"
proof -
  assume r: "report_ok r"
  have sections: "section_of (report_output r) sectionOperational = Some (link_entries (ReportLink r))"
    "section_of (report_output r) sectionCounters = Some (counter_entries r)"
    "section_of (report_output r) sectionModule = Some (module_entries r)"
    "section_of (report_output r) sectionFECHistogram = None"
    "section_of (report_output r) sectionSerDesTX = None" "section_of (report_output r) sectionEye = None"
    by (simp_all add: section_of_def field_keys report_output_def unmarshal_entries entries_distinct)
  have "list_all (\<lambda>t. trim_space t = t \<and> valid_utf8 t) (link_texts (ReportLink r))"
    using r by (simp add: report_ok_def)
  then show ?thesis
    unfolding decode_port_def sections
    using r by (simp add: decode_nil read_link read_counters read_module report_data_def no_port_data_def)
qed

text \<open>The printed report is a document that can be printed as JSON.\<close>

lemma flag_text_valid: "valid_utf8 (flag_text b)"
  by (simp add: flag_text_def valid_utf8_ascii byte_in_def)

lemma values_json_ok: "json_ok (Suc (Suc d)) (values_json vs) \<longleftrightarrow> list_all valid_utf8 vs"
proof -
  have "valid_utf8 ''values''" by (simp add: valid_utf8_ascii byte_in_def)
  then show ?thesis by (auto simp: values_json_def list_all_iff)
qed

definition keys_ascii :: "(bytes \<times> json) list \<Rightarrow> bool" where
  "keys_ascii es \<longleftrightarrow> list_all (\<lambda>(k, v). list_all (byte_in 0 0x7F) k) es"

lemma ascii_valid: "list_all (byte_in 0 0x7F) s \<Longrightarrow> valid_utf8 s"
  by (induction s) (simp_all add: valid_utf8_ascii)

lemma entries_ok:
  "keys_ascii es \<Longrightarrow> list_all (\<lambda>(k, v). json_ok d v) es \<Longrightarrow> json_ok (Suc d) (JObj es)"
  using ascii_valid by (auto simp: keys_ascii_def list_all_iff)

lemma report_entries_ok:
  assumes "report_ok r"
  shows "list_all (\<lambda>(k, v). json_ok (Suc (Suc d)) v) (link_entries (ReportLink r) @ counter_entries r @ module_entries r)"
  using assms
  by (auto simp: report_ok_def reading_ok_def state_ok_def link_entries_def counter_entries_def module_entries_def Let_def
      values_json_ok flag_text_valid link_texts_def info_texts_def range_text_def list_text_def list_all_iff
      split: prod.splits)

lemma report_keys:
  "keys_ascii (link_entries l)" "keys_ascii (counter_entries r)" "keys_ascii (module_entries r)"
  "keys_ascii (report_output r)"
  by (simp_all add: keys_ascii_def link_entries_def counter_entries_def module_entries_def report_output_def Let_def
      byte_in_def)

lemma report_json: "report_ok r \<Longrightarrow> json_ok 9999 (output_payload (report_output r))"
proof -
  assume r: "report_ok r"
  have es: "list_all (\<lambda>(k, v). json_ok 9996 v) (link_entries (ReportLink r) @ counter_entries r @ module_entries r)"
    using report_entries_ok [OF r, of 9994] by simp
  have "json_ok (Suc 9996) (JObj es)" if "es \<in> {link_entries (ReportLink r), counter_entries r, module_entries r}" for es
    by (rule entries_ok) (use that es report_keys in auto)
  then have "list_all (\<lambda>(k, v). json_ok (Suc 9996) v) (report_output r)"
    by (simp add: report_output_def del: json_ok.simps)
  then have "json_ok (Suc (Suc 9996)) (JObj (report_output r))" by (intro entries_ok report_keys)
  then have "json_ok 9998 (JObj (report_output r))" by (simp del: json_ok.simps)
  moreover have "valid_utf8 ''output''" by (simp add: valid_utf8_ascii byte_in_def)
  ultimately show ?thesis by (simp add: output_payload_def)
qed

subsection \<open>A report like the captured ones\<close>

definition sample_report :: report where
  "sample_report =
     \<lparr> ReportLink = \<lparr> LinkState = ''Active'', LinkPhysicalState = ''ETH_AN_FSM_ENABLE'', LinkSpeed = ''400G'', LinkWidth = ''4x'',
         LinkFEC = ''Standard_RS-FEC - (544,514)'', LinkAutoNegotiation = ''ON'' \<rparr>,
       ReportEffectiveErrors = ''0'', ReportLinkDown = ''0'', ReportErrorRecovery = ''0'',
       ReportEffectiveBER = ''0.25'', ReportRawBER = ''0.25'',
       ReportRawErrors = [''61'', ''0''], ReportRawBERs = [''0.25'', ''0.25''],
       ReportTemperature = (''61'', ''-10..80''), ReportVoltage = (''3235.5'', ''2970..3630''),
       ReportBias = ([''3235.5'', ''3235.5''], ''40..480''), ReportRxPower = ([''-3.5''], ''-10..7''),
       ReportTxPower = ([''-3.5'', ''61''], ''-7..7''), ReportModuleFault = False, ReportDatapathFault = True,
       ReportTxFault = [False, True], ReportTxLOS = [True, False], ReportRxLOS = [False, False],
       ReportTxCDRLOL = [], ReportRxCDRLOL = [True], ReportStates = [''DPActivated'', ''DPDeactivated''],
       ReportInfo = \<lparr> Identifier = ''OSFP'', Vendor = ''EXAMPLE'', PartNumber = ''OSFP-400G-DR4'', SerialNumber = '''',
         Revision = ''1A'', FirmwareVersion = ''40.242.17'', ActiveHostCompliance = ''IB NDR'',
         ActiveMediaCompliance = ''400GBASE-DR4'', CableType = ''Optical Module (separated)'' \<rparr> \<rparr>"

lemma sample_readings:
  "reading_ok ''0''" "reading_ok ''0.25''" "reading_ok ''61''" "reading_ok ''3235.5''" "reading_ok ''-3.5''"
  by (simp_all add: reading_ok_def graphic_def valid_utf8_ascii byte_in_def parse_float_eval f_finite_def)

lemma sample_report_ok: "report_ok sample_report"
  by (simp add: report_ok_def sample_report_def sample_readings link_texts_def info_texts_def trim_space_graphic graphic_def
      valid_utf8_ascii byte_in_def with_range_def state_ok_def equal_fold_na)

subsection \<open>Properties\<close>

text \<open>
  C10: A report is read back as it was printed: every attribute, counter, measurement, flag and
  state of the link and the module comes out of the decoder under its own name, in its own lane
  and in the base unit, whatever ranges are printed behind the measurements; the sections that
  are not there are empty.
\<close>

theorem report_roundtrip:
  assumes "report_ok r" and "valid_utf8 msg"
  shows "decode (print_json (response 0 msg (output_payload (report_output r)))) = Inr (report_data r)"
  using decode_output_response [OF report_json [OF assms(1)] assms(2), of 0]
  by (simp add: decode_def result_output_payload entries_distinct read_report [OF assms(1)])

lemma report_roundtrip_witness:
  "decode (print_json (response 0 ''success'' (output_payload (report_output sample_report)))) = Inr (report_data sample_report)"
  by (rule report_roundtrip [OF sample_report_ok]) (simp add: valid_utf8_ascii byte_in_def)

end
