(* ===== verification/Responses.thy ===== *)
theory Responses
  imports Reports
begin

text \<open>
  Whole responses: a report with its FEC histogram, its SerDes table and its eyes, each section
  printed under the literal keys of the captured responses, the sections in any order and with
  unknown ones among them. The lemmas read a printed eye and a printed SerDes table back; the
  property puts all of the sections together.
\<close>

subsection \<open>Printed eyes\<close>

text \<open>A list of lane numbers, and the scores of each family in the same order.\<close>

definition eye_entries :: "nat list \<Rightarrow> (bytes \<times> bytes list) list \<Rightarrow> (bytes \<times> json) list" where
  "eye_entries lanes families =
     (''Lane'', values_json (map dec lanes)) # map (\<lambda>(name, ts). (name, values_json ts)) families"

definition eye_lists_ok :: "nat list \<Rightarrow> bytes list list \<Rightarrow> bool" where
  "eye_lists_ok lanes texts \<longleftrightarrow>
     lanes \<noteq> [] \<and> distinct lanes \<and> list_all (\<lambda>l. l < 2 ^ 63) lanes \<and>
     list_all (\<lambda>ts. length ts = length lanes \<and> list_all reading_ok ts) texts"

text \<open>What it says: each score with its lane, the lanes in order.\<close>

definition scores :: "nat list \<Rightarrow> bytes list \<Rightarrow> lane_value list" where
  "scores lanes ts = sort_key Lane (map2 (\<lambda>l t. \<lparr> Lane = int l, LaneFloat = reading t \<rparr>) lanes ts)"

lemma read_score: "reading_ok t \<Longrightarrow> parse_finite_float t = Some (reading t)"
  by (auto simp: reading_ok_def reading_def parse_finite_float_def trim_space_graphic f_finite_iff split: sum.splits)

lemma read_lane_numbers:
  assumes "distinct lanes" and "list_all (\<lambda>l. l < 2 ^ 63) lanes"
  shows "unique_eye_lanes (map dec lanes) = Some (map int lanes)"
proof -
  have "eye_lane (dec l) = Some (int l)" if "l \<in> set lanes" for l
    using assms(2) that dec_graphic [of l] by (simp add: eye_lane_def list_all_iff trim_space_graphic)
  then show ?thesis
    using assms(1) by (simp add: unique_eye_lanes_Some map_all_Some_iff distinct_map)
qed

lemma eye_rows_readable:
  "(\<And>j. j < length lanes \<Longrightarrow> eye_lane_scores families (i + j) = Some (f (i + j))) \<Longrightarrow>
   eye_rows families i lanes = map (\<lambda>j. (lanes ! j, f (i + j))) [0..<length lanes]"
proof (induction lanes arbitrary: i)
  case (Cons lane lanes)
  have "eye_lane_scores families (Suc i + j) = Some (f (Suc i + j))" if "j < length lanes" for j
    using Cons.prems [of "Suc j"] that by simp
  from Cons.IH [OF this] Cons.prems [of 0] show ?case
    by (simp add: upt_conv_Cons map_Suc_upt [symmetric] o_def del: upt_Suc map_Suc_upt)
qed simp

lemma read_eye:
  assumes ok: "eye_lists_ok lanes (map snd families)" and names: "distinct (''Lane'' # map fst families)"
  shows "decode_eye_lane_values (Some (eye_entries lanes families)) (map fst families) =
    Some (map (\<lambda>(name, ts). scores lanes ts) families)"
proof -
  let ?sec = "Some (eye_entries lanes families)" and ?texts = "map snd families"
  let ?f = "\<lambda>j. map (\<lambda>ts. reading (ts ! j)) ?texts"
  have raws: "raw_values (sec_get ?sec ''Lane'') = Some (map dec lanes)"
    by (simp add: sec_get_def entries_def eye_entries_def)
  have "sec_get ?sec name = Some (values_json ts)" if "(name, ts) \<in> set families" for name ts
  proof -
    have "name \<in> set (map fst families)" using that by force
    then have "name \<noteq> ''Lane''" using names by (metis distinct.simps(2))
    then have "map_of (eye_entries lanes families) name = map_of (map (\<lambda>(name, ts). (name, values_json ts)) families) name"
      by (simp add: eye_entries_def)
    also have "\<dots> = Some (values_json ts)"
      using that names by (intro map_of_is_SomeI) (force simp: o_def case_prod_unfold)+
    finally show ?thesis by (simp add: sec_get_def entries_def)
  qed
  then have fams: "eye_families ?sec (map fst families) (length lanes) = Some ?texts"
    using ok unfolding eye_families_def map_all_Some_iff by (auto simp: eye_lists_ok_def list_all_iff)
  have lanes: "unique_eye_lanes (map dec lanes) = Some (map int lanes)"
    using ok by (intro read_lane_numbers) (simp_all add: eye_lists_ok_def)
  obtain out where out: "decode_eye_lane_values ?sec (map fst families) = Some out"
    using raws fams lanes ok by (simp add: decode_eye_lane_values_def eye_lists_ok_def)
  obtain raws' texts' lanes' where given: "raw_values (sec_get ?sec ''Lane'') = Some raws'"
    "eye_families ?sec (map fst families) (length raws') = Some texts'" "unique_eye_lanes raws' = Some lanes'"
    "out = map (\<lambda>k. sort_key Lane (map (row_sample k) (eye_rows texts' 0 lanes'))) [0..<length (map fst families)]"
    using decode_eye_lane_values_Some [OF out] by metis
  have "raws' = map dec lanes" using given(1) raws by simp
  then have "texts' = ?texts" "lanes' = map int lanes" using given(2,3) fams lanes by simp_all
  then have rows: "out = map (\<lambda>k. sort_key Lane (map (row_sample k) (eye_rows ?texts 0 (map int lanes)))) [0..<length families]"
    using given(4) by simp
  have "eye_lane_scores ?texts j = Some (?f j)" if "j < length lanes" for j
    unfolding eye_lane_scores_def map_all_Some_iff
    using ok that by (auto simp: eye_lists_ok_def list_all_iff intro!: read_score)
  then have eq: "eye_rows ?texts 0 (map int lanes) = map (\<lambda>j. (int (lanes ! j), ?f j)) [0..<length lanes]"
    using eye_rows_readable [of "map int lanes" ?texts 0 ?f] by (simp cong: map_cong)
  have "map (row_sample k) (eye_rows ?texts 0 (map int lanes)) =
      map2 (\<lambda>l t. \<lparr> Lane = int l, LaneFloat = reading t \<rparr>) lanes (snd (families ! k))" if "k < length families" for k
  proof -
    have "length (snd (families ! k)) = length lanes"
      using ok that by (simp add: eye_lists_ok_def list_all_iff)
    then show ?thesis unfolding eq using that by (intro nth_equalityI) (simp_all add: row_sample_def)
  qed
  then show ?thesis unfolding out rows
    by (intro arg_cong [where f = Some] nth_equalityI) (simp_all add: scores_def case_prod_unfold)
qed

subsection \<open>Printed SerDes tables\<close>

text \<open>The header of the captured responses, and six values in the row of each lane.\<close>

definition serdes_columns :: "bytes list" where
  "serdes_columns = [''fir_pre3'', ''fir_pre2'', ''fir_pre1'', ''fir_main'', ''fir_post1'', ''drv_amp'']"

definition serdes_entries :: "(nat \<times> bytes list) list \<Rightarrow> (bytes \<times> json) list" where
  "serdes_entries rows =
     (''Serdes TX parameters'', values_json serdes_columns) #
     map (\<lambda>(l, ts). (''Lane '' @ dec l, values_json ts)) rows"

definition rows_ok :: "(nat \<times> bytes list) list \<Rightarrow> bool" where
  "rows_ok rows \<longleftrightarrow> distinct (map fst rows) \<and>
     list_all (\<lambda>(l, ts). l < 2 ^ 63 \<and> length ts = 6 \<and> list_all reading_ok ts) rows"

text \<open>What it says: five taps and the amplitude of each lane, by lane and then by tap.\<close>

definition row_taps :: "nat \<Rightarrow> bytes list \<Rightarrow> fir_coefficient list" where
  "row_taps l ts = map2 (\<lambda>tap t. \<lparr> FIRLane = int l, FIRTap = tap, FIRValue = reading t \<rparr>)
     [''pre3'', ''pre2'', ''pre1'', ''main'', ''post1''] ts"

definition serdes_said :: "(nat \<times> bytes list) list \<Rightarrow> serdes_tx" where
  "serdes_said rows =
     \<lparr> FIRCoefficients = sort_key fir_key (concat (map (\<lambda>(l, ts). row_taps l ts) rows)),
       DriveAmplitude = sort_key Lane (map (\<lambda>(l, ts). \<lparr> Lane = int l, LaneFloat = reading (ts ! 5) \<rparr>) rows) \<rparr>"

lemma columns_header: "serdes_header (Some (serdes_entries rows)) = Some serdes_columns"
proof -
  have "map trim_space serdes_columns = serdes_columns"
    by (simp add: serdes_columns_def trim_space_graphic graphic_def)
  moreover have "distinct serdes_columns" "serdes_columns \<noteq> []" by (simp_all add: serdes_columns_def)
  ultimately show ?thesis
    by (simp add: serdes_header_def sec_get_def entries_def serdes_entries_def serdes_names_alt)
qed

lemma printed_lanes:
  assumes "rows_ok rows"
  shows "serdes_lanes (Some (serdes_entries rows)) (length serdes_columns) = Some (rev (map (\<lambda>(l, ts). (int l, ts)) rows))"
proof -
  have "lane_entries (serdes_entries rows) = map (\<lambda>(l, ts). (''Lane '' @ dec l, values_json ts)) rows"
    by (auto simp: lane_entries_def serdes_entries_def has_prefix_def filter_id_conv)
  moreover have "entry_lane (length serdes_columns) (''Lane '' @ dec l, values_json ts) = Some (int l, ts)"
    if "(l, ts) \<in> set rows" for l ts
    using assms that unfolding entry_lane_def fst_conv snd_conv trim_prefix_append
    by (auto simp: rows_ok_def list_all_iff serdes_columns_def)
  ultimately have "map_all (entry_lane (length serdes_columns)) (lane_entries (serdes_entries rows)) =
      Some (map (\<lambda>(l, ts). (int l, ts)) rows)"
    by (auto simp: map_all_Some_iff)
  moreover have "distinct (map fst (map (\<lambda>(l, ts). (int l, ts)) rows))"
    using assms by (simp add: rows_ok_def o_def case_prod_unfold distinct_map inj_on_def)
  ultimately show ?thesis by (simp add: serdes_lanes_alt)
qed

lemma printed_row:
  assumes "length ts = 6" and "list_all reading_ok ts"
  shows "lane_firs (int l) (known_of serdes_columns ts) = row_taps l ts"
    and "lane_drives (int l) (known_of serdes_columns ts) = [\<lparr> Lane = int l, LaneFloat = reading (ts ! 5) \<rparr>]"
proof -
  obtain a b c d e f where ts: "ts = [a, b, c, d, e, f]"
    using assms(1) by (auto simp: length_Suc_conv numeral_eq_Suc)
  then have "known_of serdes_columns ts = zip serdes_columns (map reading ts)"
    using assms(2) by (subst known_of_alt)
      (simp_all add: serdes_columns_def known_entries_def serdes_parameter_def read_score)
  then show "lane_firs (int l) (known_of serdes_columns ts) = row_taps l ts"
    "lane_drives (int l) (known_of serdes_columns ts) = [\<lparr> Lane = int l, LaneFloat = reading (ts ! 5) \<rparr>]"
    by (simp_all add: ts serdes_columns_def lane_firs_def lane_drives_def row_taps_def tap_of_def serdes_parameter_def)
qed

lemma read_serdes:
  assumes "rows_ok rows"
  shows "decode_serdes_tx (Some (serdes_entries rows)) = serdes_said rows"
proof -
  let ?lanes = "rev (map (\<lambda>(l, ts). (int l, ts)) rows)" and ?known = "known_of serdes_columns"
  have row: "lane_firs (int l) (?known ts) = row_taps l ts"
    "lane_drives (int l) (?known ts) = [\<lparr> Lane = int l, LaneFloat = reading (ts ! 5) \<rparr>]" if "(l, ts) \<in> set rows" for l ts
    using assms that printed_row [of ts l] by (auto simp: rows_ok_def list_all_iff)
  have firs: "mset (all_firs (\<lambda>lane. id) serdes_columns ?lanes) = mset (concat (map (\<lambda>(l, ts). row_taps l ts) rows))"
  proof -
    have "mset (all_firs (\<lambda>lane. id) serdes_columns ?lanes) =
        mset (concat (map (\<lambda>(l, vs). lane_firs l (?known vs)) (map (\<lambda>(l, ts). (int l, ts)) rows)))"
      unfolding all_firs_def by (rule mset_concat_perm) auto
    also have "map (\<lambda>(l, vs). lane_firs l (?known vs)) (map (\<lambda>(l, ts). (int l, ts)) rows) = map (\<lambda>(l, ts). row_taps l ts) rows"
      using row(1) by auto
    finally show ?thesis .
  qed
  have drives: "mset (all_drives (\<lambda>lane. id) serdes_columns ?lanes) =
      mset (map (\<lambda>(l, ts). \<lparr> Lane = int l, LaneFloat = reading (ts ! 5) \<rparr>) rows)"
  proof -
    have "mset (all_drives (\<lambda>lane. id) serdes_columns ?lanes) =
        mset (concat (map (\<lambda>(l, vs). lane_drives l (?known vs)) (map (\<lambda>(l, ts). (int l, ts)) rows)))"
      unfolding all_drives_def by (rule mset_concat_perm) auto
    also have "map (\<lambda>(l, vs). lane_drives l (?known vs)) (map (\<lambda>(l, ts). (int l, ts)) rows) =
        map (\<lambda>x. [(\<lambda>(l, ts). \<lparr> Lane = int l, LaneFloat = reading (ts ! 5) \<rparr>) x]) rows"
      using row(2) by auto
    finally show ?thesis by (simp only: concat_map_singleton)
  qed
  show ?thesis
    using columns_header [of rows] printed_lanes [OF assms] all_keys_distinct [OF columns_header printed_lanes [OF assms]]
    by (simp add: decode_serdes_tx_def decode_serdes_tx_in_alt serdes_said_def sort_key_perm [OF firs]
        sort_key_perm [OF drives])
qed

subsection \<open>Whole responses\<close>

record full_report =
  FullReport :: report
  FullBins :: "fec_bin list"
  FullRows :: "(nat \<times> bytes list) list"
  FullEyeLanes :: "nat list"
  FullInitial :: "bytes list"
  FullLast :: "bytes list"
  FullUpper :: "bytes list"
  FullMid :: "bytes list"
  FullLower :: "bytes list"
  FullPCIeLanes :: "nat list"
  FullPCIeInitial :: "bytes list"
  FullPCIeLast :: "bytes list"

definition full_ok :: "full_report \<Rightarrow> bool" where
  "full_ok r \<longleftrightarrow>
     report_ok (FullReport r) \<and> fec_ok (FullBins r) \<and> length (FullBins r) < 2 ^ 63 \<and> rows_ok (FullRows r) \<and>
     eye_lists_ok (FullEyeLanes r) [FullInitial r, FullLast r, FullUpper r, FullMid r, FullLower r] \<and>
     eye_lists_ok (FullPCIeLanes r) [FullPCIeInitial r, FullPCIeLast r]"

definition eye_section :: "full_report \<Rightarrow> (bytes \<times> json) list" where
  "eye_section r = eye_entries (FullEyeLanes r)
     [(''Initial FOM'', FullInitial r), (''Last FOM'', FullLast r), (''Upper Grades'', FullUpper r),
      (''Mid Grades'', FullMid r), (''Lower Grades'', FullLower r)]"

definition pcie_eye_section :: "full_report \<Rightarrow> (bytes \<times> json) list" where
  "pcie_eye_section r = eye_entries (FullPCIeLanes r)
     [(''Initial FOM'', FullPCIeInitial r), (''Last FOM'', FullPCIeLast r)]"

definition full_output :: "full_report \<Rightarrow> (bytes \<times> json) list" where
  "full_output r = report_output (FullReport r) @
     [(''Histogram of FEC Errors'', JObj (fec_section (FullBins r))),
      (''Serdes Tuning Transmitter Info'', JObj (serdes_entries (FullRows r))),
      (''EYE Opening Info'', JObj (eye_section r)),
      (''EYE Opening Info (PCIe)'', JObj (pcie_eye_section r))]"

text \<open>What it says of the network port, and of the PCIe link.\<close>

definition full_data :: "full_report \<Rightarrow> port_data" where
  "full_data r =
     \<lparr> PortLink = ReportLink (FullReport r), PortCounters = report_counters (FullReport r),
       PortModule = report_module (FullReport r), PortFECHistogram = FullBins r,
       PortSerDesTX = serdes_said (FullRows r),
       PortEye =
         \<lparr> EyeInitialFOM = scores (FullEyeLanes r) (FullInitial r), EyeLastFOM = scores (FullEyeLanes r) (FullLast r),
           EyeUpperGrade = scores (FullEyeLanes r) (FullUpper r), EyeMidGrade = scores (FullEyeLanes r) (FullMid r),
           EyeLowerGrade = scores (FullEyeLanes r) (FullLower r) \<rparr> \<rparr>"

definition full_pcie_eye :: "full_report \<Rightarrow> pcie_eye" where
  "full_pcie_eye r =
     \<lparr> PCIeInitialFOM = scores (FullPCIeLanes r) (FullPCIeInitial r),
       PCIeLastFOM = scores (FullPCIeLanes r) (FullPCIeLast r) \<rparr>"

lemma read_eye_section:
  "full_ok r \<Longrightarrow> decode_eye (Some (eye_section r)) = PortEye (full_data r)"
  using read_eye [of "FullEyeLanes r" "[(''Initial FOM'', FullInitial r), (''Last FOM'', FullLast r),
      (''Upper Grades'', FullUpper r), (''Mid Grades'', FullMid r), (''Lower Grades'', FullLower r)]"]
  by (simp add: full_ok_def decode_eye_def eye_section_def full_data_def)

lemma read_pcie_eye_section:
  "full_ok r \<Longrightarrow> decode_pcie_eye_section (Some (pcie_eye_section r)) = full_pcie_eye r"
  using read_eye [of "FullPCIeLanes r" "[(''Initial FOM'', FullPCIeInitial r), (''Last FOM'', FullPCIeLast r)]"]
  by (simp add: full_ok_def decode_pcie_eye_section_def pcie_eye_section_def full_pcie_eye_def)

lemma dec_lanes_distinct: "distinct ls \<Longrightarrow> distinct (map (\<lambda>l. p @ dec l) ls)"
  by (simp add: distinct_map inj_on_def dec_inject)

lemma section_keys_distinct:
  assumes "full_ok r"
  shows "keys_distinct (fec_section (FullBins r))" "keys_distinct (serdes_entries (FullRows r))"
    "keys_distinct (eye_section r)" "keys_distinct (pcie_eye_section r)"
proof -
  have "map nat (map Bin (FullBins r)) = map nat (map int [0..<length (FullBins r)])"
    using assms by (simp only: full_ok_def fec_ok_def)
  then have run: "map (\<lambda>b. nat (Bin b)) (FullBins r) = [0..<length (FullBins r)]" by (simp add: o_def)
  have "map (\<lambda>b. ''Bin '' @ dec (nat (Bin b))) (FullBins r) = map (\<lambda>l. ''Bin '' @ dec l) [0..<length (FullBins r)]"
    unfolding run [symmetric] by simp
  then have "distinct (map (\<lambda>b. ''Bin '' @ dec (nat (Bin b))) (FullBins r))"
    using dec_lanes_distinct [OF distinct_upt] by metis
  then show "keys_distinct (fec_section (FullBins r))"
    by (auto simp: keys_distinct_def fec_section_def fec_entry_def o_def)
  have "distinct (map (\<lambda>l. ''Lane '' @ dec l) (map fst (FullRows r)))"
    using assms by (intro dec_lanes_distinct) (simp add: full_ok_def rows_ok_def)
  then show "keys_distinct (serdes_entries (FullRows r))"
    by (auto simp: keys_distinct_def serdes_entries_def o_def case_prod_unfold)
  show "keys_distinct (eye_section r)" "keys_distinct (pcie_eye_section r)"
    by (simp_all add: keys_distinct_def eye_section_def pcie_eye_section_def eye_entries_def)
qed

text \<open>The printed sections are documents that can be printed as JSON.\<close>

lemma dec_ascii: "list_all (byte_in 0 0x7F) (dec n)"
proof -
  have "byte_in 0 0x7F c" if "digit_val c \<noteq> None" for c
    using that by (auto simp: digit_val_def byte_in_def Let_def split: if_splits)
  then show ?thesis using all_digits_dec [of n] by (auto simp: all_digits_def list_all_iff)
qed

lemma printed_json:
  assumes "full_ok r"
  shows "keys_ascii (fec_section (FullBins r)) \<and> list_all (\<lambda>(k, v). json_ok (Suc (Suc d)) v) (fec_section (FullBins r))"
    and "keys_ascii (serdes_entries (FullRows r)) \<and> list_all (\<lambda>(k, v). json_ok (Suc (Suc d)) v) (serdes_entries (FullRows r))"
    and "keys_ascii (eye_section r) \<and> list_all (\<lambda>(k, v). json_ok (Suc (Suc d)) v) (eye_section r)"
    and "keys_ascii (pcie_eye_section r) \<and> list_all (\<lambda>(k, v). json_ok (Suc (Suc d)) v) (pcie_eye_section r)"
proof -
  have ascii: "valid_utf8 s" if "list_all (byte_in 0 0x7F) s" for s using that by (rule ascii_valid)
  have texts: "list_all valid_utf8 ts" if "list_all reading_ok ts" for ts
    using that by (auto simp: list_all_iff reading_ok_def)
  show "keys_ascii (fec_section (FullBins r)) \<and> list_all (\<lambda>(k, v). json_ok (Suc (Suc d)) v) (fec_section (FullBins r))"
  proof -
    have key: "list_all (byte_in 0 0x7F) (''Bin '' @ dec n)" for n
      by (simp only: list_all_append dec_ascii) (simp add: byte_in_def)
    have range: "valid_utf8 (''['' @ dec a @ '':'' @ dec b @ '']'')" for a b
      by (rule ascii, simp only: list_all_append dec_ascii) (simp add: byte_in_def)
    have "keys_ascii (map fec_entry bs)" for bs
      using key by (simp add: keys_ascii_def list_all_iff fec_entry_def)
    moreover have "list_all (\<lambda>(k, v). json_ok (Suc (Suc d)) v) (map fec_entry bs)" for bs
      using range ascii [OF dec_ascii]
      by (simp add: list_all_iff fec_entry_def values_json_ok del: json_ok.simps)
    moreover have "list_all (byte_in 0 0x7F) ''Header''" "list_all valid_utf8 [''Range'', ''Occurrences'']"
      by (simp_all add: byte_in_def valid_utf8_ascii)
    ultimately show ?thesis
      by (simp add: fec_section_def keys_ascii_def values_json_ok del: json_ok.simps)
  qed
  show "keys_ascii (serdes_entries (FullRows r)) \<and> list_all (\<lambda>(k, v). json_ok (Suc (Suc d)) v) (serdes_entries (FullRows r))"
  proof -
    have key: "list_all (byte_in 0 0x7F) (''Lane '' @ dec n)" for n
      by (simp only: list_all_append dec_ascii) (simp add: byte_in_def)
    have rows: "list_all (\<lambda>(l, ts). list_all valid_utf8 ts) (FullRows r)"
      using assms texts by (auto simp: full_ok_def rows_ok_def list_all_iff)
    have "keys_ascii (map (\<lambda>(l, ts). (''Lane '' @ dec l, values_json ts)) rows)" for rows :: "(nat \<times> bytes list) list"
      using key by (auto simp: keys_ascii_def list_all_iff)
    moreover have "list_all (\<lambda>(k, v). json_ok (Suc (Suc d)) v)
        (map (\<lambda>(l, ts). (''Lane '' @ dec l, values_json ts)) (FullRows r))"
      using rows by (auto simp: list_all_iff values_json_ok simp del: json_ok.simps)
    moreover have "list_all (byte_in 0 0x7F) ''Serdes TX parameters''" "list_all valid_utf8 serdes_columns"
      by (simp_all add: byte_in_def valid_utf8_ascii serdes_columns_def)
    ultimately show ?thesis
      by (simp add: serdes_entries_def keys_ascii_def values_json_ok del: json_ok.simps)
  qed
  have numbers: "list_all valid_utf8 (map dec ls)" for ls
    using ascii [OF dec_ascii] by (simp add: list_all_iff)
  show "keys_ascii (eye_section r) \<and> list_all (\<lambda>(k, v). json_ok (Suc (Suc d)) v) (eye_section r)"
    "keys_ascii (pcie_eye_section r) \<and> list_all (\<lambda>(k, v). json_ok (Suc (Suc d)) v) (pcie_eye_section r)"
    using assms texts numbers
    by (auto simp: eye_section_def pcie_eye_section_def eye_entries_def keys_ascii_def values_json_ok full_ok_def
        eye_lists_ok_def dec_ascii ascii byte_in_def simp del: json_ok.simps)
qed

lemma full_output_json:
  assumes "full_ok r"
  shows "list_all (\<lambda>(k, v). valid_utf8 k \<and> json_ok 9997 v) (full_output r)"
proof -
  have whole: "json_ok 9997 (JObj es)"
    if "keys_ascii es \<and> list_all (\<lambda>(k, v). json_ok (Suc (Suc 9994)) v) es" for es
    using entries_ok [of es "Suc (Suc 9994)"] that by (simp del: json_ok.simps)
  have "json_ok 9999 (output_payload (report_output (FullReport r)))"
    using assms by (intro report_json) (simp add: full_ok_def)
  then have "list_all (\<lambda>(k, v). valid_utf8 k \<and> json_ok 9997 v) (report_output (FullReport r))"
    by (simp add: output_payload_def list_all_iff)
  moreover note printed_json [OF assms, of 9994, THEN whole]
  moreover have "valid_utf8 ''Histogram of FEC Errors''" "valid_utf8 ''Serdes Tuning Transmitter Info''"
    "valid_utf8 ''EYE Opening Info''" "valid_utf8 ''EYE Opening Info (PCIe)''"
    by (simp_all add: valid_utf8_ascii byte_in_def)
  ultimately show ?thesis by (simp add: full_output_def del: json_ok.simps)
qed

lemma read_full_output:
  assumes ok: "full_ok r" and out: "mset output = mset (full_output r @ extra)" "keys_distinct output"
  shows "decode_port output = full_data r"
    and "decode_pcie_eye_section (section_of output sectionPCIeEye) = full_pcie_eye r"
proof -
  have "section_of output c = Some es" if "(field_key c, JObj es) \<in> set (full_output r)" "keys_distinct es" for c es
  proof -
    have "(field_key c, JObj es) \<in> set output"
      using that(1) out(1) by (metis UnI1 set_append set_mset_mset)
    then have "map_of output (field_key c) = Some (JObj es)"
      using out(2) by (intro map_of_is_SomeI) (simp_all add: keys_distinct_def)
    then show ?thesis by (simp add: section_of_def unmarshal_entries that(2))
  qed
  moreover have "field_key sectionPCIeEye = ''EYE Opening Info (PCIe)''"
    by (simp add: field_key_def fieldAliases_def)
  ultimately have sections:
    "section_of output sectionOperational = Some (link_entries (ReportLink (FullReport r)))"
    "section_of output sectionCounters = Some (counter_entries (FullReport r))"
    "section_of output sectionModule = Some (module_entries (FullReport r))"
    "section_of output sectionFECHistogram = Some (fec_section (FullBins r))"
    "section_of output sectionSerDesTX = Some (serdes_entries (FullRows r))"
    "section_of output sectionEye = Some (eye_section r)"
    "section_of output sectionPCIeEye = Some (pcie_eye_section r)"
    using entries_distinct section_keys_distinct [OF ok]
    by (simp_all add: full_output_def report_output_def field_keys)
  have "list_all (\<lambda>t. trim_space t = t \<and> valid_utf8 t) (link_texts (ReportLink (FullReport r)))"
    using ok by (simp add: full_ok_def report_ok_def)
  moreover have "report_ok (FullReport r)" "decode_fec_histogram (Some (fec_section (FullBins r))) = FullBins r"
    "rows_ok (FullRows r)"
    using ok by (simp_all add: full_ok_def decode_fec_print)
  ultimately show "decode_port output = full_data r"
    unfolding decode_port_def sections
    by (simp add: read_link read_counters read_module read_serdes read_eye_section [OF ok]) (simp add: full_data_def)
  show "decode_pcie_eye_section (section_of output sectionPCIeEye) = full_pcie_eye r"
    unfolding sections by (rule read_pcie_eye_section [OF ok])
qed

subsection \<open>A response like the captured ones\<close>

definition sample_full :: full_report where
  "sample_full =
     \<lparr> FullReport = sample_report, FullBins = sample_bins,
       FullRows = [(1, [''0'', ''61'', ''-3.5'', ''61'', ''0.25'', ''61'']), (0, [''0'', ''0'', ''-3.5'', ''61'', ''0'', ''61''])],
       FullEyeLanes = [1, 0], FullInitial = [''61'', ''0''], FullLast = [''61'', ''61''], FullUpper = [''0.25'', ''0''],
       FullMid = [''0'', ''0''], FullLower = [''0'', ''61''], FullPCIeLanes = [0, 3],
       FullPCIeInitial = [''61'', ''0.25''], FullPCIeLast = [''0'', ''61''] \<rparr>"

lemma sample_full_ok: "full_ok sample_full"
  by (simp add: full_ok_def sample_full_def sample_report_ok sample_bins_ok rows_ok_def eye_lists_ok_def sample_readings)

subsection \<open>Properties\<close>

text \<open>
  C11: A whole response is read back as it was printed, wherever its sections are and whatever
  unknown sections are among them: the report of the link and the module, every bin of the FEC
  histogram, the five taps and the amplitude of every SerDes lane in the order of lanes and
  taps, and the five families of the network eye; and the two families of the PCIe eye from its
  own section, not from the one of the network eye, although the keys inside are the same.
\<close>

theorem response_roundtrip:
  assumes "full_ok r" and "valid_utf8 msg" and "mset output = mset (full_output r @ unknown)"
    and "keys_distinct output" and "list_all (\<lambda>(k, v). valid_utf8 k \<and> json_ok 9997 v) unknown"
  shows "decode (print_json (response 0 msg (output_payload output))) = Inr (full_data r) \<and>
    decode_pcie_eye (print_json (response 0 msg (output_payload output))) = Inr (full_pcie_eye r)"
proof -
  have "list_all (\<lambda>(k, v). valid_utf8 k \<and> json_ok 9997 v) (full_output r @ unknown)"
    using full_output_json [OF assms(1)] assms(5) by simp
  then have "list_all (\<lambda>(k, v). valid_utf8 k \<and> json_ok 9997 v) output"
    unfolding list_all_iff mset_eq_setD [OF assms(3)] .
  then have "json_ok 9998 (JObj output)" by (simp add: list_all_iff)
  from decode_printed [OF assms(4) this assms(2)] show ?thesis
    using read_full_output [OF assms(1,3,4)] by simp
qed

lemma response_roundtrip_witness:
  "decode (print_json (response 0 ''success''
     (output_payload ((''Supported Info'', JNull) # rev (full_output sample_full))))) = Inr (full_data sample_full) \<and>
   FullBins sample_full \<noteq> []"
proof -
  have "keys_distinct ((''Supported Info'', JNull) # rev (full_output sample_full))"
    by (simp add: keys_distinct_def full_output_def report_output_def)
  then show ?thesis
    using response_roundtrip [OF sample_full_ok, of "''success''"
        "(''Supported Info'', JNull) # rev (full_output sample_full)" "[(''Supported Info'', JNull)]"]
    by (simp add: valid_utf8_ascii byte_in_def sample_full_def sample_bins_ok)
qed

end
