(* ===== verification/Spec2Isabelle.thy ===== *)
theory Spec2Isabelle
  imports Lifetime Responses
begin

text \<open>
  A verification development for mlxlink_exporter, a Prometheus exporter of the link, module and
  eye data that NVIDIA's mlxlink tool reports about network adapters.

  \<^bold>\<open>The program.\<close> A background poller (\<open>internal/mlxlink/poller.go\<close>) walks the devices that the
  discovery (\<open>discovery.go\<close>) finds under \<open>/sys/class/infiniband\<close>, runs mlxlink on one after the
  other (\<open>runner.go\<close>), decodes the JSON answers (\<open>decoder.go\<close>, into the data of \<open>model.go\<close>) and
  publishes immutable sets of snapshots. The collectors (\<open>collector.go\<close>,
  \<open>pcie_eye_collector.go\<close>) turn the published sets into samples when they are scraped, without
  running anything; \<open>internal/mlxlinkexporter\<close> parses the configuration and serves the health and
  readiness handlers; \<open>main.go\<close> puts all of it together.

  \<^bold>\<open>The theories.\<close> Names of definitions follow those of the code, in lower case with underscores.
  \<^item> \<open>Prelude\<close>, \<open>State_WP\<close>: what all share; byte strings are lists of characters below 256;
    weakest preconditions for the library's state monad, with \<open>satisfies\<close> for a Hoare triple that
    relates the start, the result and the end.
  \<^item> \<open>Go_Strings\<close>, \<open>Go_Utf8\<close>, \<open>Go_Float64\<close>, \<open>Go_Time\<close>, \<open>Go_Strconv\<close>, \<open>Go_Json\<close>, \<open>Go_Os\<close>,
    \<open>Go_Duration\<close>: what the code uses of Go's standard library, executable: trimming and
    splitting, UTF-8, IEEE doubles with exact rounding, times with their monotonic part,
    number parsing, \<open>encoding/json\<close>, lexical paths, \<open>time.ParseDuration\<close>.
  \<^item> \<open>Model\<close>: the structs of \<open>model.go\<close> as records; \<open>port_data_ok\<close> is the invariant of what is
    exported (finite values, labels of valid UTF-8, distinct lanes, bins and taps).
  \<^item> \<open>Scalars\<close>, \<open>Sections\<close>, \<open>FEC_Histogram\<close>, \<open>Eye\<close>, \<open>SerDes\<close>, \<open>Decoder\<close>: \<open>decoder.go\<close> from its
    leaves to \<open>Decode\<close> and \<open>DecodePCIeEye\<close>. A Go map is the association list of its keys in the
    order of some iteration; the order independence theorems say that the order does not show.
    \<open>Reports\<close> prints what mlxlink says of a link and a module under the keys of the captured
    responses, and has the round trip through the whole decoder; \<open>Responses\<close> does the same for all
    six sections and the PCIe eye, in any order and among unknown ones.
  \<^item> \<open>Runner\<close>: \<open>runner.go\<close>, command lines, bounded buffers, the classification of failures. What a
    process did is the parameter \<open>process\<close>.
  \<^item> \<open>Poller\<close>: \<open>poller.go\<close>, function by function in the state monad over the record \<open>poller\<close> (the
    two stores, readiness, the world, and the trace of all calls); \<open>Run\<close> is the step relation
    \<open>run_step\<close>. \<open>Poller_Collect\<close> has the abstract specification of a collection and the proof
    that the nested functions refine it, \<open>Poller_Sweep\<close> the grammar of the traces of a sweep and
    that refinement, \<open>Poller_Trace\<close> what holds of the traces of all its programs (languages closed
    under concatenation), \<open>Poller_Run\<close> the invariant of all reachable states.
  \<^item> \<open>Discovery\<close>: \<open>discovery.go\<close> over a file system that may change between any two calls, and a
    reference definition, \<open>targets_of\<close>, for one that does not.
  \<^item> \<open>Collector\<close>: both collectors; a scrape is the list of the metrics sent, in their order, for
    any order of the published devices.
  \<^item> \<open>Config\<close>: \<open>config.go\<close> with the part of the \<open>flag\<close> package that it uses.
  \<^item> \<open>Server\<close>: \<open>server.go\<close>, the handlers, the registration of the three paths, and where a
    request goes; of \<open>http.ServeMux\<close> it has what plain paths use.
  \<^item> \<open>Exporter\<close>: \<open>main.go\<close> up to the start; \<open>exporter_env\<close> plugs discovery and runner into the
    poller, and \<open>exporter_reachable\<close> are the states of the whole program. \<open>Demo\<close> is a concrete run
    at which the properties of this theory are instantiated. \<open>Lifetime\<close> is the rest of \<open>main\<close>:
    the main goroutine, the poller and the server as one step relation, \<open>main_step\<close>, to the exit.

  \<^bold>\<open>Interfaces.\<close> Five locales state what one part relies on: \<open>command_runner\<close> (a query that fails
  says why, interpreted by the runner), \<open>discoverer\<close> (distinct, well-formed targets, interpreted by the
  walk), \<open>poller_client\<close> (an environment whose queries and discoveries keep those laws,
  interpreted by the program's environment; the life of the poller is proved in it), and
  \<open>snapshot_source\<close> (what the collectors need of a store, interpreted by both stores), and
  \<open>trace_language\<close> (what a set of traces must contain to contain all of a sweep's, interpreted
  for the origin of events and for the look at the context behind every query).

  \<^bold>\<open>What is shown.\<close> Of the whole program, below: no scrape is ever rejected,
  published data are genuine, readiness is exact, counters get labels they accept, overlaps are
  bounded; it ends with the exit code of what went wrong at its start; once its context is done its
  poller does nothing more, it can always exit then, and when it has exited its poller has returned. Of the poller: refinement of its specifications, no gaps while
  a sweep is under way, a bound on the queries of a sweep, a prompt stop, isolation of the PCIe
  Eye. Of the decoder: the invariant, the round trip with a printer, up to whole responses,
  exactness of each section, independence from the iteration order of maps. Of the discovery:
  what targets there are, and which devices are warned about, once. Of the runner: bounds, and
  exactly which reason a failure gets. Of the collectors: which value is sent under which name,
  and when. Of the configuration: what is accepted, what is refused and why, and that flags take
  precedence. Of the server: which handler answers where. \<open>stale_after_exact\<close> in \<open>Config\<close> shows a
  flaw: the staleness horizon of an accepted poll interval above 58 years wraps around, and may
  be negative (\<open>stale_after_overflows\<close>). \<open>server_routes\<close> in
  \<open>Server\<close> shows another: an accepted configuration with two equal paths makes the
  program panic after its poller has started.

  \<^bold>\<open>Bounds and fuel.\<close> Every function is total. The JSON parser runs on fuel of twice the input's
  length plus two, which is shown to be enough: it spends at most two calls a byte
  (\<open>json_parse_complete\<close>); its nesting limit of 10000 is that of \<open>encoding/json\<close>. The integers of
  the code are kept within their 64 bits where they may leave them: durations wrap
  (\<open>stale_after\<close>) or saturate (\<open>time_sub\<close>), and parsed numbers are checked. The limits of the
  runner are the code's, 4 MiB of output and 4 KiB of stderr.

  \<^bold>\<open>Time and concurrency.\<close> The world is a value that every call to the
  outside takes and returns, so the file system, mlxlink, the clock and \<open>ctx.Err()\<close>
  may answer differently each time; a signal may therefore arrive between any two calls. While
  the poller is blocked in its select, the relation \<open>idle\<close> changes the world at
  will, and a tick and a cancellation that are both ready may be taken in either order. That a
  cancelled context stays done, whatever else happens, is the hypothesis
  \<open>cancellation\<close> of the shutdown property. A published map is never written again,
  as \<open>maps.Clone\<close> makes sure in the code, so a scrape at any moment is a function
  of the two stores. A step of \<open>run_step\<close> is a whole sweep, so
  \<open>main_step\<close> lets the main goroutine cancel only between two sweeps; a context
  that is done in the middle of one is in what \<open>ctx.Err()\<close> answers, which may
  change from any call to the next. The stores in the middle of one are those that the trace
  leaves up to there (\<open>as_of\<close>), and what is said of scrapes and of published data
  holds for them too.

  \<^bold>\<open>Not modelled.\<close> The execution of processes, the delivery of signals, and the fairness of the
  scheduler (the runtime's); patterns of \<open>http.ServeMux\<close> with hosts, methods, wildcards or escapes
  (named out of scope by \<open>server_new\<close>); \<open>promhttp\<close>, the registry and its other collectors, and connections
  (library code; what the registry demands of descriptors and samples is \<open>metric_ok\<close> and the
  distinctness of \<open>series\<close>); help texts, error texts, usage texts and the attributes of log
  records (no logic depends on them); functional options and nil loggers, which only the tests
  use. Tests, documents and packaging are not part of the program.
\<close>

section \<open>Properties of the whole program\<close>

text \<open>
  C1: No scrape is ever rejected: whenever it comes, in the middle of a sweep too, with the two
  collectors loading their stores at moments of their own, and for any order of the published
  devices, each metric that the registered collectors send is described, has as many label values
  as its descriptor has names, all valid UTF-8, and a finite value; and no series is sent twice.
\<close>

theorem scrape_accepted:
  assumes "exporter_reachable out cfg idle w phase s" and "distinct order" and "distinct pcie_order"
  shows "list_all (metric_ok (registered_descs cfg)) (scrape cfg (as_of j k s) order pcie_order now) \<and>
    distinct (map series (scrape cfg (as_of j k s) order pcie_order now))"
  by (rule scrape_ok_distinct [OF _ assms(2,3)]) (use assms(1) in \<open>auto simp: exporter_seen_def\<close>)

lemma scrape_accepted_witness:
  "\<exists>s. demo_shows s \<and> distinct (map series (scrape demo_config s [''mlx5_0''] [] demo_time))"
proof -
  obtain s where s: "exporter_reachable demo_outside demo_config (\<lambda>_ _. False) () Selecting s" "demo_shows s"
    by (rule demo_reachable)
  let ?n = "length (Trace s)"
  show ?thesis
    using s(2) scrape_accepted [OF s(1), of "[''mlx5_0'']" "[]" ?n ?n demo_time] as_of_now [OF s(1)] by auto
qed

text \<open>
  C2: Published data are genuine: at every moment, whatever is published for a device comes, with
  only what was asked for, from an answer to a query of that very device (or it is the empty data
  of a device that has only failed), its labels are those of its own target, and the network and
  PCIe stores never mix.
\<close>

theorem published_genuine:
  assumes "exporter_reachable out cfg idle w phase s"
  shows "store_genuine (answered (set (Trace s))) no_port_data (Store (as_of j k s)) \<and>
    store_genuine (pcie_answered (set (Trace s))) no_pcie_eye (PCIeEyeStore (as_of j k s))"
  using exporter.reachable_stores [of out cfg idle _ phase s] assms
  by (simp add: exporter_reachable_def as_of_def)

lemma published_genuine_witness:
  "\<exists>s. demo_shows s \<and> store_genuine (answered (set (Trace s))) no_port_data (Store s)"
proof -
  obtain s where s: "exporter_reachable demo_outside demo_config (\<lambda>_ _. False) () Selecting s" "demo_shows s"
    by (rule demo_reachable)
  show ?thesis using s(2) published_genuine [OF s(1)] as_of_now [OF s(1)] by metis
qed

text \<open>
  C5: The exporter is ready exactly when a set was published that shows a successful collection:
  the ready handler answers 200 then, and 503 before; the health handler always answers 200.
\<close>

theorem ready_exact:
  assumes "exporter_reachable out cfg idle w phase s"
  shows "Status (handle_ready (Ready s)) = (if list_ex succeeded (device_sets (Trace s)) then 200 else 503) \<and>
    Status handle_health = 200"
  using exporter.reachable_ready [of out cfg idle _ phase s] assms
  by (simp add: exporter_reachable_def handle_ready_def handle_health_def)

lemma ready_exact_witness:
  "\<exists>s. demo_shows s \<and> Status (handle_ready (Ready s)) = 200 \<and> list_ex succeeded (device_sets (Trace s))"
proof -
  obtain s where s: "exporter_reachable demo_outside demo_config (\<lambda>_ _. False) () Selecting s" "demo_shows s"
    by (rule demo_reachable)
  then have "Status (handle_ready (Ready s)) = 200" by (simp add: demo_shows_def handle_ready_def)
  then show ?thesis using s(2) ready_exact [OF s(1)] by (auto split: if_splits)
qed

text \<open>
  C26: The error counters are always incremented with label values they accept: as many as their
  descriptors have names, all valid UTF-8, the last of them one of the documented reasons.
\<close>

theorem counters_accept_labels:
  assumes "exporter_reachable out cfg idle w phase s"
  shows "list_all (counter_labels_ok errors_desc) (errors_counted (Trace s)) \<and>
    list_all (counter_labels_ok pcie_errors_desc) (pcie_errors_counted (Trace s))"
  by (rule counters_ok_reachable [OF assms])

lemma counters_accept_labels_witness:
  "\<exists>s. demo_shows s \<and> counter_labels_ok errors_desc [''mlx5_0'', ''1'', ''0000:a1:00.0'', ''exit_error'']"
proof -
  obtain s where s: "exporter_reachable demo_outside demo_config (\<lambda>_ _. False) () Selecting s" "demo_shows s"
    by (rule demo_reachable)
  show ?thesis using s(2) counters_accept_labels [OF s(1)] by (auto simp: demo_shows_def)
qed

text \<open>
  C27: Overlaps are never overcounted: there are no more of them than sweeps, and fewer while the
  poller waits for its next tick; and the poller returns only after it has seen its context done,
  and does nothing after that.
\<close>

theorem overlaps_bounded:
  assumes "exporter_reachable out cfg idle w phase s"
  shows "overlaps_counted (Trace s) \<le> sweeps_begun (Trace s) \<and>
    (phase = Selecting \<longrightarrow> overlaps_counted (Trace s) < sweeps_begun (Trace s)) \<and>
    (phase = Returned \<longrightarrow> dead (last (Trace s)) \<and> \<not> run_step (exporter_env out cfg) idle (phase, s) y)"
  using exporter.run_invariant [of out cfg idle "new_discovering w" "(phase, s)"] assms
  by (cases phase) (auto simp: exporter_reachable_def elim: run_step_returnedE)

lemma overlaps_bounded_witness:
  "\<exists>s. demo_shows s \<and> overlaps_counted (Trace s) < sweeps_begun (Trace s)"
proof -
  obtain s where s: "exporter_reachable demo_outside demo_config (\<lambda>_ _. False) () Selecting s" "demo_shows s"
    by (rule demo_reachable)
  show ?thesis using s(2) overlaps_bounded [OF s(1)] by blast
qed

text \<open>
  C28: How the program starts. It goes on to serve exactly with an accepted configuration, that
  does not ask for the version, and a binary that is there; registering its collectors cannot
  fail then: the descriptors of everything it registers have names of their own, and no metric
  has a label twice. (That the paths of the server can be registered is not checked here, see
  server_routes.) Otherwise it exits: with code 0 exactly when help or the version was asked
  for, with 1 exactly when the binary is missing, with 2 exactly for a configuration it rejects.
\<close>

theorem main_start_sound:
  "case main_start getenv args stat_ok of
     Run cfg \<Rightarrow> parse_config getenv args = Inr cfg \<and> \<not> ShowVersion cfg \<and> stat_ok (MlxlinkPath cfg) \<and>
       config_usable cfg \<and> distinct (map DescName (registered_descs cfg)) \<and>
       list_all (\<lambda>d. distinct (DescLabels d)) (registered_descs cfg)
   | ExitWith code \<Rightarrow> code \<in> {0, 1, 2} \<and>
       (code = 0) = (parse_config getenv args = Inl HelpRequested \<or>
         (\<exists>cfg. parse_config getenv args = Inr cfg \<and> ShowVersion cfg)) \<and>
       (code = 1) = (\<exists>cfg. parse_config getenv args = Inr cfg \<and> \<not> ShowVersion cfg \<and> \<not> stat_ok (MlxlinkPath cfg)) \<and>
       (code = 2) = (\<exists>err. parse_config getenv args = Inl err \<and> err \<noteq> HelpRequested)"
  using parse_config_usable [of getenv args] registered_names registered_labels
  by (auto simp: main_start_def split: sum.splits)

end
